(* ===== verification/Go_Prelude.thy ===== *)
theory Go_Prelude imports Main begin

text \<open>
  What every component shares: Go's strings, its maps with a nil value, its error values, and
  the result of running a Go function.

  A Go function of the controller that talks to the cluster is a value of type
  \<open>('w, 'e, 'a) go\<close>: from the state \<open>'w\<close> of everything outside the program it yields
  an outcome, the list of events it issued (in order) and the new outside state.
  The outcome is \<open>Ok\<close> of the returned value (the Go error is nil), \<open>Err\<close> of the Go error,
  or \<open>Panic\<close> of a run-time panic.  Effects are never rolled back: an \<open>Err\<close> keeps the
  events and the state it was reached with, as in Go.

  The judgements \<open>safe\<close>, \<open>yields\<close> and \<open>valid\<close> with their rules carry the proofs of the
  components.
\<close>

named_theorems safe_intro \<open>introduction rules of the judgement safe\<close>
named_theorems yields_simp \<open>what a program can return\<close>
named_theorems valid_intro \<open>introduction rules of the judgement valid\<close>

section \<open>Strings\<close>

text \<open>\<open>strings.Split\<close> with a separator of one character: always at least one part.\<close>

fun split_on :: "char \<Rightarrow> string \<Rightarrow> string list" where
  "split_on c [] = [[]]"
| "split_on c (x # xs) =
     (if x = c then [] # split_on c xs
      else (case split_on c xs of [] \<Rightarrow> [[x]] | p # ps \<Rightarrow> (x # p) # ps))"

lemma split_on_nonempty [simp]: "split_on c s \<noteq> []"
  by (induction s) (auto split: list.splits)

lemma split_on_plain: "c \<notin> set s \<Longrightarrow> split_on c s = [s]"
  by (induction s) auto

lemma split_on_append: "c \<notin> set s \<Longrightarrow> split_on c (s @ c # t) = s # split_on c t"
  by (induction s) auto

lemma split_on_parts_plain: "p \<in> set (split_on c s) \<Longrightarrow> c \<notin> set p"
  by (induction s arbitrary: p) (auto split: if_splits list.splits)

text \<open>\<open>strings.ReplaceAll\<close> of one character by one character.\<close>

definition replace_char :: "char \<Rightarrow> char \<Rightarrow> string \<Rightarrow> string" where
  "replace_char a b s = map (\<lambda>c. if c = a then b else c) s"

text \<open>\<open>strings.ToLower\<close> on ASCII, the alphabet of API groups, versions and kinds.\<close>

definition lower_char :: "char \<Rightarrow> char" where
  "lower_char c =
     (if 65 \<le> (of_char c :: nat) \<and> (of_char c :: nat) \<le> 90 then char_of ((of_char c :: nat) + 32) else c)"

definition to_lower :: "string \<Rightarrow> string" where
  "to_lower s = map lower_char s"

text \<open>\<open>%d\<close> of \<open>fmt.Sprintf\<close> on a non-negative number.\<close>

fun show_nat :: "nat \<Rightarrow> string" where
  "show_nat n = (if n < 10 then [char_of (n + 48)] else show_nat (n div 10) @ [char_of (n mod 10 + 48)])"

declare show_nat.simps [simp del]

section \<open>Maps of strings\<close>

text \<open>
  A Go \<open>map[string]string\<close>: \<open>None\<close> is the nil map.  Reading a nil map or a missing key gives
  the empty string; writing to a nil map panics (\<open>mapWriteG\<close> below); deleting is defined on any map.
\<close>

type_synonym strmap = "(string \<rightharpoonup> string) option"

definition map_read :: "strmap \<Rightarrow> string \<Rightarrow> string" where
  "map_read m k = (case m of None \<Rightarrow> [] | Some f \<Rightarrow> (case f k of None \<Rightarrow> [] | Some v \<Rightarrow> v))"

definition map_make :: "strmap \<Rightarrow> strmap" where
  "map_make m = (case m of None \<Rightarrow> Some Map.empty | Some f \<Rightarrow> Some f)"

definition map_remove :: "strmap \<Rightarrow> string \<Rightarrow> strmap" where
  "map_remove m k = map_option (\<lambda>f. f(k := None)) m"

lemma map_make_neq_None [simp]: "map_make m \<noteq> None"
  by (simp add: map_make_def split: option.splits)

lemma map_read_make [simp]: "map_read (map_make m) k = map_read m k"
  by (simp add: map_read_def map_make_def split: option.splits)

lemma map_read_upd: "map_read (Some (f(k \<mapsto> v))) k' = (if k' = k then v else map_read (Some f) k')"
  by (simp add: map_read_def)

lemma map_read_remove: "map_read (map_remove m k) k' = (if k' = k then [] else map_read m k')"
  by (simp add: map_read_def map_remove_def split: option.splits)

lemma map_read_Some: "f k = Some v \<Longrightarrow> map_read (Some f) k = v"
  by (simp add: map_read_def)

section \<open>Errors and outcomes\<close>

text \<open>
  Go error values: \<open>EExternal\<close> is any error made outside the program (the API server, a
  library), \<open>EGroupDiscoveryFailed\<close> the library type the source tests for by a type assertion,
  \<open>EMsg\<close> is \<open>fmt.Errorf\<close> without and \<open>EWrap\<close> with a \<open>%w\<close> operand, \<open>EJoin\<close> is
  \<open>errors.Join\<close>.
\<close>

datatype go_error =
    EExternal string
  | EGroupDiscoveryFailed "string list"
  | EMsg string
  | EWrap string go_error
  | EJoin "go_error list"

datatype fault = NilMapWrite | IndexOutOfRange

datatype 'a res = Ok 'a | Err go_error | Panic fault

type_synonym ('w, 'e, 'a) go = "'w \<Rightarrow> 'a res \<times> 'e list \<times> 'w"

abbreviation result_of :: "('w, 'e, 'a) go \<Rightarrow> 'w \<Rightarrow> 'a res" where
  "result_of m w \<equiv> fst (m w)"

abbreviation trace_of :: "('w, 'e, 'a) go \<Rightarrow> 'w \<Rightarrow> 'e list" where
  "trace_of m w \<equiv> fst (snd (m w))"

abbreviation state_of :: "('w, 'e, 'a) go \<Rightarrow> 'w \<Rightarrow> 'w" where
  "state_of m w \<equiv> snd (snd (m w))"

section \<open>Statements\<close>

definition returnG :: "'a \<Rightarrow> ('w, 'e, 'a) go" where
  "returnG x = (\<lambda>w. (Ok x, [], w))"

definition failG :: "go_error \<Rightarrow> ('w, 'e, 'a) go" where
  "failG e = (\<lambda>w. (Err e, [], w))"

definition panicG :: "fault \<Rightarrow> ('w, 'e, 'a) go" where
  "panicG p = (\<lambda>w. (Panic p, [], w))"

definition bindG :: "('w, 'e, 'a) go \<Rightarrow> ('a \<Rightarrow> ('w, 'e, 'b) go) \<Rightarrow> ('w, 'e, 'b) go" where
  "bindG m f = (\<lambda>w. case m w of (r, t, w') \<Rightarrow>
     (case r of
        Ok x \<Rightarrow> (case f x w' of (r', t', w'') \<Rightarrow> (r', t @ t', w''))
      | Err e \<Rightarrow> (Err e, t, w')
      | Panic p \<Rightarrow> (Panic p, t, w')))"

text \<open>\<open>x, err := m\<close> where the code goes on with \<open>err\<close> in hand; a panic still unwinds.\<close>

definition tryG :: "('w, 'e, 'a) go \<Rightarrow> ('w, 'e, go_error + 'a) go" where
  "tryG m = (\<lambda>w. case m w of (r, t, w') \<Rightarrow>
     (case r of Ok x \<Rightarrow> (Ok (Inr x), t, w') | Err e \<Rightarrow> (Ok (Inl e), t, w') | Panic p \<Rightarrow> (Panic p, t, w')))"

text \<open>\<open>if err != nil { return fmt.Errorf("msg: %w", err) }\<close>\<close>

definition wrapG :: "string \<Rightarrow> ('w, 'e, 'a) go \<Rightarrow> ('w, 'e, 'a) go" where
  "wrapG msg m = (\<lambda>w. case m w of (r, t, w') \<Rightarrow>
     (case r of Ok x \<Rightarrow> (Ok x, t, w') | Err e \<Rightarrow> (Err (EWrap msg e), t, w') | Panic p \<Rightarrow> (Panic p, t, w')))"

text \<open>An event with no answer from outside.\<close>

definition emitG :: "'e \<Rightarrow> ('w, 'e, unit) go" where
  "emitG e = (\<lambda>w. (Ok (), [e], w))"

text \<open>A call to the outside: the answer is logged with the call.\<close>

definition callG :: "(go_error + 'a \<Rightarrow> 'e) \<Rightarrow> ('w \<Rightarrow> (go_error + 'a) \<times> 'w) \<Rightarrow> ('w, 'e, 'a) go" where
  "callG ev op = (\<lambda>w. case op w of (a, w') \<Rightarrow>
     ((case a of Inl e \<Rightarrow> Err e | Inr x \<Rightarrow> Ok x), [ev a], w'))"

text \<open>\<open>defer\<close> of an action that cannot fail: it runs last, however \<open>m\<close> ends.\<close>

definition deferG :: "'e \<Rightarrow> ('w, 'e, 'a) go \<Rightarrow> ('w, 'e, 'a) go" where
  "deferG e m = (\<lambda>w. case m w of (r, t, w') \<Rightarrow> (r, t @ [e], w'))"

text \<open>\<open>m[k] = v\<close> and \<open>xs[i]\<close>, which panic on a nil map and out of range.\<close>

definition mapWriteG :: "strmap \<Rightarrow> string \<Rightarrow> string \<Rightarrow> ('w, 'e, strmap) go" where
  "mapWriteG m k v = (case m of None \<Rightarrow> panicG NilMapWrite | Some f \<Rightarrow> returnG (Some (f(k \<mapsto> v))))"

definition indexG :: "'a list \<Rightarrow> nat \<Rightarrow> ('w, 'e, 'a) go" where
  "indexG xs i = (if i < length xs then returnG (xs ! i) else panicG IndexOutOfRange)"

text \<open>\<open>for _, x := range xs { ... }\<close>; the second form appends the values of its body to a slice.\<close>

primrec forG :: "('a \<Rightarrow> ('w, 'e, unit) go) \<Rightarrow> 'a list \<Rightarrow> ('w, 'e, unit) go" where
  "forG f [] = returnG ()"
| "forG f (x # xs) = bindG (f x) (\<lambda>_. forG f xs)"

primrec concatMapG :: "('a \<Rightarrow> ('w, 'e, 'b list) go) \<Rightarrow> 'a list \<Rightarrow> ('w, 'e, 'b list) go" where
  "concatMapG f [] = returnG []"
| "concatMapG f (x # xs) =
     bindG (f x) (\<lambda>ys. bindG (concatMapG f xs) (\<lambda>zs. returnG (ys @ zs)))"

definition liftE :: "go_error + 'a \<Rightarrow> ('w, 'e, 'a) go" where
  "liftE a = (case a of Inl e \<Rightarrow> failG e | Inr x \<Rightarrow> returnG x)"

lemmas go_defs =
  returnG_def failG_def panicG_def bindG_def tryG_def wrapG_def emitG_def callG_def deferG_def
  mapWriteG_def indexG_def liftE_def

lemma bind_return [simp]: "bindG (returnG x) f = f x"
  by (rule ext) (simp add: go_defs)

lemma bind_fail [simp]: "bindG (failG e) f = failG e"
  by (rule ext) (simp add: go_defs)

lemma return_bind [simp]: "bindG m returnG = m"
  by (rule ext) (auto simp: go_defs split: prod.splits res.splits)

lemma bind_unit: "bindG m (\<lambda>_. returnG ()) = m"
proof -
  have "(\<lambda>_. returnG ()) = returnG" by (rule ext) simp
  then have "bindG m (\<lambda>_. returnG ()) = bindG m returnG" by (rule arg_cong)
  then show ?thesis by (rule trans) (rule return_bind)
qed

lemma bind_assoc: "bindG (bindG m f) g = bindG m (\<lambda>x. bindG (f x) g)"
  by (rule ext) (auto simp: go_defs split: prod.splits res.splits)

lemma bind_case_sum:
  "bindG (case a of Inl e \<Rightarrow> f e | Inr x \<Rightarrow> g x) h = (case a of Inl e \<Rightarrow> bindG (f e) h | Inr x \<Rightarrow> bindG (g x) h)"
  by (cases a) simp_all

lemma bind_if: "bindG (if b then m else n) f = (if b then bindG m f else bindG n f)"
  by simp

lemma concatMap_append:
  "concatMapG f (xs @ ys) =
     bindG (concatMapG f xs) (\<lambda>a. bindG (concatMapG f ys) (\<lambda>b. returnG (a @ b)))"
  by (induction xs) (simp_all add: bind_assoc)

lemma concatMap_cong:
  "(\<And>x. x \<in> set xs \<Longrightarrow> f x = g x) \<Longrightarrow> concatMapG f xs = concatMapG g xs"
  by (induction xs) auto

lemma concatMap_filter:
  "concatMapG (\<lambda>x. if p x then f x else returnG []) xs = concatMapG f (filter p xs)"
  by (induction xs) simp_all

lemma concatMap_map: "concatMapG f (map g xs) = concatMapG (\<lambda>x. f (g x)) xs"
  by (induction xs) simp_all

text \<open>A run of \<open>bindG m f\<close> is a run of \<open>m\<close> and then of \<open>f\<close>, or a run of \<open>m\<close> that stops.\<close>

lemma bind_runE:
  assumes "bindG m f w = (r, t, w')"
  obtains (next_step) x t1 w1 t2 where
      "m w = (Ok x, t1, w1)" "f x w1 = (r, t2, w')" "t = t1 @ t2"
    | (error) e where "m w = (Err e, t, w')" "r = Err e"
    | (panic) p where "m w = (Panic p, t, w')" "r = Panic p"
  using assms unfolding bindG_def by (auto split: prod.splits res.splits)

text \<open>The runs of the other statements, in terms of the runs of their parts.\<close>

lemma try_run: "tryG m w = (a, t, w') \<longleftrightarrow>
    (\<exists>r. m w = (r, t, w') \<and> a = (case r of Ok x \<Rightarrow> Ok (Inr x) | Err e \<Rightarrow> Ok (Inl e) | Panic p \<Rightarrow> Panic p))"
  unfolding tryG_def by (cases "m w"; cases "fst (m w)") auto

lemma wrap_run: "wrapG msg m w = (a, t, w') \<longleftrightarrow>
    (\<exists>r. m w = (r, t, w') \<and> a = (case r of Ok x \<Rightarrow> Ok x | Err e \<Rightarrow> Err (EWrap msg e) | Panic p \<Rightarrow> Panic p))"
  unfolding wrapG_def by (cases "m w"; cases "fst (m w)") auto

lemma call_run: "callG ev op w = (r, t, w') \<longleftrightarrow>
    (\<exists>a. op w = (a, w') \<and> t = [ev a] \<and> r = (case a of Inl e \<Rightarrow> Err e | Inr x \<Rightarrow> Ok x))"
  unfolding callG_def by (cases "op w") auto

lemma defer_run: "deferG e m w = (r, t, w') \<longleftrightarrow> (\<exists>t'. m w = (r, t', w') \<and> t = t' @ [e])"
  unfolding deferG_def by (cases "m w") auto

lemma try_run_Inr: "tryG m w = (Ok (Inr x), t, w') \<longleftrightarrow> m w = (Ok x, t, w')"
  unfolding tryG_def by (cases "m w"; cases "fst (m w)") auto

lemma try_run_Inl: "tryG m w = (Ok (Inl e), t, w') \<longleftrightarrow> m w = (Err e, t, w')"
  unfolding tryG_def by (cases "m w"; cases "fst (m w)") auto

lemma try_run_Err: "tryG m w \<noteq> (Err e, t, w')"
  unfolding tryG_def by (cases "m w"; cases "fst (m w)") auto

lemma wrap_run_Ok: "wrapG msg m w = (Ok x, t, w') \<longleftrightarrow> m w = (Ok x, t, w')"
  unfolding wrapG_def by (cases "m w"; cases "fst (m w)") auto

lemma call_run_Ok: "callG ev op w = (Ok x, t, w') \<longleftrightarrow> op w = (Inr x, w') \<and> t = [ev (Inr x)]"
  unfolding callG_def by (cases "op w"; cases "fst (op w)") auto

lemma call_run_Err: "callG ev op w = (Err e, t, w') \<longleftrightarrow> op w = (Inl e, w') \<and> t = [ev (Inl e)]"
  unfolding callG_def by (cases "op w"; cases "fst (op w)") auto

lemmas go_runs = try_run wrap_run call_run defer_run

section \<open>What a program can return\<close>

text \<open>
  \<open>yields m x t\<close>: from some outside state, \<open>m\<close> returns \<open>x\<close> having issued the events \<open>t\<close>;
  \<open>fails m e t\<close>: it ends with the error \<open>e\<close>.
\<close>

definition yields :: "('w, 'e, 'a) go \<Rightarrow> 'a \<Rightarrow> 'e list \<Rightarrow> bool" where
  "yields m x t \<longleftrightarrow> (\<exists>w w'. m w = (Ok x, t, w'))"

definition fails :: "('w, 'e, 'a) go \<Rightarrow> go_error \<Rightarrow> 'e list \<Rightarrow> bool" where
  "fails m e t \<longleftrightarrow> (\<exists>w w'. m w = (Err e, t, w'))"

lemma yieldsI: "m w = (Ok x, t, w') \<Longrightarrow> yields m x t"
  by (auto simp: yields_def)

lemma yields_return [yields_simp]: "yields (returnG x) y t \<longleftrightarrow> y = x \<and> t = []"
  by (auto simp: yields_def returnG_def)

lemma yields_fail [yields_simp]: "\<not> yields (failG e) y t"
  by (simp add: yields_def failG_def)

lemma yields_panic [yields_simp]: "\<not> yields (panicG p) y t"
  by (simp add: yields_def panicG_def)

lemma yields_bindD:
  "yields (bindG m f) y t \<Longrightarrow> \<exists>x t1 t2. yields m x t1 \<and> yields (f x) y t2 \<and> t = t1 @ t2"
  unfolding yields_def by (blast elim!: bind_runE)

lemma yields_wrap [yields_simp]: "yields (wrapG msg m) y t \<longleftrightarrow> yields m y t"
  by (simp add: yields_def wrap_run_Ok)

lemma yields_try_Inr [yields_simp]: "yields (tryG m) (Inr y) t \<longleftrightarrow> yields m y t"
  by (simp add: yields_def try_run_Inr)

lemma yields_try_Inl [yields_simp]: "yields (tryG m) (Inl e) t \<longleftrightarrow> fails m e t"
  by (simp add: yields_def fails_def try_run_Inl)

lemma yields_lift [yields_simp]: "yields (liftE a) y t \<longleftrightarrow> a = Inr y \<and> t = []"
  by (auto simp: liftE_def yields_simp split: sum.splits)

lemma yields_emit [yields_simp]: "yields (emitG e) y t \<longleftrightarrow> t = [e]"
  by (auto simp: yields_def emitG_def)

lemma yields_call [yields_simp]:
  "yields (callG ev op) y t \<longleftrightarrow> t = [ev (Inr y)] \<and> (\<exists>w w'. op w = (Inr y, w'))"
  by (auto simp: yields_def call_run_Ok)

lemma fails_call: "fails (callG ev op) e t \<longleftrightarrow> t = [ev (Inl e)] \<and> (\<exists>w w'. op w = (Inl e, w'))"
  by (auto simp: fails_def call_run_Err)

lemma yields_defer [yields_simp]: "yields (deferG e m) y t \<longleftrightarrow> (\<exists>t'. yields m y t' \<and> t = t' @ [e])"
  by (auto simp: yields_def defer_run)

lemma yields_mapWrite [yields_simp]:
  "yields (mapWriteG m k v) y t \<longleftrightarrow> (\<exists>f. m = Some f \<and> y = Some (f(k \<mapsto> v))) \<and> t = []"
  by (auto simp: mapWriteG_def yields_simp split: option.splits)

lemma yields_index [yields_simp]: "yields (indexG xs i) y t \<longleftrightarrow> i < length xs \<and> y = xs ! i \<and> t = []"
  by (auto simp: indexG_def yields_simp)

lemma yields_concatMapD:
  "yields (concatMapG f xs) ys t \<Longrightarrow> y \<in> set ys \<Longrightarrow>
    \<exists>x\<in>set xs. \<exists>zs t1 t2 t3. yields (f x) zs t2 \<and> y \<in> set zs \<and> t = t1 @ t2 @ t3"
proof (induction xs arbitrary: ys t)
  case Nil
  then show ?case by (simp add: yields_simp)
next
  case (Cons x xs)
  from Cons.prems(1) obtain zs t1 zs' t2 where first: "yields (f x) zs t1"
    and rest: "yields (concatMapG f xs) zs' t2" and eq: "ys = zs @ zs'" "t = t1 @ t2"
    by (auto dest!: yields_bindD simp: yields_simp)
  show ?case
  proof (cases "y \<in> set zs")
    case True
    with first eq show ?thesis by (metis append_Nil list.set_intros(1))
  next
    case False
    with Cons.prems(2) eq have "y \<in> set zs'" by simp
    from Cons.IH [OF rest this] eq show ?thesis
      by (metis append_assoc list.set_intros(2))
  qed
qed

section \<open>Safety: no panic, and a property of every event in its history\<close>

text \<open>
  \<open>safe P h m\<close>: run after the events \<open>h\<close>, \<open>m\<close> never panics, and \<open>P h' e\<close> holds of each event
  \<open>e\<close> it issues, where \<open>h'\<close> are all the events before \<open>e\<close>.  A property of an event can so ask
  for an earlier event (a read that justifies a write) and not only for the event's form.
\<close>

primrec all_hist :: "('e list \<Rightarrow> 'e \<Rightarrow> bool) \<Rightarrow> 'e list \<Rightarrow> 'e list \<Rightarrow> bool" where
  "all_hist P h [] \<longleftrightarrow> True"
| "all_hist P h (e # t) \<longleftrightarrow> P h e \<and> all_hist P (h @ [e]) t"

lemma all_hist_append [simp]: "all_hist P h (s @ t) \<longleftrightarrow> all_hist P h s \<and> all_hist P (h @ s) t"
  by (induction s arbitrary: h) auto

lemma all_hist_const: "all_hist (\<lambda>_. P) h t \<longleftrightarrow> (\<forall>e\<in>set t. P e)"
  by (induction t arbitrary: h) auto

lemma all_hist_mono: "all_hist P h t \<Longrightarrow> (\<And>h e. P h e \<Longrightarrow> Q h e) \<Longrightarrow> all_hist Q h t"
  by (induction t arbitrary: h) auto

text \<open>\<open>ext h h'\<close>: the history \<open>h'\<close> goes on from \<open>h\<close>.\<close>

definition ext :: "'e list \<Rightarrow> 'e list \<Rightarrow> bool" where
  "ext h h' \<longleftrightarrow> (\<exists>t. h' = h @ t)"

lemma ext_refl [simp, intro]: "ext h h"
  by (simp add: ext_def)

lemma ext_append [simp, intro]: "ext h h' \<Longrightarrow> ext h (h' @ t)"
  by (auto simp: ext_def)

lemma ext_appendD [dest]: "ext (h @ t) h' \<Longrightarrow> ext h h'"
  by (auto simp: ext_def)

lemma ext_same [simp]: "ext (h @ t) (h @ t') \<longleftrightarrow> ext t t'"
  by (auto simp: ext_def)

lemma ext_snocD: "ext (h @ [e]) h' \<Longrightarrow> e \<in> set h'"
  by (auto simp: ext_def)

lemma ext_trans: "ext h h' \<Longrightarrow> ext h' h'' \<Longrightarrow> ext h h''"
  by (auto simp: ext_def)

lemma ext_set: "ext h h' \<Longrightarrow> e \<in> set h \<Longrightarrow> e \<in> set h'"
  by (auto simp: ext_def)

definition safe :: "('e list \<Rightarrow> 'e \<Rightarrow> bool) \<Rightarrow> 'e list \<Rightarrow> ('w, 'e, 'a) go \<Rightarrow> bool" where
  "safe P h m \<longleftrightarrow> (\<forall>w r t w'. m w = (r, t, w') \<longrightarrow> (\<forall>p. r \<noteq> Panic p) \<and> all_hist P h t)"

lemma safe_run: "safe P h m \<Longrightarrow> m w = (r, t, w') \<Longrightarrow> all_hist P h t \<and> (\<forall>p. r \<noteq> Panic p)"
  unfolding safe_def by blast

lemma safe_hist: "safe P h m \<Longrightarrow> all_hist P h (trace_of m w)"
  unfolding safe_def by (metis prod.collapse)

lemma safe_trace:
  assumes "safe (\<lambda>_. P) h m" and "e \<in> set (trace_of m w)"
  shows "P e"
  using safe_hist [OF assms(1), of w] assms(2) by (simp add: all_hist_const)

lemma safe_before: "safe P [] m \<Longrightarrow> trace_of m w = t1 @ e # t2 \<Longrightarrow> P t1 e"
  using safe_hist [of P "[]" m w] by simp

lemma safe_no_panic: "safe P h m \<Longrightarrow> result_of m w \<noteq> Panic p"
  unfolding safe_def by (metis prod.collapse)

lemma safe_mono: "safe P h m \<Longrightarrow> (\<And>h e. P h e \<Longrightarrow> Q h e) \<Longrightarrow> safe Q h m"
  unfolding safe_def by (blast intro: all_hist_mono)

lemma safe_return [safe_intro]: "safe P h (returnG x)"
  by (simp add: safe_def returnG_def)

lemma safe_fail [safe_intro]: "safe P h (failG e)"
  by (simp add: safe_def failG_def)

lemma safe_bind [safe_intro]:
  assumes "safe P h m" and "\<And>x t. yields m x t \<Longrightarrow> safe P (h @ t) (f x)"
  shows "safe P h (bindG m f)"
  unfolding safe_def
proof (intro allI impI)
  fix w r t w'
  assume "bindG m f w = (r, t, w')"
  then show "(\<forall>p. r \<noteq> Panic p) \<and> all_hist P h t"
  proof (cases rule: bind_runE)
    case (next_step x s1 w1 s2)
    from next_step(1) have "yields m x s1" by (rule yieldsI)
    then have "safe P (h @ s1) (f x)" by (rule assms(2))
    with next_step show ?thesis
      using safe_run [OF assms(1) next_step(1)] safe_run [of P "h @ s1" "f x" w1 r s2 w'] by simp
  next
    case (error e)
    with safe_run [OF assms(1) error(1)] show ?thesis by simp
  next
    case (panic p)
    with safe_run [OF assms(1) panic(1)] show ?thesis by simp
  qed
qed

lemma safe_try [safe_intro]: "safe P h m \<Longrightarrow> safe P h (tryG m)"
  by (fastforce simp: safe_def try_run split: res.split_asm)

lemma safe_wrap [safe_intro]: "safe P h m \<Longrightarrow> safe P h (wrapG msg m)"
  by (fastforce simp: safe_def wrap_run split: res.split_asm)

lemma safe_emit [safe_intro]: "P h e \<Longrightarrow> safe P h (emitG e)"
  by (auto simp: safe_def emitG_def)

lemma safe_call [safe_intro]: "(\<And>a. P h (ev a)) \<Longrightarrow> safe P h (callG ev op)"
  by (auto simp: safe_def call_run split: sum.split_asm)

lemma safe_defer [safe_intro]: "safe P h m \<Longrightarrow> (\<And>t. P (h @ t) e) \<Longrightarrow> safe P h (deferG e m)"
  by (fastforce simp: safe_def defer_run)

lemma safe_lift [safe_intro]: "safe P h (liftE a)"
  by (simp add: liftE_def safe_intro split: sum.splits)

lemma safe_mapWrite [safe_intro]: "m \<noteq> None \<Longrightarrow> safe P h (mapWriteG m k v)"
  by (auto simp: mapWriteG_def intro: safe_intro)

lemma safe_index [safe_intro]: "i < length xs \<Longrightarrow> safe P h (indexG xs i)"
  by (simp add: indexG_def safe_intro)

lemma safe_for [safe_intro]: "(\<And>x t. x \<in> set xs \<Longrightarrow> safe P (h @ t) (f x)) \<Longrightarrow> safe P h (forG f xs)"
proof (induction xs arbitrary: h)
  case (Cons x xs)
  have "safe P h (f x)" using Cons.prems [of x "[]"] by simp
  moreover have "safe P (h @ t) (forG f xs)" for t
    using Cons.prems [of _ "t @ _"] by (intro Cons.IH) simp
  ultimately show ?case by (simp add: safe_bind)
qed (simp add: safe_intro)

lemma safe_concatMap [safe_intro]:
  "(\<And>x t. x \<in> set xs \<Longrightarrow> safe P (h @ t) (f x)) \<Longrightarrow> safe P h (concatMapG f xs)"
proof (induction xs arbitrary: h)
  case (Cons x xs)
  have "safe P h (f x)" using Cons.prems [of x "[]"] by simp
  moreover have "safe P (h @ t) (concatMapG f xs)" for t
    using Cons.prems [of _ "t @ _"] by (intro Cons.IH) simp
  ultimately show ?case by (simp add: safe_bind safe_return)
qed (simp add: safe_intro)

lemma safe_if [safe_intro]:
  "(b \<Longrightarrow> safe P h m) \<Longrightarrow> (\<not> b \<Longrightarrow> safe P h n) \<Longrightarrow> safe P h (if b then m else n)"
  by simp

lemma safe_case_sum [safe_intro]:
  "(\<And>e. a = Inl e \<Longrightarrow> safe P h (f e)) \<Longrightarrow> (\<And>x. a = Inr x \<Longrightarrow> safe P h (g x)) \<Longrightarrow>
    safe P h (case a of Inl e \<Rightarrow> f e | Inr x \<Rightarrow> g x)"
  by (cases a) auto

lemma safe_case_option [safe_intro]:
  "(a = None \<Longrightarrow> safe P h m) \<Longrightarrow> (\<And>x. a = Some x \<Longrightarrow> safe P h (g x)) \<Longrightarrow>
    safe P h (case a of None \<Rightarrow> m | Some x \<Rightarrow> g x)"
  by (cases a) auto

lemma safe_case_prod [safe_intro]:
  "(\<And>x y. a = (x, y) \<Longrightarrow> safe P h (f x y)) \<Longrightarrow> safe P h (case a of (x, y) \<Rightarrow> f x y)"
  by (cases a) auto

lemma safe_let [safe_intro]: "(\<And>x. x = a \<Longrightarrow> safe P h (f x)) \<Longrightarrow> safe P h (let x = a in f x)"
  by simp

section \<open>Hoare triples over the outside state\<close>

text \<open>
  \<open>valid I m Q\<close>: from a state with \<open>I\<close>, if \<open>m\<close> returns a value, the value and the new state
  satisfy \<open>Q\<close>.  \<open>keeps I m\<close>: \<open>m\<close> keeps \<open>I\<close> however it ends.
\<close>

definition valid :: "('w \<Rightarrow> bool) \<Rightarrow> ('w, 'e, 'a) go \<Rightarrow> ('a \<Rightarrow> 'w \<Rightarrow> bool) \<Rightarrow> bool" where
  "valid I m Q \<longleftrightarrow> (\<forall>w x t w'. I w \<longrightarrow> m w = (Ok x, t, w') \<longrightarrow> Q x w')"

definition keeps :: "('w \<Rightarrow> bool) \<Rightarrow> ('w, 'e, 'a) go \<Rightarrow> bool" where
  "keeps I m \<longleftrightarrow> (\<forall>w. I w \<longrightarrow> I (state_of m w))"

lemma validD: "valid I m Q \<Longrightarrow> I w \<Longrightarrow> m w = (Ok x, t, w') \<Longrightarrow> Q x w'"
  by (auto simp: valid_def)

lemma valid_weaken: "valid I m Q \<Longrightarrow> (\<And>w. J w \<Longrightarrow> I w) \<Longrightarrow> (\<And>x w. Q x w \<Longrightarrow> R x w) \<Longrightarrow> valid J m R"
  unfolding valid_def by blast

lemma valid_conj: "valid I m Q \<Longrightarrow> valid J m R \<Longrightarrow> valid (\<lambda>w. I w \<and> J w) m (\<lambda>x w. Q x w \<and> R x w)"
  unfolding valid_def by blast

lemma valid_return [valid_intro]: "(\<And>w. I w \<Longrightarrow> Q x w) \<Longrightarrow> valid I (returnG x) Q"
  by (simp add: valid_def returnG_def)

lemma valid_fail [valid_intro]: "valid I (failG e) Q"
  by (simp add: valid_def failG_def)

lemma valid_bind [valid_intro]:
  assumes "valid I m R" and "\<And>x t. yields m x t \<Longrightarrow> valid (R x) (f x) Q"
  shows "valid I (bindG m f) Q"
  unfolding valid_def
proof (intro allI impI)
  fix w x t w'
  assume "I w" and "bindG m f w = (Ok x, t, w')"
  then show "Q x w'"
    by (auto elim!: bind_runE dest: validD [OF assms(1)] intro: validD [OF assms(2)] yieldsI)
qed

lemma valid_wrap [valid_intro]: "valid I m Q \<Longrightarrow> valid I (wrapG msg m) Q"
  by (simp add: valid_def wrap_run_Ok)

text \<open>\<open>keeps\<close> composes like the other judgements.\<close>

named_theorems keeps_intro \<open>introduction rules of the judgement keeps\<close>

lemma keepsD: "keeps I m \<Longrightarrow> I w \<Longrightarrow> m w = (r, t, w') \<Longrightarrow> I w'"
  unfolding keeps_def by (metis prod.sel)

lemma keepsI: "(\<And>w r t w'. I w \<Longrightarrow> m w = (r, t, w') \<Longrightarrow> I w') \<Longrightarrow> keeps I m"
  unfolding keeps_def by (metis prod.collapse)

lemma keeps_return [keeps_intro]: "keeps I (returnG x)"
  by (simp add: keeps_def returnG_def)

lemma keeps_fail [keeps_intro]: "keeps I (failG e)"
  by (simp add: keeps_def failG_def)

lemma keeps_panic [keeps_intro]: "keeps I (panicG p)"
  by (simp add: keeps_def panicG_def)

lemma keeps_emit [keeps_intro]: "keeps I (emitG e)"
  by (simp add: keeps_def emitG_def)

lemma keeps_lift [keeps_intro]: "keeps I (liftE a)"
  by (simp add: liftE_def keeps_intro split: sum.splits)

lemma keeps_mapWrite [keeps_intro]: "keeps I (mapWriteG m k v)"
  by (simp add: mapWriteG_def keeps_intro split: option.splits)

lemma keeps_index [keeps_intro]: "keeps I (indexG xs i)"
  by (simp add: indexG_def keeps_intro)

lemma keeps_try [keeps_intro]: "keeps I m \<Longrightarrow> keeps I (tryG m)"
  by (rule keepsI) (auto simp: try_run dest: keepsD)

lemma keeps_wrap [keeps_intro]: "keeps I m \<Longrightarrow> keeps I (wrapG msg m)"
  by (rule keepsI) (auto simp: wrap_run dest: keepsD)

lemma keeps_call [keeps_intro]: "(\<And>w a w'. I w \<Longrightarrow> op w = (a, w') \<Longrightarrow> I w') \<Longrightarrow> keeps I (callG ev op)"
  by (rule keepsI) (auto simp: call_run)

lemma keeps_bind [keeps_intro]:
  assumes "keeps I m" and "\<And>x t. yields m x t \<Longrightarrow> keeps I (f x)"
  shows "keeps I (bindG m f)"
proof (rule keepsI)
  fix w r t w'
  assume "I w" and "bindG m f w = (r, t, w')"
  then show "I w'"
    by (elim bind_runE) (use assms in \<open>blast intro: keepsD yieldsI\<close>)+
qed

lemma keeps_for [keeps_intro]: "(\<And>x. x \<in> set xs \<Longrightarrow> keeps I (f x)) \<Longrightarrow> keeps I (forG f xs)"
  by (induction xs) (auto intro: keeps_intro)

lemma keeps_concatMap [keeps_intro]: "(\<And>x. x \<in> set xs \<Longrightarrow> keeps I (f x)) \<Longrightarrow> keeps I (concatMapG f xs)"
  by (induction xs) (auto intro!: keeps_bind keeps_return)

lemma keeps_if [keeps_intro]: "(b \<Longrightarrow> keeps I m) \<Longrightarrow> (\<not> b \<Longrightarrow> keeps I n) \<Longrightarrow> keeps I (if b then m else n)"
  by simp

lemma keeps_case_sum [keeps_intro]:
  "(\<And>e. a = Inl e \<Longrightarrow> keeps I (f e)) \<Longrightarrow> (\<And>x. a = Inr x \<Longrightarrow> keeps I (g x)) \<Longrightarrow>
    keeps I (case a of Inl e \<Rightarrow> f e | Inr x \<Rightarrow> g x)"
  by (cases a) auto

lemma valid_keeps: "keeps I m \<Longrightarrow> valid I m (\<lambda>_. I)"
  by (auto simp: valid_def dest: keepsD)

section \<open>Phases\<close>

text \<open>
  \<open>phases ps t\<close>: the list falls into consecutive parts, one for each predicate of \<open>ps\<close>, such that
  the elements of a part satisfy its predicate; \<open>phased ps m\<close>: so do the events of every run.
\<close>

primrec phases :: "('e \<Rightarrow> bool) list \<Rightarrow> 'e list \<Rightarrow> bool" where
  "phases [] t \<longleftrightarrow> t = []"
| "phases (p # ps) t \<longleftrightarrow> (\<exists>t1 t2. t = t1 @ t2 \<and> list_all p t1 \<and> phases ps t2)"

definition phased :: "('e \<Rightarrow> bool) list \<Rightarrow> ('w, 'e, 'a) go \<Rightarrow> bool" where
  "phased ps m \<longleftrightarrow> (\<forall>w. phases ps (trace_of m w))"

lemma safe_list_all: "safe (\<lambda>_. p) h m \<Longrightarrow> m w = (r, t, w') \<Longrightarrow> list_all p t"
  using safe_run [of "\<lambda>_. p" h m w r t w'] by (simp add: all_hist_const list_all_iff)

lemma safe_trace_all: "safe (\<lambda>_. p) h m \<Longrightarrow> list_all p (trace_of m w)"
  using safe_list_all [of p h m w "result_of m w" "trace_of m w" "state_of m w"] by simp

lemma phases_Nil: "phases ps []"
  by (induction ps) auto

lemma phases_first:
  assumes "list_all p t"
  shows "phases (p # ps) t"
  unfolding phases.simps using assms by (intro exI [of _ t] exI [of _ "[]"] conjI phases_Nil) auto

lemma phases_more:
  assumes "list_all p s" and "phases (p # ps) t"
  shows "phases (p # ps) (s @ t)"
proof -
  from assms(2) obtain t1 t2 where "t = t1 @ t2" "list_all p t1" "phases ps t2" by auto
  with assms(1) show ?thesis
    by (simp, intro exI [of _ "s @ t1"] exI [of _ t2]) simp
qed

lemma phases_skip: "phases ps t \<Longrightarrow> phases (p # ps) t"
  by (simp, intro exI [of _ "[]"] exI [of _ t]) simp

lemma phased_skip: "phased ps m \<Longrightarrow> phased (p # ps) m"
  unfolding phased_def by (blast intro: phases_skip)

lemma phased_only: "safe (\<lambda>_. p) [] m \<Longrightarrow> phased (p # ps) m"
  unfolding phased_def by (blast intro: phases_first safe_trace_all)

lemma phased_bind:
  assumes "safe (\<lambda>_. p) [] m" and "\<And>x t. yields m x t \<Longrightarrow> phased (p # ps) (f x)"
  shows "phased (p # ps) (bindG m f)"
  unfolding phased_def
proof
  fix w
  obtain r t w' where run: "bindG m f w = (r, t, w')" by (cases "bindG m f w")
  then have "phases (p # ps) t"
  proof (cases rule: bind_runE)
    case (next_step x s1 w1 s2)
    from next_step(1) have "phased (p # ps) (f x)" by (intro assms(2) yieldsI)
    with next_step(2) have "phases (p # ps) s2" unfolding phased_def by (metis prod.sel)
    with safe_list_all [OF assms(1) next_step(1)] next_step(3) show ?thesis by (simp only: phases_more)
  next
    case (error e)
    with safe_list_all [OF assms(1) error(1)] show ?thesis by (simp only: phases_first)
  next
    case (panic e)
    with safe_list_all [OF assms(1) panic(1)] show ?thesis by (simp only: phases_first)
  qed
  with run show "phases (p # ps) (trace_of (bindG m f) w)" by simp
qed

lemma phased_if: "(b \<Longrightarrow> phased ps m) \<Longrightarrow> (\<not> b \<Longrightarrow> phased ps n) \<Longrightarrow> phased ps (if b then m else n)"
  by simp

end
