(* ===== verification/Kube_Api.thy ===== *)
theory Kube_Api imports Go_Prelude "HOL-Library.Word" begin

text \<open>
  The data of \<open>api/v1alpha1/namespaceclass_types.go\<close> and the interface of everything the
  controller calls that is not in the repository: the API server behind the controller-runtime
  client, the discovery client, and the library functions that parse, convert and classify.
  That outside is the parameter \<open>K :: 'w kube\<close> of every definition of the development; nothing
  is assumed of it unless a theorem says so through the locales at the end of this theory.
  Every call is an \<open>event\<close> that carries its arguments and its answer.
\<close>

section \<open>The API types\<close>

type_synonym int64 = "64 word"

text \<open>\<open>metav1.Time\<close> as the distance from the zero time, so that \<open>IsZero\<close> is \<open>= 0\<close>.\<close>

type_synonym Time = int

text \<open>A typed object inside a \<open>RawExtension\<close>: opaque to the controller.\<close>

datatype runtime_Object = RuntimeObject string

record RawExtension =
  Raw :: string
  Object :: "runtime_Object option"

record NamespaceClassSpec =
  Resources :: "RawExtension list"

record NamespaceClassNamespaceStatus =
  st_Name :: string
  st_CurrentClass :: string
  st_LastAppliedClass :: string
  st_ResourceStatus :: string

record Condition =
  co_Type :: string
  co_Status :: string
  co_Reason :: string
  co_Message :: string
  co_LastTransitionTime :: Time

record NamespaceClassStatus =
  ObservedGeneration :: int64
  Namespaces :: "NamespaceClassNamespaceStatus list"
  Conditions :: "Condition list"

text \<open>The parts of \<open>ObjectMeta\<close> the controller reads or writes, then spec and status.\<close>

record NamespaceClass =
  nc_Name :: string
  nc_ResourceVersion :: string
  nc_Generation :: int64
  nc_DeletionTimestamp :: "Time option"
  nc_Finalizers :: "string list"
  Spec :: NamespaceClassSpec
  Status :: NamespaceClassStatus

text \<open>A \<open>corev1.Namespace\<close>; \<open>ns_Other\<close> stands for the fields the controller never looks at.\<close>

record Namespace =
  ns_Name :: string
  ns_ResourceVersion :: string
  ns_DeletionTimestamp :: "Time option"
  ns_Labels :: strmap
  ns_Annotations :: strmap
  ns_Other :: string

record GroupVersion =
  gv_Group :: string
  gv_Version :: string

record GroupVersionKind =
  Group :: string
  Version :: string
  Kind :: string

text \<open>
  An \<open>unstructured.Unstructured\<close> through its accessors; \<open>u_Content\<close> stands for the rest of
  the object.
\<close>

record Unstructured =
  u_GVK :: GroupVersionKind
  u_Namespace :: string
  u_Name :: string
  u_Labels :: strmap
  u_ResourceVersion :: string
  u_Content :: string

record NamespacedName =
  nn_Namespace :: string
  nn_Name :: string

record APIResource =
  ar_Name :: string
  ar_Kind :: string
  Namespaced :: bool
  Verbs :: "string list"

record APIResourceList =
  rl_GroupVersion :: string
  APIResources :: "APIResource list"

definition byName :: "string \<Rightarrow> NamespacedName" where
  "byName n = \<lparr>nn_Namespace = [], nn_Name = n\<rparr>"

text \<open>The zero values \<open>&v1alpha1.NamespaceClass{}\<close> and \<open>&unstructured.Unstructured{}\<close>.\<close>

definition zero_NamespaceClass :: NamespaceClass where
  "zero_NamespaceClass =
     \<lparr>nc_Name = [], nc_ResourceVersion = [], nc_Generation = 0, nc_DeletionTimestamp = None,
      nc_Finalizers = [], Spec = \<lparr>Resources = []\<rparr>,
      Status = \<lparr>ObservedGeneration = 0, Namespaces = [], Conditions = []\<rparr>\<rparr>"

definition zero_Unstructured :: Unstructured where
  "zero_Unstructured =
     \<lparr>u_GVK = \<lparr>Group = [], Version = [], Kind = []\<rparr>, u_Namespace = [], u_Name = [],
      u_Labels = None, u_ResourceVersion = [], u_Content = []\<rparr>"

section \<open>The constants of the controller\<close>

definition NamespaceClassLabel :: string where
  "NamespaceClassLabel = ''namespaceclass.akuity.io/name''"

definition NamespaceClassFinalizer :: string where
  "NamespaceClassFinalizer = ''namespaceclass.akuity.io/finalizer''"

definition NamespaceClassOwner :: string where
  "NamespaceClassOwner = ''namespaceclass.akuity.io/owner''"

definition LastAppliedClassAnnotation :: string where
  "LastAppliedClassAnnotation = ''namespaceclass.akuity.io/last-applied-class''"

definition CurrentClassAnnotation :: string where
  "CurrentClassAnnotation = ''namespaceclass.akuity.io/current-class''"

lemma annotation_keys_distinct [simp]:
  "LastAppliedClassAnnotation \<noteq> CurrentClassAnnotation"
  "CurrentClassAnnotation \<noteq> LastAppliedClassAnnotation"
  by (simp_all add: LastAppliedClassAnnotation_def CurrentClassAnnotation_def)

section \<open>The outside\<close>

record 'w kube =
  k_getClass :: "NamespacedName \<Rightarrow> 'w \<Rightarrow> (go_error + NamespaceClass) \<times> 'w"
  k_getNs :: "string \<Rightarrow> 'w \<Rightarrow> (go_error + Namespace) \<times> 'w"
  k_getObj :: "GroupVersionKind \<Rightarrow> string \<Rightarrow> string \<Rightarrow> 'w \<Rightarrow> (go_error + Unstructured) \<times> 'w"
  k_listNs :: "string \<Rightarrow> string \<Rightarrow> 'w \<Rightarrow> (go_error + Namespace list) \<times> 'w"
  k_listObj :: "GroupVersionKind \<Rightarrow> string \<Rightarrow> string \<Rightarrow> string \<Rightarrow> 'w \<Rightarrow> (go_error + Unstructured list) \<times> 'w"
  k_create :: "Unstructured \<Rightarrow> 'w \<Rightarrow> (go_error + unit) \<times> 'w"
  k_updateObj :: "Unstructured \<Rightarrow> 'w \<Rightarrow> (go_error + unit) \<times> 'w"
  k_delete :: "Unstructured \<Rightarrow> 'w \<Rightarrow> (go_error + unit) \<times> 'w"
  k_updateNs :: "Namespace \<Rightarrow> 'w \<Rightarrow> (go_error + unit) \<times> 'w"
  k_updateClass :: "NamespaceClass \<Rightarrow> 'w \<Rightarrow> (go_error + unit) \<times> 'w"
  k_patchStatus :: "NamespaceClass \<Rightarrow> NamespaceClass \<Rightarrow> 'w \<Rightarrow> (go_error + unit) \<times> 'w"
  k_discover :: "'w \<Rightarrow> (APIResourceList list \<times> go_error option) \<times> 'w"
  k_watch :: "string \<Rightarrow> GroupVersionKind \<Rightarrow> 'w \<Rightarrow> (go_error + unit) \<times> 'w"
  k_manage :: "string \<Rightarrow> 'w \<Rightarrow> (go_error + unit) \<times> 'w"
  k_now :: "'w \<Rightarrow> Time"
  IsNotFound :: "go_error \<Rightarrow> bool"
  ParseGroupVersion :: "string \<Rightarrow> go_error + GroupVersion"
  Unmarshal :: "string \<Rightarrow> go_error + Unstructured"
  ToUnstructured :: "runtime_Object \<Rightarrow> go_error + Unstructured"
  SetStatusCondition :: "Condition list \<Rightarrow> Condition \<Rightarrow> Condition list"

text \<open>
  \<open>EvLock\<close> and \<open>EvUnlock\<close> are the operations on the per-namespace mutex, \<open>EvSpawn\<close> the
  start of a goroutine that will reconcile the given name, \<open>EvWatch\<close> and \<open>EvManage\<close> the
  registration of a watch controller and of the main controller with the manager.
\<close>

datatype event =
    EvGetClass NamespacedName "go_error + NamespaceClass"
  | EvGetNs string "go_error + Namespace"
  | EvGetObj GroupVersionKind string string "go_error + Unstructured"
  | EvListNs string string "go_error + Namespace list"
  | EvListObj GroupVersionKind string string string "go_error + Unstructured list"
  | EvDiscover "APIResourceList list" "go_error option"
  | EvCreate Unstructured "go_error + unit"
  | EvUpdateObj Unstructured "go_error + unit"
  | EvDelete Unstructured "go_error + unit"
  | EvUpdateNs Namespace "go_error + unit"
  | EvUpdateClass NamespaceClass "go_error + unit"
  | EvPatchStatus NamespaceClass NamespaceClass "go_error + unit"
  | EvLock string
  | EvUnlock string
  | EvSpawn string
  | EvWatch string GroupVersionKind "go_error + unit"
  | EvManage string "go_error + unit"

type_synonym ('w, 'a) prog = "('w, event, 'a) go"

definition getClass :: "'w kube \<Rightarrow> NamespacedName \<Rightarrow> ('w, NamespaceClass) prog" where
  "getClass K key = callG (EvGetClass key) (k_getClass K key)"

definition getNs :: "'w kube \<Rightarrow> string \<Rightarrow> ('w, Namespace) prog" where
  "getNs K n = callG (EvGetNs n) (k_getNs K n)"

definition getObj :: "'w kube \<Rightarrow> GroupVersionKind \<Rightarrow> string \<Rightarrow> string \<Rightarrow> ('w, Unstructured) prog" where
  "getObj K gvk ns n = callG (EvGetObj gvk ns n) (k_getObj K gvk ns n)"

definition listNs :: "'w kube \<Rightarrow> string \<Rightarrow> string \<Rightarrow> ('w, Namespace list) prog" where
  "listNs K key val = callG (EvListNs key val) (k_listNs K key val)"

definition listObj :: "'w kube \<Rightarrow> GroupVersionKind \<Rightarrow> string \<Rightarrow> string \<Rightarrow> string \<Rightarrow> ('w, Unstructured list) prog" where
  "listObj K gvk ns key val = callG (EvListObj gvk ns key val) (k_listObj K gvk ns key val)"

definition createObj :: "'w kube \<Rightarrow> Unstructured \<Rightarrow> ('w, unit) prog" where
  "createObj K u = callG (EvCreate u) (k_create K u)"

definition updateObj :: "'w kube \<Rightarrow> Unstructured \<Rightarrow> ('w, unit) prog" where
  "updateObj K u = callG (EvUpdateObj u) (k_updateObj K u)"

definition deleteObj :: "'w kube \<Rightarrow> Unstructured \<Rightarrow> ('w, unit) prog" where
  "deleteObj K u = callG (EvDelete u) (k_delete K u)"

definition updateNs :: "'w kube \<Rightarrow> Namespace \<Rightarrow> ('w, unit) prog" where
  "updateNs K ns = callG (EvUpdateNs ns) (k_updateNs K ns)"

definition updateClass :: "'w kube \<Rightarrow> NamespaceClass \<Rightarrow> ('w, unit) prog" where
  "updateClass K nc = callG (EvUpdateClass nc) (k_updateClass K nc)"

text \<open>\<open>r.Status().Patch(ctx, obj, client.MergeFrom(base))\<close>.\<close>

definition patchStatus :: "'w kube \<Rightarrow> NamespaceClass \<Rightarrow> NamespaceClass \<Rightarrow> ('w, unit) prog" where
  "patchStatus K base nc = callG (EvPatchStatus base nc) (k_patchStatus K base nc)"

text \<open>\<open>DiscoveryClient.ServerPreferredResources()\<close> may return lists and an error at once.\<close>

definition ServerPreferredResources :: "'w kube \<Rightarrow> ('w, APIResourceList list \<times> go_error option) prog" where
  "ServerPreferredResources K = (\<lambda>w. case k_discover K w of ((rls, err), w') \<Rightarrow>
     (Ok (rls, err), [EvDiscover rls err], w'))"

text \<open>\<open>metav1.Now()\<close>.\<close>

definition nowG :: "'w kube \<Rightarrow> ('w, Time) prog" where
  "nowG K = (\<lambda>w. (Ok (k_now K w), [], w))"

definition watchObj :: "'w kube \<Rightarrow> string \<Rightarrow> GroupVersionKind \<Rightarrow> ('w, unit) prog" where
  "watchObj K name gvk = callG (EvWatch name gvk) (k_watch K name gvk)"

definition manage :: "'w kube \<Rightarrow> string \<Rightarrow> ('w, unit) prog" where
  "manage K name = callG (EvManage name) (k_manage K name)"

text \<open>What an event can be when it changes the cluster.\<close>

fun is_write :: "event \<Rightarrow> bool" where
  "is_write (EvCreate u r) = True"
| "is_write (EvUpdateObj u r) = True"
| "is_write (EvDelete u r) = True"
| "is_write (EvUpdateNs n r) = True"
| "is_write (EvUpdateClass c r) = True"
| "is_write (EvPatchStatus b c r) = True"
| "is_write _ = False"

text \<open>Events that only read.\<close>

fun is_read :: "event \<Rightarrow> bool" where
  "is_read (EvGetClass k r) = True"
| "is_read (EvGetNs n r) = True"
| "is_read (EvGetObj g m n r) = True"
| "is_read (EvListNs k v r) = True"
| "is_read (EvListObj g n k v r) = True"
| "is_read (EvDiscover rls e) = True"
| "is_read _ = False"

text \<open>The object an event creates or updates.\<close>

fun applied :: "event \<Rightarrow> Unstructured option" where
  "applied (EvCreate u r) = Some u"
| "applied (EvUpdateObj u r) = Some u"
| "applied _ = None"

fun is_getObj :: "event \<Rightarrow> bool" where
  "is_getObj (EvGetObj g m n r) = True"
| "is_getObj _ = False"

text \<open>The answer to the latest successful read of a namespace.\<close>

definition lastRead :: "string \<Rightarrow> event list \<Rightarrow> Namespace option" where
  "lastRead n h = foldl (\<lambda>acc e. case e of
       EvGetNs m (Inr ns) \<Rightarrow> if m = n then Some ns else acc
     | _ \<Rightarrow> acc) None h"

lemma lastRead_getObjs: "list_all is_getObj t \<Longrightarrow> lastRead n (h @ t) = lastRead n h"
proof (induction t rule: rev_induct)
  case (snoc e t)
  then show ?case by (cases e) (simp_all add: lastRead_def)
qed simp

lemma lastRead_getNs:
  "list_all is_getObj t \<Longrightarrow> lastRead n (h @ EvGetNs n (Inr ns) # t) = Some ns"
  using lastRead_getObjs [of t n "h @ [EvGetNs n (Inr ns)]"] by (simp add: lastRead_def)

text \<open>What the reads return is what their event records.\<close>

lemma yields_getClass [yields_simp]: "yields (getClass K key) c t \<longleftrightarrow>
    t = [EvGetClass key (Inr c)] \<and> (\<exists>w w'. k_getClass K key w = (Inr c, w'))"
  by (simp add: getClass_def yields_simp)

lemma fails_getClass [yields_simp]: "fails (getClass K key) e t \<longleftrightarrow>
    t = [EvGetClass key (Inl e)] \<and> (\<exists>w w'. k_getClass K key w = (Inl e, w'))"
  by (simp add: getClass_def fails_call)

lemma yields_getNs [yields_simp]: "yields (getNs K n) ns t \<longleftrightarrow>
    t = [EvGetNs n (Inr ns)] \<and> (\<exists>w w'. k_getNs K n w = (Inr ns, w'))"
  by (simp add: getNs_def yields_simp)

lemma yields_getObj [yields_simp]: "yields (getObj K gvk m n) u t \<longleftrightarrow>
    t = [EvGetObj gvk m n (Inr u)] \<and> (\<exists>w w'. k_getObj K gvk m n w = (Inr u, w'))"
  by (simp add: getObj_def yields_simp)

lemma fails_getObj [yields_simp]: "fails (getObj K gvk m n) e t \<longleftrightarrow>
    t = [EvGetObj gvk m n (Inl e)] \<and> (\<exists>w w'. k_getObj K gvk m n w = (Inl e, w'))"
  by (simp add: getObj_def fails_call)

lemma yields_listNs [yields_simp]: "yields (listNs K key val) nss t \<longleftrightarrow>
    t = [EvListNs key val (Inr nss)] \<and> (\<exists>w w'. k_listNs K key val w = (Inr nss, w'))"
  by (simp add: listNs_def yields_simp)

lemma yields_listObj [yields_simp]: "yields (listObj K gvk n key val) us t \<longleftrightarrow>
    t = [EvListObj gvk n key val (Inr us)] \<and> (\<exists>w w'. k_listObj K gvk n key val w = (Inr us, w'))"
  by (simp add: listObj_def yields_simp)

text \<open>A read of a namespace, with the program that goes on with its answer.\<close>

lemma try_getNs_run: "k_getNs K n w = (a, w1) \<Longrightarrow>
    bindG (tryG (getNs K n)) f w = (case f a w1 of (r, t, w') \<Rightarrow> (r, EvGetNs n a # t, w'))"
  by (cases a) (simp_all add: getNs_def go_defs split: prod.split)

text \<open>The safety rules of the calls: the property has to hold of the event, whatever the answer.\<close>

lemma safe_getClass [safe_intro]: "(\<And>a. P h (EvGetClass key a)) \<Longrightarrow> safe P h (getClass K key)"
  by (simp add: getClass_def safe_intro)

lemma safe_getNs [safe_intro]: "(\<And>a. P h (EvGetNs n a)) \<Longrightarrow> safe P h (getNs K n)"
  by (simp add: getNs_def safe_intro)

lemma safe_getObj [safe_intro]: "(\<And>a. P h (EvGetObj gvk ns n a)) \<Longrightarrow> safe P h (getObj K gvk ns n)"
  by (simp add: getObj_def safe_intro)

lemma safe_listNs [safe_intro]: "(\<And>a. P h (EvListNs key val a)) \<Longrightarrow> safe P h (listNs K key val)"
  by (simp add: listNs_def safe_intro)

lemma safe_listObj [safe_intro]:
  "(\<And>a. P h (EvListObj gvk ns key val a)) \<Longrightarrow> safe P h (listObj K gvk ns key val)"
  by (simp add: listObj_def safe_intro)

lemma safe_createObj [safe_intro]: "(\<And>a. P h (EvCreate u a)) \<Longrightarrow> safe P h (createObj K u)"
  by (simp add: createObj_def safe_intro)

lemma safe_updateObj [safe_intro]: "(\<And>a. P h (EvUpdateObj u a)) \<Longrightarrow> safe P h (updateObj K u)"
  by (simp add: updateObj_def safe_intro)

lemma safe_deleteObj [safe_intro]: "(\<And>a. P h (EvDelete u a)) \<Longrightarrow> safe P h (deleteObj K u)"
  by (simp add: deleteObj_def safe_intro)

lemma safe_updateNs [safe_intro]: "(\<And>a. P h (EvUpdateNs ns a)) \<Longrightarrow> safe P h (updateNs K ns)"
  by (simp add: updateNs_def safe_intro)

lemma safe_updateClass [safe_intro]: "(\<And>a. P h (EvUpdateClass nc a)) \<Longrightarrow> safe P h (updateClass K nc)"
  by (simp add: updateClass_def safe_intro)

lemma safe_patchStatus [safe_intro]: "(\<And>a. P h (EvPatchStatus b nc a)) \<Longrightarrow> safe P h (patchStatus K b nc)"
  by (simp add: patchStatus_def safe_intro)

lemma safe_discover [safe_intro]: "(\<And>rls e. P h (EvDiscover rls e)) \<Longrightarrow> safe P h (ServerPreferredResources K)"
  by (auto simp: safe_def ServerPreferredResources_def split: prod.splits)

lemma safe_now [safe_intro]: "safe P h (nowG K)"
  by (simp add: safe_def nowG_def)

lemma safe_watchObj [safe_intro]: "(\<And>a. P h (EvWatch n gvk a)) \<Longrightarrow> safe P h (watchObj K n gvk)"
  by (simp add: watchObj_def safe_intro)

lemma safe_manage [safe_intro]: "(\<And>a. P h (EvManage n a)) \<Longrightarrow> safe P h (manage K n)"
  by (simp add: manage_def safe_intro)

section \<open>What the controller relies on\<close>

definition has_label :: "strmap \<Rightarrow> string \<Rightarrow> string \<Rightarrow> bool" where
  "has_label m k v \<longleftrightarrow> (case m of None \<Rightarrow> False | Some f \<Rightarrow> f k = Some v)"

lemma has_label_read: "has_label m k v \<Longrightarrow> map_read m k = v"
  by (auto simp: has_label_def map_read_def split: option.splits)

text \<open>
  The documented contract of the client: \<open>Get\<close> answers with the object of the requested name,
  \<open>List\<close> with objects that match the selector.  Nothing is said about how fresh an answer is,
  so the laws hold of a cached client and of other writers at work.
\<close>

locale kube_client =
  fixes K :: "'w kube"
  assumes getClass_name: "k_getClass K nn w = (Inr c, w') \<Longrightarrow> nc_Name c = nn_Name nn"
    and getNs_name: "k_getNs K n w = (Inr ns, w') \<Longrightarrow> ns_Name ns = n"
    and listNs_label: "k_listNs K key val w = (Inr nss, w') \<Longrightarrow> ns \<in> set nss \<Longrightarrow> has_label (ns_Labels ns) key val"
    and listObj_ns: "k_listObj K gvk n key val w = (Inr us, w') \<Longrightarrow> u \<in> set us \<Longrightarrow> u_Namespace u = n"
    and listObj_label: "k_listObj K gvk n key val w = (Inr us, w') \<Longrightarrow> u \<in> set us \<Longrightarrow> has_label (u_Labels u) key val"
begin

lemma yields_getClass_name: "yields (getClass K nn) c t \<Longrightarrow> nc_Name c = nn_Name nn"
  by (auto simp: yields_simp dest: getClass_name)

lemma yields_getNs_name: "yields (getNs K n) ns t \<Longrightarrow> ns_Name ns = n"
  by (auto simp: yields_simp dest: getNs_name)

lemma yields_listNs_label: "yields (listNs K key val) nss t \<Longrightarrow> ns \<in> set nss \<Longrightarrow> has_label (ns_Labels ns) key val"
  by (auto simp: yields_simp dest: listNs_label)

lemma yields_listObj_label:
  "yields (listObj K gvk n key val) us t \<Longrightarrow> u \<in> set us \<Longrightarrow>
    u_Namespace u = n \<and> has_label (u_Labels u) key val"
  by (auto simp: yields_simp dest: listObj_ns listObj_label)

end

text \<open>
  A client whose writes take effect: \<open>at w k\<close> is the object stored under the key \<open>k\<close> (group,
  kind, namespace, name) in the state \<open>w\<close>.  A successful \<open>Create\<close> or \<open>Update\<close> stores an object
  with the labels it was given (the server may fill in other fields), a failed one changes
  nothing, and reads and status patches change no object.
\<close>

type_synonym objkey = "string \<times> string \<times> string \<times> string"

definition obj_key :: "Unstructured \<Rightarrow> objkey" where
  "obj_key u = (Group (u_GVK u), Kind (u_GVK u), u_Namespace u, u_Name u)"

locale kube_store = kube_client K for K :: "'w kube" +
  fixes at :: "'w \<Rightarrow> objkey \<Rightarrow> Unstructured option"
  assumes create_ok: "k_create K u w = (Inr (), w') \<Longrightarrow>
      \<exists>v. at w' = (at w)(obj_key u \<mapsto> v) \<and> u_Labels v = u_Labels u"
    and create_err: "k_create K u w = (Inl e, w') \<Longrightarrow> at w' = at w"
    and updateObj_ok: "k_updateObj K u w = (Inr (), w') \<Longrightarrow>
      \<exists>v. at w' = (at w)(obj_key u \<mapsto> v) \<and> u_Labels v = u_Labels u"
    and updateObj_err: "k_updateObj K u w = (Inl e, w') \<Longrightarrow> at w' = at w"
    and getNs_frame: "at (snd (k_getNs K n w)) = at w"
    and getObj_frame: "at (snd (k_getObj K gvk m n w)) = at w"
    and listObj_frame: "at (snd (k_listObj K gvk n key val w)) = at w"
    and discover_frame: "at (snd (k_discover K w)) = at w"
    and getClass_frame: "at (snd (k_getClass K nn w)) = at w"
    and patchStatus_frame: "at (snd (k_patchStatus K base nc w)) = at w"

end
