(* ===== verification/Kube_Memory.thy ===== *)
theory Kube_Memory imports Kube_Api begin

text \<open>
  An in-memory cluster: one concrete value of the parameter \<open>K\<close>, on which the witnesses of the
  development run and which shows that the laws of the client can hold together.  It stands for
  no code of the repository.  Objects are kept in lists; two objects are the same when group,
  kind, namespace and name agree.  A namespace class whose last finalizer is removed while it is
  being deleted disappears.  The raw content of a resource is read as
  \<open>group/version/kind/name\<close>.
\<close>

record cluster =
  cl_Namespaces :: "Namespace list"
  cl_Classes :: "NamespaceClass list"
  cl_Objects :: "Unstructured list"
  cl_Discovery :: "APIResourceList list"
  cl_Clock :: Time

definition not_found :: go_error where
  "not_found = EExternal ''NotFound''"

definition find_or :: "('a \<Rightarrow> bool) \<Rightarrow> 'a list \<Rightarrow> go_error + 'a" where
  "find_or p xs = (case find p xs of None \<Rightarrow> Inl not_found | Some x \<Rightarrow> Inr x)"

definition has_key :: "objkey \<Rightarrow> Unstructured \<Rightarrow> bool" where
  "has_key k = (\<lambda>u. obj_key u = k)"

definition mem_at :: "cluster \<Rightarrow> objkey \<Rightarrow> Unstructured option" where
  "mem_at c k = find (has_key k) (cl_Objects c)"

definition mem_getClass :: "NamespacedName \<Rightarrow> cluster \<Rightarrow> (go_error + NamespaceClass) \<times> cluster" where
  "mem_getClass key c = (find_or (\<lambda>x. nc_Name x = nn_Name key) (cl_Classes c), c)"

definition mem_getNs :: "string \<Rightarrow> cluster \<Rightarrow> (go_error + Namespace) \<times> cluster" where
  "mem_getNs n c = (find_or (\<lambda>x. ns_Name x = n) (cl_Namespaces c), c)"

definition mem_getObj :: "GroupVersionKind \<Rightarrow> string \<Rightarrow> string \<Rightarrow> cluster \<Rightarrow> (go_error + Unstructured) \<times> cluster" where
  "mem_getObj gvk ns n c = (find_or (has_key (Group gvk, Kind gvk, ns, n)) (cl_Objects c), c)"

text \<open>The namespaces by name: of two with the same name the first counts.\<close>

primrec firsts :: "Namespace list \<Rightarrow> Namespace list" where
  "firsts [] = []"
| "firsts (x # xs) = x # filter (\<lambda>y. ns_Name y \<noteq> ns_Name x) (firsts xs)"

definition mem_listNs :: "string \<Rightarrow> string \<Rightarrow> cluster \<Rightarrow> (go_error + Namespace list) \<times> cluster" where
  "mem_listNs key val c = (Inr (filter (\<lambda>x. has_label (ns_Labels x) key val) (firsts (cl_Namespaces c))), c)"

text \<open>A list of kind \<open>K\<close> or \<open>KList\<close> holds the objects of kind \<open>K\<close>.\<close>

definition list_of_kind :: "GroupVersionKind \<Rightarrow> GroupVersionKind \<Rightarrow> bool" where
  "list_of_kind lk gvk \<longleftrightarrow> Group lk = Group gvk \<and> (Kind lk = Kind gvk \<or> Kind lk = Kind gvk @ ''List'')"

definition mem_listObj ::
  "GroupVersionKind \<Rightarrow> string \<Rightarrow> string \<Rightarrow> string \<Rightarrow> cluster \<Rightarrow> (go_error + Unstructured list) \<times> cluster" where
  "mem_listObj gvk ns key val c =
     (Inr (filter (\<lambda>u. list_of_kind gvk (u_GVK u) \<and> u_Namespace u = ns \<and> has_label (u_Labels u) key val)
        (cl_Objects c)), c)"

definition mem_create :: "Unstructured \<Rightarrow> cluster \<Rightarrow> (go_error + unit) \<times> cluster" where
  "mem_create u c =
     (if mem_at c (obj_key u) \<noteq> None then (Inl (EExternal ''AlreadyExists''), c)
      else (Inr (), c\<lparr>cl_Objects := u # cl_Objects c\<rparr>))"

definition mem_updateObj :: "Unstructured \<Rightarrow> cluster \<Rightarrow> (go_error + unit) \<times> cluster" where
  "mem_updateObj u c =
     (if mem_at c (obj_key u) = None then (Inl not_found, c)
      else (Inr (), c\<lparr>cl_Objects := u # filter (\<lambda>v. \<not> has_key (obj_key u) v) (cl_Objects c)\<rparr>))"

definition mem_delete :: "Unstructured \<Rightarrow> cluster \<Rightarrow> (go_error + unit) \<times> cluster" where
  "mem_delete u c =
     (if mem_at c (obj_key u) = None then (Inl not_found, c)
      else (Inr (), c\<lparr>cl_Objects := filter (\<lambda>v. \<not> has_key (obj_key u) v) (cl_Objects c)\<rparr>))"

definition mem_updateNs :: "Namespace \<Rightarrow> cluster \<Rightarrow> (go_error + unit) \<times> cluster" where
  "mem_updateNs ns c =
     (if (\<exists>x\<in>set (cl_Namespaces c). ns_Name x = ns_Name ns)
      then (Inr (), c\<lparr>cl_Namespaces := map (\<lambda>x. if ns_Name x = ns_Name ns then ns else x) (cl_Namespaces c)\<rparr>)
      else (Inl not_found, c))"

definition mem_putClass :: "NamespaceClass \<Rightarrow> NamespaceClass list \<Rightarrow> NamespaceClass list" where
  "mem_putClass nc cs =
     (if nc_DeletionTimestamp nc \<noteq> None \<and> nc_Finalizers nc = [] then filter (\<lambda>x. nc_Name x \<noteq> nc_Name nc) cs
      else map (\<lambda>x. if nc_Name x = nc_Name nc then nc else x) cs)"

definition mem_updateClass :: "NamespaceClass \<Rightarrow> cluster \<Rightarrow> (go_error + unit) \<times> cluster" where
  "mem_updateClass nc c =
     (if (\<exists>x\<in>set (cl_Classes c). nc_Name x = nc_Name nc)
      then (Inr (), c\<lparr>cl_Classes := mem_putClass nc (cl_Classes c)\<rparr>)
      else (Inl not_found, c))"

definition mem_patchStatus :: "NamespaceClass \<Rightarrow> NamespaceClass \<Rightarrow> cluster \<Rightarrow> (go_error + unit) \<times> cluster" where
  "mem_patchStatus base nc c =
     (if (\<exists>x\<in>set (cl_Classes c). nc_Name x = nc_Name nc)
      then (Inr (), c\<lparr>cl_Classes := map (\<lambda>x. if nc_Name x = nc_Name nc then x\<lparr>Status := Status nc\<rparr> else x) (cl_Classes c)\<rparr>)
      else (Inl not_found, c))"

definition mem_parseGV :: "string \<Rightarrow> go_error + GroupVersion" where
  "mem_parseGV s = (case split_on CHR ''/'' s of
       [v] \<Rightarrow> Inr \<lparr>gv_Group = [], gv_Version = v\<rparr>
     | [g, v] \<Rightarrow> Inr \<lparr>gv_Group = g, gv_Version = v\<rparr>
     | _ \<Rightarrow> Inl (EExternal ''unexpected GroupVersion string''))"

definition mem_decode :: "string \<Rightarrow> go_error + Unstructured" where
  "mem_decode s = (case split_on CHR ''/'' s of
       [g, v, k, n] \<Rightarrow> Inr (zero_Unstructured\<lparr>u_GVK := \<lparr>Group = g, Version = v, Kind = k\<rparr>, u_Name := n\<rparr>)
     | _ \<Rightarrow> Inl (EExternal ''invalid character''))"

definition mem_setCondition :: "Condition list \<Rightarrow> Condition \<Rightarrow> Condition list" where
  "mem_setCondition cs c = c # filter (\<lambda>d. co_Type d \<noteq> co_Type c) cs"

definition mem_kube :: "cluster kube" where
  "mem_kube =
     \<lparr>k_getClass = mem_getClass, k_getNs = mem_getNs, k_getObj = mem_getObj, k_listNs = mem_listNs,
      k_listObj = mem_listObj, k_create = mem_create, k_updateObj = mem_updateObj,
      k_delete = mem_delete, k_updateNs = mem_updateNs, k_updateClass = mem_updateClass,
      k_patchStatus = mem_patchStatus, k_discover = (\<lambda>c. ((cl_Discovery c, None), c)),
      k_watch = (\<lambda>n gvk c. (Inr (), c)), k_manage = (\<lambda>n c. (Inr (), c)), k_now = cl_Clock,
      IsNotFound = (\<lambda>e. e = not_found), ParseGroupVersion = mem_parseGV, Unmarshal = mem_decode,
      ToUnstructured = (\<lambda>ob. case ob of RuntimeObject s \<Rightarrow> mem_decode s),
      SetStatusCondition = mem_setCondition\<rparr>"

lemmas mem_defs =
  mem_getClass_def mem_getNs_def mem_getObj_def mem_listNs_def mem_listObj_def mem_create_def
  mem_updateObj_def mem_delete_def mem_updateNs_def mem_putClass_def mem_updateClass_def
  mem_patchStatus_def mem_parseGV_def mem_decode_def mem_setCondition_def mem_at_def
  find_or_def has_key_def obj_key_def list_of_kind_def has_label_def

lemma find_or_Inr: "find_or p xs = Inr x \<Longrightarrow> p x"
  by (auto simp: find_or_def find_Some_iff split: option.splits)

lemma find_key_filter:
  "find (has_key k) (filter (\<lambda>v. obj_key v \<noteq> k') xs) = (if k = k' then None else find (has_key k) xs)"
  by (induction xs) (auto simp: has_key_def)

interpretation mem: kube_store mem_kube mem_at
proof
  fix u and w w' :: cluster
  assume "k_create mem_kube u w = (Inr (), w')"
  then show "\<exists>v. mem_at w' = (mem_at w)(obj_key u \<mapsto> v) \<and> u_Labels v = u_Labels u"
    by (intro exI [of _ u])
      (auto simp: mem_kube_def mem_create_def mem_at_def has_key_def fun_eq_iff split: if_splits)
next
  fix u and w w' :: cluster
  assume "k_updateObj mem_kube u w = (Inr (), w')"
  then show "\<exists>v. mem_at w' = (mem_at w)(obj_key u \<mapsto> v) \<and> u_Labels v = u_Labels u"
    by (intro exI [of _ u])
      (auto simp: mem_kube_def mem_updateObj_def mem_at_def find_key_filter [unfolded has_key_def] fun_eq_iff has_key_def
        split: if_splits)
qed (auto simp: mem_kube_def mem_defs find_Some_iff split: option.splits if_splits)

text \<open>A sample cluster: two classes, one namespace labelled with the second of them.\<close>

definition sample_namespace :: Namespace where
  "sample_namespace =
     \<lparr>ns_Name = ''web-portal'', ns_ResourceVersion = ''1'', ns_DeletionTimestamp = None,
      ns_Labels = Some [NamespaceClassLabel \<mapsto> ''public-network''], ns_Annotations = None,
      ns_Other = []\<rparr>"

definition sample_class :: "string \<Rightarrow> string list \<Rightarrow> NamespaceClass" where
  "sample_class n raws = zero_NamespaceClass\<lparr>nc_Name := n, nc_Generation := 1,
     Spec := \<lparr>Resources = map (\<lambda>r. \<lparr>Raw = r, Object = None\<rparr>) raws\<rparr>\<rparr>"

definition sample_discovery :: "APIResourceList list" where
  "sample_discovery =
     [\<lparr>rl_GroupVersion = ''v1'', APIResources =
         [\<lparr>ar_Name = ''configmaps'', ar_Kind = ''ConfigMap'', Namespaced = True, Verbs = [''list'', ''watch'']\<rparr>,
          \<lparr>ar_Name = ''nodes'', ar_Kind = ''Node'', Namespaced = False, Verbs = [''list'', ''watch'']\<rparr>]\<rparr>]"

definition sample_cluster :: cluster where
  "sample_cluster =
     \<lparr>cl_Namespaces = [sample_namespace],
      cl_Classes = [sample_class ''internal-network'' [''/v1/ConfigMap/internal-config''],
                    sample_class ''public-network'' [''/v1/ConfigMap/public-config'']],
      cl_Objects = [], cl_Discovery = sample_discovery, cl_Clock = 7\<rparr>"

text \<open>The same after the namespace was in the class \<open>internal-network\<close>: its label has changed since.\<close>

definition sample_switching :: Namespace where
  "sample_switching = sample_namespace\<lparr>ns_Annotations :=
     Some [LastAppliedClassAnnotation \<mapsto> ''internal-network'', CurrentClassAnnotation \<mapsto> ''internal-network'']\<rparr>"

definition sample_object :: Unstructured where
  "sample_object = zero_Unstructured\<lparr>u_GVK := \<lparr>Group = [], Version = ''v1'', Kind = ''ConfigMap''\<rparr>,
     u_Namespace := ''web-portal'', u_Name := ''internal-config'',
     u_Labels := Some [NamespaceClassOwner \<mapsto> ''internal-network'']\<rparr>"

definition switching_cluster :: cluster where
  "switching_cluster = sample_cluster\<lparr>cl_Namespaces := [sample_switching], cl_Objects := [sample_object]\<rparr>"

text \<open>A cluster whose discovery is down.\<close>

definition blind_kube :: "cluster kube" where
  "blind_kube = mem_kube\<lparr>k_discover := (\<lambda>c. (([], Some (EExternal ''timeout'')), c))\<rparr>"

lemmas sample_defs = sample_namespace_def sample_class_def sample_discovery_def sample_cluster_def
  sample_switching_def sample_object_def switching_cluster_def

end
