(* ===== verification/Discovery.thy ===== *)
theory Discovery imports Kube_Memory begin

text \<open>
  Discovery of the API's resource types: \<open>getServerPreferredResources\<close> and
  \<open>shouldWatchResource\<close> of \<open>namespaceclass_resource_watcher.go\<close>,
  \<open>getPreferredVersionForResource\<close> of \<open>namespaceclass_resources.go\<close>, and the interface that the
  nested loops over the discovered lists share (\<open>discovery_walk\<close>).
\<close>

definition getServerPreferredResources :: "'w kube \<Rightarrow> ('w, APIResourceList list) prog" where
  "getServerPreferredResources K =
     bindG (ServerPreferredResources K) (\<lambda>(resourceLists, err).
       case err of
         None \<Rightarrow> returnG resourceLists
       | Some e \<Rightarrow>
           (case e of
              EGroupDiscoveryFailed groups \<Rightarrow>
                if resourceLists = [] then failG (EMsg ''failed to discover any API resources'')
                else returnG resourceLists
            | _ \<Rightarrow> failG (EWrap ''failed to get server resources'' e)))"

definition shouldWatchResource :: "APIResource \<Rightarrow> bool" where
  "shouldWatchResource r =
     (if \<not> Namespaced r then False
      else if ''watch'' \<notin> set (Verbs r) then False
      else if CHR ''/'' \<in> set (ar_Name r) then False
      else True)"

text \<open>The loop of \<open>getPreferredVersionForResource\<close> over the discovered lists.\<close>

primrec preferredVersions :: "'w kube \<Rightarrow> string \<Rightarrow> string \<Rightarrow> APIResourceList list \<Rightarrow> string list" where
  "preferredVersions K grp kind [] = []"
| "preferredVersions K grp kind (rl # rls) =
     (if APIResources rl = [] then preferredVersions K grp kind rls
      else (case ParseGroupVersion K (rl_GroupVersion rl) of
              Inl _ \<Rightarrow> preferredVersions K grp kind rls
            | Inr gv \<Rightarrow>
                if gv_Group gv \<noteq> grp then preferredVersions K grp kind rls
                else if (\<exists>res\<in>set (APIResources rl). ar_Kind res = kind)
                then gv_Version gv # preferredVersions K grp kind rls
                else preferredVersions K grp kind rls))"

definition getPreferredVersionForResource :: "'w kube \<Rightarrow> string \<Rightarrow> string \<Rightarrow> ('w, string list) prog" where
  "getPreferredVersionForResource K grp kind =
     bindG (ServerPreferredResources K) (\<lambda>(resourceLists, err).
     bindG (case err of
              None \<Rightarrow> returnG ()
            | Some e \<Rightarrow>
                (case e of
                   EGroupDiscoveryFailed groups \<Rightarrow>
                     if resourceLists = [] then failG (EMsg ''no resources discovered'') else returnG ()
                 | _ \<Rightarrow> failG e)) (\<lambda>_.
     returnG (preferredVersions K grp kind resourceLists)))"

section \<open>Reading discovery changes nothing\<close>

lemma safe_getServerPreferredResources [safe_intro]:
  "(\<And>h' rls e. ext h h' \<Longrightarrow> P h' (EvDiscover rls e)) \<Longrightarrow> safe P h (getServerPreferredResources K)"
  unfolding getServerPreferredResources_def
  by (auto intro!: safe_intro split: option.split go_error.split)

lemma safe_getPreferredVersionForResource [safe_intro]:
  "(\<And>h' rls e. ext h h' \<Longrightarrow> P h' (EvDiscover rls e)) \<Longrightarrow> safe P h (getPreferredVersionForResource K grp kind)"
  unfolding getPreferredVersionForResource_def
  by (auto intro!: safe_intro split: option.split go_error.split)

section \<open>The nested loops over the discovered lists\<close>

text \<open>
  The resource types a loop visits: in the lists that are not empty and whose group/version
  parses, the resources that pass the loop's filter, in order.
\<close>

definition picked ::
  "'w kube \<Rightarrow> (APIResource \<Rightarrow> bool) \<Rightarrow> APIResourceList list \<Rightarrow> (GroupVersion \<times> APIResource) list" where
  "picked K pick rls = concat (map (\<lambda>rl.
     if APIResources rl = [] then []
     else (case ParseGroupVersion K (rl_GroupVersion rl) of
             Inl _ \<Rightarrow> []
           | Inr gv \<Rightarrow> map (Pair gv) (filter pick (APIResources rl)))) rls)"

lemma in_picked:
  "(gv, r) \<in> set (picked K pick rls) \<longleftrightarrow>
    (\<exists>rl\<in>set rls. ParseGroupVersion K (rl_GroupVersion rl) = Inr gv \<and> r \<in> set (APIResources rl) \<and> pick r)"
proof (induction rls)
  case Nil
  show ?case by (simp add: picked_def)
next
  case (Cons rl rls)
  have "picked K pick (rl # rls) = picked K pick [rl] @ picked K pick rls"
    by (simp add: picked_def)
  moreover have "(gv, r) \<in> set (picked K pick [rl]) \<longleftrightarrow>
      ParseGroupVersion K (rl_GroupVersion rl) = Inr gv \<and> r \<in> set (APIResources rl) \<and> pick r"
    by (cases "ParseGroupVersion K (rl_GroupVersion rl)") (auto simp: picked_def)
  ultimately show ?case using Cons.IH by auto
qed

text \<open>
  A loop over the lists (\<open>walk\<close>) around a loop over the resources of one list (\<open>walkGV\<close>), which
  appends what \<open>visit\<close> finds for each resource that passes \<open>pick\<close>.  Whatever is shown here of
  such a pair of loops holds of every pair the controller has.
\<close>

locale discovery_walk =
  fixes K :: "'w kube"
    and pick :: "APIResource \<Rightarrow> bool"
    and visit :: "GroupVersion \<Rightarrow> APIResource \<Rightarrow> ('w, 'a list) prog"
    and walkGV :: "GroupVersion \<Rightarrow> APIResource list \<Rightarrow> ('w, 'a list) prog"
    and walk :: "APIResourceList list \<Rightarrow> ('w, 'a list) prog"
  assumes walkGV_Nil: "walkGV gv [] = returnG []"
    and walkGV_skip: "\<not> pick r \<Longrightarrow> walkGV gv (r # rs) = walkGV gv rs"
    and walkGV_visit: "pick r \<Longrightarrow> walkGV gv (r # rs) =
        bindG (visit gv r) (\<lambda>ys. bindG (walkGV gv rs) (\<lambda>zs. returnG (ys @ zs)))"
    and walk_Nil: "walk [] = returnG []"
    and walk_skip: "APIResources rl = [] \<or> ParseGroupVersion K (rl_GroupVersion rl) = Inl e \<Longrightarrow>
        walk (rl # rls) = walk rls"
    and walk_list: "APIResources rl \<noteq> [] \<Longrightarrow> ParseGroupVersion K (rl_GroupVersion rl) = Inr gv \<Longrightarrow>
        walk (rl # rls) =
        bindG (walkGV gv (APIResources rl)) (\<lambda>ys. bindG (walk rls) (\<lambda>zs. returnG (ys @ zs)))"
begin

lemma walkGV_flat: "walkGV gv rs = concatMapG (\<lambda>(gv, r). visit gv r) (map (Pair gv) (filter pick rs))"
proof (induction rs)
  case Nil
  show ?case by (simp add: walkGV_Nil)
next
  case (Cons r rs)
  then show ?case by (cases "pick r") (simp_all add: walkGV_skip walkGV_visit)
qed

text \<open>The two nested loops are one loop over the picked types.\<close>

lemma walk_flat: "walk rls = concatMapG (\<lambda>(gv, r). visit gv r) (picked K pick rls)"
proof (induction rls)
  case Nil
  show ?case by (simp add: walk_Nil picked_def)
next
  case (Cons rl rls)
  show ?case
  proof (cases "APIResources rl = []")
    case True
    with Cons show ?thesis by (simp add: walk_skip picked_def)
  next
    case False
    with Cons show ?thesis
      by (cases "ParseGroupVersion K (rl_GroupVersion rl)")
        (simp_all add: walk_skip walk_list walkGV_flat concatMap_append picked_def)
  qed
qed

lemma walk_safe:
  assumes "\<And>gv r t. pick r \<Longrightarrow> safe P (h @ t) (visit gv r)"
  shows "safe P h (walk rls)"
  unfolding walk_flat using assms by (fastforce intro!: safe_concatMap simp: in_picked)

lemma walk_yields:
  assumes "yields (walk rls) ys t" and "y \<in> set ys"
  obtains gv r zs t1 t2 t3 where "(gv, r) \<in> set (picked K pick rls)" "yields (visit gv r) zs t2"
    "y \<in> set zs" "t = t1 @ t2 @ t3"
  using yields_concatMapD [OF assms(1) [unfolded walk_flat] assms(2)] by fastforce

end

section \<open>The version used to delete an object\<close>

lemma preferredVersions_set:
  "v \<in> set (preferredVersions K grp kind rls) \<longleftrightarrow>
    (\<exists>rl\<in>set rls. ParseGroupVersion K (rl_GroupVersion rl) = Inr \<lparr>gv_Group = grp, gv_Version = v\<rparr> \<and>
      (\<exists>r\<in>set (APIResources rl). ar_Kind r = kind))"
proof (induction rls)
  case (Cons rl rls)
  show ?case
  proof (cases "ParseGroupVersion K (rl_GroupVersion rl)")
    case (Inr gv)
    with Cons show ?thesis by (cases gv) auto
  qed (use Cons in auto)
qed simp

lemma discover_run: "ServerPreferredResources K w = (Ok (rls, err), t, w') \<longleftrightarrow>
    k_discover K w = ((rls, err), w') \<and> t = [EvDiscover rls err]"
  unfolding ServerPreferredResources_def by (cases "k_discover K w"; cases "fst (k_discover K w)") auto

lemma yields_getPreferredVersionForResource:
  assumes "yields (getPreferredVersionForResource K grp kind) vs t"
  obtains rls e where "t = [EvDiscover rls e]" "vs = preferredVersions K grp kind rls"
  using assms unfolding getPreferredVersionForResource_def
  by (auto dest!: yields_bindD simp: yields_simp split: option.splits go_error.splits if_splits)
    (auto simp: yields_def discover_run)

section \<open>Properties\<close>

text \<open>
  Partial discovery is tolerated.  One discovery call is made; its lists are returned when it had no
  error or only failed for some groups while finding at least one list; every other error, and a
  partial one that found nothing, is an error.
\<close>

theorem getServerPreferredResources_partial:
  "case k_discover K w of ((rls, err), w') \<Rightarrow>
     trace_of (getServerPreferredResources K) w = [EvDiscover rls err] \<and>
     (if err = None \<or> (\<exists>groups. err = Some (EGroupDiscoveryFailed groups)) \<and> rls \<noteq> []
      then result_of (getServerPreferredResources K) w = Ok rls
      else \<exists>e. result_of (getServerPreferredResources K) w = Err e)"
proof -
  obtain rls err w' where run: "k_discover K w = ((rls, err), w')" by (metis prod.collapse)
  show ?thesis
  proof (cases err)
    case None
    with run show ?thesis
      by (simp add: getServerPreferredResources_def ServerPreferredResources_def go_defs)
  next
    case (Some e)
    with run show ?thesis
      by (cases e) (simp_all add: getServerPreferredResources_def ServerPreferredResources_def go_defs)
  qed
qed

text \<open>The versions that one discovered list offers for a group and kind.\<close>

definition offers :: "'w kube \<Rightarrow> string \<Rightarrow> string \<Rightarrow> APIResourceList \<Rightarrow> string option" where
  "offers K grp kind rl =
     (case ParseGroupVersion K (rl_GroupVersion rl) of
        Inl _ \<Rightarrow> None
      | Inr gv \<Rightarrow>
          if gv_Group gv = grp \<and> kind \<in> ar_Kind ` set (APIResources rl) then Some (gv_Version gv) else None)"

lemma preferredVersions_filter: "preferredVersions K grp kind rls = List.map_filter (offers K grp kind) rls"
  by (induction rls) (auto simp: offers_def map_filter_simps split: sum.split)

text \<open>
  The versions for a group and kind are those of the discovered lists of that group that have the kind, each
  list once, in the order of discovery; so the version used for a deletion, the first one, is
  served for that group and kind.
\<close>

theorem getPreferredVersionForResource_versions:
  assumes "k_discover K w = ((rls, err), w')"
    and "err = None \<or> (\<exists>groups. err = Some (EGroupDiscoveryFailed groups)) \<and> rls \<noteq> []"
  shows "getPreferredVersionForResource K grp kind w =
      (Ok (List.map_filter (offers K grp kind) rls), [EvDiscover rls err], w')"
  using assms
  by (auto simp: getPreferredVersionForResource_def ServerPreferredResources_def preferredVersions_filter go_defs)

lemma getPreferredVersionForResource_versions_witness:
  "getPreferredVersionForResource mem_kube '''' ''ConfigMap'' sample_cluster =
      (Ok (List.map_filter (offers mem_kube '''' ''ConfigMap'') sample_discovery),
       [EvDiscover sample_discovery None], sample_cluster) \<and>
   List.map_filter (offers mem_kube '''' ''ConfigMap'') sample_discovery = [''v1'']"
proof (rule conjI)
  show "getPreferredVersionForResource mem_kube '''' ''ConfigMap'' sample_cluster =
      (Ok (List.map_filter (offers mem_kube '''' ''ConfigMap'') sample_discovery),
       [EvDiscover sample_discovery None], sample_cluster)"
    by (rule getPreferredVersionForResource_versions) (simp_all add: mem_kube_def sample_cluster_def)
  show "List.map_filter (offers mem_kube '''' ''ConfigMap'') sample_discovery = [''v1'']"
    by code_simp
qed

end
