(* ===== verification/Labelled_Resources.thy ===== *)
theory Labelled_Resources imports Discovery begin

text \<open>
  The two ways the controller finds the objects that carry the owner label of a class in a
  namespace: as objects (\<open>listResourcesWithLabel\<close> of \<open>namespaceclass_finalizer.go\<close>) and as
  strings \<open>group/kind/name\<close> (\<open>getCurrentNamespaceClassResources\<close> of
  \<open>namespaceclass_resources.go\<close>), and the deletion of all of them
  (\<open>cleanupAllNamespaceClassResources\<close> of \<open>namespaceclass_controller.go\<close>).
  Both are nested loops over discovery, so both interpret \<open>discovery_walk\<close>.
\<close>

section \<open>Objects with a label\<close>

definition listResourcesOfType ::
  "'w kube \<Rightarrow> string \<Rightarrow> string \<Rightarrow> string \<Rightarrow> GroupVersion \<Rightarrow> APIResource \<Rightarrow> ('w, Unstructured list) prog" where
  "listResourcesOfType K n key val gv r =
     bindG (tryG (listObj K \<lparr>Group = gv_Group gv, Version = gv_Version gv, Kind = ar_Kind r @ ''List''\<rparr> n key val))
       (\<lambda>a. case a of Inl _ \<Rightarrow> returnG [] | Inr items \<Rightarrow> returnG items)"

definition labelledInGV ::
  "'w kube \<Rightarrow> string \<Rightarrow> string \<Rightarrow> string \<Rightarrow> GroupVersion \<Rightarrow> APIResource list \<Rightarrow> ('w, Unstructured list) prog" where
  "labelledInGV K n key val gv rs =
     concatMapG (\<lambda>r. if \<not> shouldWatchResource r then returnG [] else listResourcesOfType K n key val gv r) rs"

definition labelledInLists ::
  "'w kube \<Rightarrow> string \<Rightarrow> string \<Rightarrow> string \<Rightarrow> APIResourceList list \<Rightarrow> ('w, Unstructured list) prog" where
  "labelledInLists K n key val rls =
     concatMapG (\<lambda>rl.
       if APIResources rl = [] then returnG []
       else (case ParseGroupVersion K (rl_GroupVersion rl) of
               Inl _ \<Rightarrow> returnG []
             | Inr gv \<Rightarrow> labelledInGV K n key val gv (APIResources rl))) rls"

definition listResourcesWithLabel ::
  "'w kube \<Rightarrow> string \<Rightarrow> string \<Rightarrow> string \<Rightarrow> ('w, Unstructured list) prog" where
  "listResourcesWithLabel K n key val =
     bindG (tryG (getServerPreferredResources K)) (\<lambda>a.
       case a of
         Inl _ \<Rightarrow> returnG []
       | Inr resourceLists \<Rightarrow> labelledInLists K n key val resourceLists)"

definition cleanupAllNamespaceClassResources ::
  "'w kube \<Rightarrow> Namespace \<Rightarrow> string \<Rightarrow> ('w, unit) prog" where
  "cleanupAllNamespaceClassResources K ns className =
     bindG (listResourcesWithLabel K (ns_Name ns) NamespaceClassOwner className) (\<lambda>resources.
     forG (\<lambda>res. bindG (tryG (deleteObj K res)) (\<lambda>_. returnG ())) resources)"

section \<open>Identifiers of managed resources\<close>

definition resourceID :: "GroupVersionKind \<Rightarrow> string \<Rightarrow> string" where
  "resourceID gvk n = Group gvk @ ''/'' @ Kind gvk @ ''/'' @ n"

definition listManagedResourcesOfKind ::
  "'w kube \<Rightarrow> Namespace \<Rightarrow> NamespaceClass \<Rightarrow> GroupVersionKind \<Rightarrow> ('w, string list) prog" where
  "listManagedResourcesOfKind K ns nc gvk =
     bindG (tryG (listObj K gvk (ns_Name ns) NamespaceClassOwner (nc_Name nc))) (\<lambda>a.
       case a of
         Inl _ \<Rightarrow> returnG []
       | Inr items \<Rightarrow> returnG (map (\<lambda>item. resourceID gvk (u_Name item)) items))"

definition gvkOf :: "GroupVersion \<Rightarrow> APIResource \<Rightarrow> GroupVersionKind" where
  "gvkOf gv r = \<lparr>Group = gv_Group gv, Version = gv_Version gv, Kind = ar_Kind r\<rparr>"

definition listable :: "APIResource \<Rightarrow> bool" where
  "listable r \<longleftrightarrow> Namespaced r \<and> ''list'' \<in> set (Verbs r)"

definition findManagedResourcesForGV ::
  "'w kube \<Rightarrow> Namespace \<Rightarrow> NamespaceClass \<Rightarrow> GroupVersion \<Rightarrow> APIResource list \<Rightarrow> ('w, string list) prog" where
  "findManagedResourcesForGV K ns nc gv rs =
     concatMapG (\<lambda>r. if \<not> listable r then returnG [] else listManagedResourcesOfKind K ns nc (gvkOf gv r)) rs"

definition managedInLists ::
  "'w kube \<Rightarrow> Namespace \<Rightarrow> NamespaceClass \<Rightarrow> APIResourceList list \<Rightarrow> ('w, string list) prog" where
  "managedInLists K ns nc rls =
     concatMapG (\<lambda>rl.
       if APIResources rl = [] then returnG []
       else (case ParseGroupVersion K (rl_GroupVersion rl) of
               Inl _ \<Rightarrow> returnG []
             | Inr gv \<Rightarrow> findManagedResourcesForGV K ns nc gv (APIResources rl))) rls"

definition getCurrentNamespaceClassResources ::
  "'w kube \<Rightarrow> Namespace \<Rightarrow> NamespaceClass \<Rightarrow> ('w, string list) prog" where
  "getCurrentNamespaceClassResources K ns nc =
     bindG (wrapG ''failed to get server resources'' (getServerPreferredResources K)) (\<lambda>resources.
     managedInLists K ns nc resources)"

definition getResourcesWithOwner :: "'w kube \<Rightarrow> Namespace \<Rightarrow> string \<Rightarrow> ('w, string list) prog" where
  "getResourcesWithOwner K ns className =
     getCurrentNamespaceClassResources K ns (zero_NamespaceClass\<lparr>nc_Name := className\<rparr>)"

section \<open>Both are walks over discovery\<close>

interpretation labelled: discovery_walk K shouldWatchResource "listResourcesOfType K n key val"
    "labelledInGV K n key val" "labelledInLists K n key val"
  for K :: "'w kube" and n key val
  by unfold_locales (auto simp: labelledInGV_def labelledInLists_def)

interpretation managed: discovery_walk K listable "\<lambda>gv r. listManagedResourcesOfKind K ns nc (gvkOf gv r)"
    "findManagedResourcesForGV K ns nc" "managedInLists K ns nc"
  for K :: "'w kube" and ns nc
  by unfold_locales (auto simp: findManagedResourcesForGV_def managedInLists_def)

section \<open>Listing reads only; the cleanup deletes what was listed\<close>

lemma safe_listResourcesWithLabel [safe_intro]:
  assumes "\<And>h' rls e. ext h h' \<Longrightarrow> P h' (EvDiscover rls e)"
    and "\<And>h' gvk a. ext h h' \<Longrightarrow> P h' (EvListObj gvk n key val a)"
  shows "safe P h (listResourcesWithLabel K n key val)"
  unfolding listResourcesWithLabel_def
  by (intro safe_intro labelled.walk_safe) (auto simp: listResourcesOfType_def intro!: assms safe_intro)

lemma safe_getCurrentNamespaceClassResources [safe_intro]:
  assumes "\<And>h' rls e. ext h h' \<Longrightarrow> P h' (EvDiscover rls e)"
    and "\<And>h' gvk a. ext h h' \<Longrightarrow> P h' (EvListObj gvk (ns_Name ns) NamespaceClassOwner (nc_Name nc) a)"
  shows "safe P h (getCurrentNamespaceClassResources K ns nc)"
  unfolding getCurrentNamespaceClassResources_def
  by (intro safe_intro managed.walk_safe) (auto simp: listManagedResourcesOfKind_def intro!: assms safe_intro)

lemma safe_getResourcesWithOwner [safe_intro]:
  assumes "\<And>h' rls e. ext h h' \<Longrightarrow> P h' (EvDiscover rls e)"
    and "\<And>h' gvk a. ext h h' \<Longrightarrow> P h' (EvListObj gvk (ns_Name ns) NamespaceClassOwner className a)"
  shows "safe P h (getResourcesWithOwner K ns className)"
  unfolding getResourcesWithOwner_def by (intro safe_intro) (auto intro: assms)

text \<open>
  What has been listed in a history: the objects, and the identifiers made of them, that some
  \<open>List\<close> call answered for the namespace \<open>n\<close> and the owner label \<open>c\<close>.
\<close>

definition listed :: "event list \<Rightarrow> string \<Rightarrow> string \<Rightarrow> Unstructured \<Rightarrow> bool" where
  "listed h n c u \<longleftrightarrow> (\<exists>gvk us. EvListObj gvk n NamespaceClassOwner c (Inr us) \<in> set h \<and> u \<in> set us)"

definition listedID :: "event list \<Rightarrow> string \<Rightarrow> string \<Rightarrow> string \<Rightarrow> bool" where
  "listedID h n c i \<longleftrightarrow> (\<exists>gvk us u. EvListObj gvk n NamespaceClassOwner c (Inr us) \<in> set h \<and>
     u \<in> set us \<and> i = resourceID gvk (u_Name u))"

lemma listed_ext: "ext h h' \<Longrightarrow> listed h n c u \<Longrightarrow> listed h' n c u"
  unfolding listed_def using ext_set by fast

lemma listedID_ext: "ext h h' \<Longrightarrow> listedID h n c i \<Longrightarrow> listedID h' n c i"
  unfolding listedID_def using ext_set by fast

lemma listResourcesWithLabel_listed:
  assumes "yields (listResourcesWithLabel K n NamespaceClassOwner c) us t" and "u \<in> set us" and "ext (h @ t) h'"
  shows "listed h' n c u"
proof (rule listed_ext [OF assms(3)])
  from assms(1,2) obtain rls t0 t1 where t1: "t = t0 @ t1"
    "yields (labelledInLists K n NamespaceClassOwner c rls) us t1"
    unfolding listResourcesWithLabel_def
    by (auto dest!: yields_bindD simp: yields_simp split: sum.splits)
  obtain gv r zs s1 s2 s3 where "yields (listResourcesOfType K n NamespaceClassOwner c gv r) zs s2"
    "u \<in> set zs" "t1 = s1 @ s2 @ s3"
    using t1(2) assms(2) by (rule labelled.walk_yields)
  with t1(1) show "listed (h @ t) n c u"
    unfolding listResourcesOfType_def listed_def
    by (fastforce dest!: yields_bindD simp: yields_simp split: sum.splits)
qed

lemma getResourcesWithOwner_listed:
  assumes "yields (getResourcesWithOwner K ns c) ids t" and "i \<in> set ids" and "ext (h @ t) h'"
  shows "listedID h' (ns_Name ns) c i"
proof (rule listedID_ext [OF assms(3)])
  from assms(1,2) obtain rls t0 t1 where t1: "t = t0 @ t1"
    "yields (managedInLists K ns (zero_NamespaceClass\<lparr>nc_Name := c\<rparr>) rls) ids t1"
    unfolding getResourcesWithOwner_def getCurrentNamespaceClassResources_def
    by (auto dest!: yields_bindD)
  obtain gv r zs s1 s2 s3 where
    "yields (listManagedResourcesOfKind K ns (zero_NamespaceClass\<lparr>nc_Name := c\<rparr>) (gvkOf gv r)) zs s2"
    "i \<in> set zs" "t1 = s1 @ s2 @ s3"
    using t1(2) assms(2) by (rule managed.walk_yields)
  with t1(1) show "listedID (h @ t) (ns_Name ns) c i"
    unfolding listManagedResourcesOfKind_def listedID_def
    by (fastforce dest!: yields_bindD simp: yields_simp split: sum.splits)
qed

text \<open>With the client's contract, every object found is in the namespace and carries the label.\<close>

lemma listResourcesWithLabel_found:
  assumes "kube_client K" and "yields (listResourcesWithLabel K n key val) us t" and "u \<in> set us"
  shows "u_Namespace u = n \<and> has_label (u_Labels u) key val"
proof -
  from assms(2,3) obtain rls t1 where "yields (labelledInLists K n key val rls) us t1"
    unfolding listResourcesWithLabel_def
    by (auto dest!: yields_bindD simp: yields_simp split: sum.splits)
  then obtain gv r zs s1 s2 s3 where
    "yields (listResourcesOfType K n key val gv r) zs s2" "u \<in> set zs" "t1 = s1 @ s2 @ s3"
    using assms(3) by (rule labelled.walk_yields)
  then obtain gvk s where "yields (listObj K gvk n key val) zs s"
    unfolding listResourcesOfType_def by (fastforce dest!: yields_bindD simp: yields_simp split: sum.splits)
  then show ?thesis
    using kube_client.yields_listObj_label [OF assms(1)] \<open>u \<in> set zs\<close> by blast
qed

lemma safe_cleanupAll [safe_intro]:
  assumes "\<And>h' rls e. ext h h' \<Longrightarrow> P h' (EvDiscover rls e)"
    and "\<And>h' gvk a. ext h h' \<Longrightarrow> P h' (EvListObj gvk (ns_Name ns) NamespaceClassOwner c a)"
    and "\<And>h' u a. ext h h' \<Longrightarrow> listed h' (ns_Name ns) c u \<Longrightarrow> P h' (EvDelete u a)"
  shows "safe P h (cleanupAllNamespaceClassResources K ns c)"
  unfolding cleanupAllNamespaceClassResources_def
  by (intro safe_intro)
    (auto intro!: assms intro: listed_ext listResourcesWithLabel_listed [where h = h])

text \<open>A failed deletion does not stop the cleanup, and the cleanup never reports an error.\<close>

lemma forG_try_Ok: "\<exists>t w'. forG (\<lambda>x. bindG (tryG (m x)) (\<lambda>_. returnG ())) xs w = (Ok (), t, w') \<or>
    (\<exists>p. forG (\<lambda>x. bindG (tryG (m x)) (\<lambda>_. returnG ())) xs w = (Panic p, t, w'))"
proof (induction xs arbitrary: w)
  case Nil
  show ?case by (simp add: returnG_def)
next
  case (Cons x xs)
  obtain r t w' where "m x w = (r, t, w')" by (cases "m x w")
  then show ?case
    using Cons.IH [of w'] by (cases r) (auto simp: go_defs)
qed

lemma resourceID_parts:
  assumes "CHR ''/'' \<notin> set (Group gvk)" and "CHR ''/'' \<notin> set (Kind gvk)" and "CHR ''/'' \<notin> set n"
  shows "split_on CHR ''/'' (resourceID gvk n) = [Group gvk, Kind gvk, n]"
  using assms by (simp add: resourceID_def split_on_append split_on_plain)

text \<open>In general the third part is the name up to its first slash.\<close>

lemma resourceID_parts_general:
  assumes "CHR ''/'' \<notin> set (Group gvk)" and "CHR ''/'' \<notin> set (Kind gvk)"
  shows "split_on CHR ''/'' (resourceID gvk n) = Group gvk # Kind gvk # split_on CHR ''/'' n"
  using assms by (simp add: resourceID_def split_on_append)

section \<open>What a listing finds\<close>

text \<open>The call an event of a listing stands for, and the objects it answered.\<close>

fun listRequest :: "event \<Rightarrow> (GroupVersionKind \<times> string \<times> string \<times> string) option" where
  "listRequest (EvListObj gvk n key val a) = Some (gvk, n, key, val)"
| "listRequest _ = None"

fun listAnswer :: "event \<Rightarrow> (GroupVersionKind \<times> Unstructured) list" where
  "listAnswer (EvListObj gvk n key val (Inr us)) = map (Pair gvk) us"
| "listAnswer _ = []"

lemma concatMap_single_event:
  assumes "\<And>x w. x \<in> set xs \<Longrightarrow> \<exists>e w'. f x w = (Ok (g e), [e], w') \<and> q e = r x"
  shows "\<exists>t w'. concatMapG f xs w = (Ok (concat (map g t)), t, w') \<and> map q t = map r xs"
  using assms
proof (induction xs arbitrary: w)
  case Nil
  show ?case by (simp add: returnG_def)
next
  case (Cons x xs)
  obtain e w1 where x: "f x w = (Ok (g e), [e], w1)" "q e = r x"
    using Cons.prems [of x w] by auto
  obtain t w2 where xs: "concatMapG f xs w1 = (Ok (concat (map g t)), t, w2)" "map q t = map r xs"
    using Cons.IH [of w1] Cons.prems by auto
  from x xs show ?case
    by (intro exI [of _ "e # t"] exI [of _ w2]) (simp add: bindG_def returnG_def)
qed

lemma listResourcesOfType_event:
  "\<exists>e w'. listResourcesOfType K n key val gv r w = (Ok (map snd (listAnswer e)), [e], w') \<and>
     listRequest e = Some (\<lparr>Group = gv_Group gv, Version = gv_Version gv, Kind = ar_Kind r @ ''List''\<rparr>, n, key, val)"
  unfolding listResourcesOfType_def listObj_def go_defs
  by (auto split: prod.split sum.split simp: comp_def)

lemma listManagedResourcesOfKind_event:
  "\<exists>e w'. listManagedResourcesOfKind K ns nc gvk w =
      (Ok (map (\<lambda>(g, u). resourceID g (u_Name u)) (listAnswer e)), [e], w') \<and>
     listRequest e = Some (gvk, ns_Name ns, NamespaceClassOwner, nc_Name nc)"
  unfolding listManagedResourcesOfKind_def listObj_def go_defs
  by (auto split: prod.split sum.split simp: comp_def)

lemma listResourcesWithLabel_run:
  assumes "getServerPreferredResources K w = (Ok rls, t0, w1)"
  shows "\<exists>t w'. listResourcesWithLabel K n key val w =
      (Ok (concat (map (\<lambda>e. map snd (listAnswer e)) t)), t0 @ t, w') \<and>
    map listRequest t = map (\<lambda>(gv, r).
      Some (\<lparr>Group = gv_Group gv, Version = gv_Version gv, Kind = ar_Kind r @ ''List''\<rparr>, n, key, val))
      (picked K shouldWatchResource rls)"
proof -
  let ?q = "\<lambda>(gv, r). Some (\<lparr>Group = gv_Group gv, Version = gv_Version gv, Kind = ar_Kind r @ ''List''\<rparr>, n, key, val)"
  have "\<exists>t w'. concatMapG (\<lambda>(gv, r). listResourcesOfType K n key val gv r) (picked K shouldWatchResource rls) w1 =
        (Ok (concat (map (\<lambda>e. map snd (listAnswer e)) t)), t, w') \<and>
      map listRequest t = map ?q (picked K shouldWatchResource rls)"
    by (rule concatMap_single_event) (use listResourcesOfType_event in \<open>fastforce split: prod.split\<close>)
  then show ?thesis
    using assms by (auto simp: listResourcesWithLabel_def labelled.walk_flat go_defs)
qed

text \<open>
  C27: \<open>listResourcesWithLabel\<close> misses nothing that discovery and the list calls answer: with the
  resource lists \<open>rls\<close> discovered, it asks exactly once for every watchable resource type of
  every list that parses, in order, and returns exactly the objects of the answers, in order; a
  list call that fails contributes nothing and stops nothing, so the function always returns.
\<close>

theorem listResourcesWithLabel_complete:
  assumes "getServerPreferredResources K w = (Ok rls, t0, w1)"
  shows "\<exists>t w'. listResourcesWithLabel K n key val w =
      (Ok (concat (map (\<lambda>e. map snd (listAnswer e)) t)), t0 @ t, w') \<and>
    map listRequest t = map (\<lambda>(gv, r).
      Some (\<lparr>Group = gv_Group gv, Version = gv_Version gv, Kind = ar_Kind r @ ''List''\<rparr>, n, key, val))
      (picked K shouldWatchResource rls)"
  using assms by (rule listResourcesWithLabel_run)

lemma listResourcesWithLabel_complete_witness:
  "\<exists>t w'. listResourcesWithLabel mem_kube ''web-portal'' NamespaceClassOwner ''public-network'' sample_cluster =
      (Ok (concat (map (\<lambda>e. map snd (listAnswer e)) t)), [EvDiscover sample_discovery None] @ t, w') \<and>
    map listRequest t = map (\<lambda>(gv, r).
      Some (\<lparr>Group = gv_Group gv, Version = gv_Version gv, Kind = ar_Kind r @ ''List''\<rparr>,
        ''web-portal'', NamespaceClassOwner, ''public-network''))
      (picked mem_kube shouldWatchResource sample_discovery)"
  by (rule listResourcesWithLabel_complete [where w = sample_cluster and ?w1.0 = sample_cluster])
    (simp add: getServerPreferredResources_def ServerPreferredResources_def go_defs mem_kube_def sample_cluster_def)

lemma getResourcesWithOwner_run:
  "case getServerPreferredResources K w of
     (Ok rls, t0, w1) \<Rightarrow>
       (\<exists>t w'. getResourcesWithOwner K ns c w =
          (Ok (concat (map (\<lambda>e. map (\<lambda>(g, u). resourceID g (u_Name u)) (listAnswer e)) t)), t0 @ t, w') \<and>
        map listRequest t = map (\<lambda>(gv, r). Some (gvkOf gv r, ns_Name ns, NamespaceClassOwner, c)) (picked K listable rls))
   | (Err e, t0, w1) \<Rightarrow> getResourcesWithOwner K ns c w = (Err (EWrap ''failed to get server resources'' e), t0, w1)
   | (Panic p, t0, w1) \<Rightarrow> False"
proof (cases "getServerPreferredResources K w")
  case (fields r t0 w1)
  let ?nc = "zero_NamespaceClass\<lparr>nc_Name := c\<rparr>"
  show ?thesis
  proof (cases r)
    case (Ok rls)
    have "\<exists>t w'. concatMapG (\<lambda>(gv, r). listManagedResourcesOfKind K ns ?nc (gvkOf gv r)) (picked K listable rls) w1 =
          (Ok (concat (map (\<lambda>e. map (\<lambda>(g, u). resourceID g (u_Name u)) (listAnswer e)) t)), t, w') \<and>
        map listRequest t = map (\<lambda>(gv, r). Some (gvkOf gv r, ns_Name ns, NamespaceClassOwner, c)) (picked K listable rls)"
      by (rule concatMap_single_event)
        (use listManagedResourcesOfKind_event [of K ns ?nc] in \<open>fastforce split: prod.split\<close>)
    then show ?thesis
      using fields Ok
      by (auto simp: getResourcesWithOwner_def getCurrentNamespaceClassResources_def managed.walk_flat go_defs)
  next
    case (Panic p)
    have "safe (\<lambda>_ _. True) [] (getServerPreferredResources K)" by (rule safe_getServerPreferredResources) simp
    with fields Panic show ?thesis by (auto dest: safe_run)
  qed (use fields in \<open>simp add: getResourcesWithOwner_def getCurrentNamespaceClassResources_def go_defs\<close>)
qed


text \<open>
  \<open>getResourcesWithOwner\<close> asks once for every namespaced, listable resource type and returns an
  identifier \<open>group/kind/name\<close> for each object answered; unlike \<open>listResourcesWithLabel\<close> it fails
  when discovery fails.
\<close>

theorem getResourcesWithOwner_complete:
  "case getServerPreferredResources K w of
     (Ok rls, t0, w1) \<Rightarrow>
       (\<exists>t w'. getResourcesWithOwner K ns c w =
          (Ok (concat (map (\<lambda>e. map (\<lambda>(g, u). resourceID g (u_Name u)) (listAnswer e)) t)), t0 @ t, w') \<and>
        map listRequest t = map (\<lambda>(gv, r). Some (gvkOf gv r, ns_Name ns, NamespaceClassOwner, c)) (picked K listable rls))
   | (Err e, t0, w1) \<Rightarrow> getResourcesWithOwner K ns c w = (Err (EWrap ''failed to get server resources'' e), t0, w1)
   | (Panic p, t0, w1) \<Rightarrow> False"
  by (rule getResourcesWithOwner_run)

text \<open>
  Every object \<open>listResourcesWithLabel\<close> returns lies in the namespace asked for and carries the
  label value asked for, so neither cleanup can reach an object of another namespace or owner.
\<close>

theorem listResourcesWithLabel_sound:
  assumes "kube_client K" and "listResourcesWithLabel K n key val w = (Ok us, t, w')"
  shows "\<forall>u\<in>set us. u_Namespace u = n \<and> has_label (u_Labels u) key val"
proof -
  have "yields (listResourcesWithLabel K n key val) us t" using assms(2) by (auto simp: yields_def)
  with assms(1) show ?thesis using listResourcesWithLabel_found by blast
qed

lemma listResourcesWithLabel_sound_witness:
  "u_Namespace sample_object = ''web-portal'' \<and> has_label (u_Labels sample_object) NamespaceClassOwner ''internal-network''"
proof -
  have "\<exists>t w'. listResourcesWithLabel mem_kube ''web-portal'' NamespaceClassOwner ''internal-network'' switching_cluster =
      (Ok [sample_object], t, w')"
    by (simp add: mem_kube_def mem_defs sample_defs listResourcesWithLabel_def labelledInLists_def
      labelledInGV_def listResourcesOfType_def listObj_def getServerPreferredResources_def
      ServerPreferredResources_def go_defs shouldWatchResource_def zero_Unstructured_def)
  then show ?thesis
    by (auto dest!: listResourcesWithLabel_sound [OF mem.kube_client_axioms])
qed

end
