(* ===== verification/Class_Resources.thy ===== *)
theory Class_Resources imports Labelled_Resources begin

text \<open>
  Applying the resources of a class to a namespace and removing those of a previous class:
  \<open>namespaceclass_resources.go\<close>.
\<close>

section \<open>Converting a resource\<close>

definition convertRawToUnstructured :: "'w kube \<Rightarrow> RawExtension \<Rightarrow> go_error + Unstructured" where
  "convertRawToUnstructured K raw =
     (case Object raw of
        Some ob \<Rightarrow>
          (case ToUnstructured K ob of
             Inl e \<Rightarrow> Inl (EWrap ''failed to convert object to unstructured'' e)
           | Inr u \<Rightarrow> Inr u)
      | None \<Rightarrow>
          if length (Raw raw) > 0 then
            (case Unmarshal K (Raw raw) of
               Inl e \<Rightarrow> Inl (EWrap ''failed to unmarshal raw content to unstructured'' e)
             | Inr u \<Rightarrow>
                 if u_Name u = '''' then Inl (EMsg ''resource is missing required 'metadata.name' field'')
                 else if Kind (u_GVK u) = '''' then Inl (EMsg ''resource is missing required 'kind' field'')
                 else Inr u)
          else Inl (EMsg ''raw extension contains no object data (both Object and Raw are nil/empty)''))"

section \<open>Applying a resource\<close>

definition prepareResourceForNamespace ::
  "Unstructured \<Rightarrow> Namespace \<Rightarrow> NamespaceClass \<Rightarrow> ('w, Unstructured) prog" where
  "prepareResourceForNamespace obj ns nc =
     (let obj1 = obj\<lparr>u_Namespace := ns_Name ns\<rparr>; labels = map_make (u_Labels obj1) in
      bindG (mapWriteG labels NamespaceClassOwner (nc_Name nc)) (\<lambda>labels'.
      returnG (obj1\<lparr>u_Labels := labels'\<rparr>)))"

definition updateUnstructuredResource :: "'w kube \<Rightarrow> Unstructured \<Rightarrow> Unstructured \<Rightarrow> ('w, unit) prog" where
  "updateUnstructuredResource K newObj existingObj =
     wrapG ''failed to update resource''
       (updateObj K (newObj\<lparr>u_ResourceVersion := u_ResourceVersion existingObj\<rparr>))"

definition applyUnstructuredResource :: "'w kube \<Rightarrow> Unstructured \<Rightarrow> ('w, unit) prog" where
  "applyUnstructuredResource K obj =
     bindG (tryG (getObj K (u_GVK obj) (u_Namespace obj) (u_Name obj))) (\<lambda>a.
       case a of
         Inr existingObj \<Rightarrow> updateUnstructuredResource K obj existingObj
       | Inl err \<Rightarrow>
           if \<not> IsNotFound K err then failG (EWrap ''error checking if resource exists'' err)
           else wrapG ''failed to create resource'' (createObj K obj))"

definition applyResourceToNamespace ::
  "'w kube \<Rightarrow> Namespace \<Rightarrow> NamespaceClass \<Rightarrow> RawExtension \<Rightarrow> ('w, unit) prog" where
  "applyResourceToNamespace K ns nc res =
     bindG (wrapG (''failed to convert resource for namespace '' @ ns_Name ns)
              (liftE (convertRawToUnstructured K res))) (\<lambda>u.
     bindG (prepareResourceForNamespace u ns nc) (\<lambda>u'.
     wrapG (''failed to apply resource '' @ Kind (u_GVK u) @ ''/'' @ u_Name u @ '' to namespace '' @ ns_Name ns)
       (applyUnstructuredResource K u')))"

section \<open>Deleting by kind and name\<close>

definition deleteResourceByKindAndName ::
  "'w kube \<Rightarrow> string \<Rightarrow> string \<Rightarrow> string \<Rightarrow> string \<Rightarrow> ('w, unit) prog" where
  "deleteResourceByKindAndName K namespace kind name grp =
     bindG (if grp \<noteq> '''' then
              bindG (tryG (getPreferredVersionForResource K grp kind)) (\<lambda>a.
                case a of
                  Inl _ \<Rightarrow> returnG ''v1''
                | Inr versions \<Rightarrow> if length versions > 0 then indexG versions 0 else returnG ''v1'')
            else returnG ''v1'') (\<lambda>preferredVersion.
     bindG (tryG (deleteObj K
              (zero_Unstructured\<lparr>u_GVK := \<lparr>Group = grp, Version = preferredVersion, Kind = kind\<rparr>,
                 u_Namespace := namespace, u_Name := name\<rparr>))) (\<lambda>a.
       case a of
         Inl err \<Rightarrow>
           if \<not> IsNotFound K err then failG (EWrap (''failed to delete '' @ kind @ ''/'' @ name) err)
           else returnG ()
       | Inr _ \<Rightarrow> returnG ()))"

section \<open>Leaving a class\<close>

definition resourceKey :: "string \<Rightarrow> string \<Rightarrow> string" where
  "resourceKey kind name = kind @ ''/'' @ name"

text \<open>The map \<open>currentResourceMap\<close>: the keys of the resources of the class that convert.\<close>

primrec resourceMap :: "'w kube \<Rightarrow> RawExtension list \<Rightarrow> (string \<Rightarrow> bool) \<Rightarrow> (string \<Rightarrow> bool)" where
  "resourceMap K [] m = m"
| "resourceMap K (res # rest) m =
     (case convertRawToUnstructured K res of
        Inl _ \<Rightarrow> resourceMap K rest m
      | Inr obj \<Rightarrow> resourceMap K rest (m(resourceKey (Kind (u_GVK obj)) (u_Name obj) := True)))"

text \<open>The body of the deletion loop.\<close>

definition cleanupResource :: "'w kube \<Rightarrow> Namespace \<Rightarrow> (string \<Rightarrow> bool) \<Rightarrow> string \<Rightarrow> ('w, unit) prog" where
  "cleanupResource K ns currentResourceMap res =
     (let parts = split_on CHR ''/'' res in
      if length parts < 3 then returnG ()
      else
        bindG (indexG parts 1) (\<lambda>kind.
        bindG (indexG parts 2) (\<lambda>name.
        if currentResourceMap (resourceKey kind name) then returnG ()
        else bindG (indexG parts 0) (\<lambda>grp.
             bindG (tryG (deleteResourceByKindAndName K (ns_Name ns) kind name grp)) (\<lambda>_. returnG ())))))"

definition cleanupPreviousNamespaceClassResources ::
  "'w kube \<Rightarrow> Namespace \<Rightarrow> string \<Rightarrow> string \<Rightarrow> ('w, unit) prog" where
  "cleanupPreviousNamespaceClassResources K ns previousClassName currentClassName =
     bindG (tryG (getClass K (byName previousClassName))) (\<lambda>a.
       case a of
         Inl err \<Rightarrow>
           if IsNotFound K err then cleanupAllNamespaceClassResources K ns previousClassName
           else failG (EWrap (''failed to get previous NamespaceClass '' @ previousClassName) err)
       | Inr previousClass \<Rightarrow>
           bindG (wrapG ''failed to list resources for previous class''
                    (getResourcesWithOwner K ns previousClassName)) (\<lambda>prevResources.
           bindG (wrapG (''failed to get current NamespaceClass '' @ currentClassName)
                    (getClass K (byName currentClassName))) (\<lambda>currentClass.
           let currentResourceMap = resourceMap K (Resources (Spec currentClass)) (\<lambda>_. False) in
           forG (cleanupResource K ns currentResourceMap) prevResources)))"

section \<open>What applying emits\<close>

text \<open>The object sent to the API server for a resource of a class.\<close>

definition owned_by :: "string \<Rightarrow> string \<Rightarrow> Unstructured \<Rightarrow> bool" where
  "owned_by n c u \<longleftrightarrow> u_Namespace u = n \<and> has_label (u_Labels u) NamespaceClassOwner c"

lemma yields_prepare:
  "yields (prepareResourceForNamespace u ns nc) u' t \<Longrightarrow>
     owned_by (ns_Name ns) (nc_Name nc) u' \<and> u_GVK u' = u_GVK u \<and> u_Name u' = u_Name u \<and> t = []"
  by (auto simp: prepareResourceForNamespace_def yields_simp owned_by_def has_label_def dest!: yields_bindD)

lemma owned_by_version [simp]: "owned_by n c (u\<lparr>u_ResourceVersion := v\<rparr>) = owned_by n c u"
  by (simp add: owned_by_def)

lemma safe_prepare [safe_intro]: "safe P h (prepareResourceForNamespace u ns nc)"
  unfolding prepareResourceForNamespace_def by (intro safe_intro) simp

lemma safe_applyUnstructuredResource [safe_intro]:
  assumes "\<And>h' gvk n m a. ext h h' \<Longrightarrow> P h' (EvGetObj gvk n m a)"
    and "\<And>t v e. list_all is_getObj t \<Longrightarrow> applied e = Some u \<or> applied e = Some (u\<lparr>u_ResourceVersion := v\<rparr>) \<Longrightarrow>
           P (h @ t) e"
  shows "safe P h (applyUnstructuredResource K u)"
  unfolding applyUnstructuredResource_def updateUnstructuredResource_def
proof (intro safe_intro, goal_cases)
  case (2 a t x v)
  then show ?case by (intro assms(2)) (auto simp: yields_simp)
next
  case (3 a t x v)
  then show ?case by (intro assms(2) [where v = "u_ResourceVersion x"]) (auto simp: yields_simp)
qed (auto intro!: assms(1))

lemma safe_applyResourceToNamespace [safe_intro]:
  assumes "\<And>h' gvk n m a. ext h h' \<Longrightarrow> P h' (EvGetObj gvk n m a)"
    and "\<And>t u e. list_all is_getObj t \<Longrightarrow> owned_by (ns_Name ns) (nc_Name nc) u \<Longrightarrow> applied e = Some u \<Longrightarrow>
           P (h @ t) e"
  shows "safe P h (applyResourceToNamespace K ns nc res)"
  unfolding applyResourceToNamespace_def
proof (intro safe_intro, goal_cases)
  case (1 x t u s h' gvk n m a)
  then show ?case by (intro assms(1)) auto
next
  case (2 x t u s t' v e)
  then have "t = []" "s = []" and "owned_by (ns_Name ns) (nc_Name nc) u"
    by (auto simp: yields_simp dest!: yields_prepare)
  with 2 show ?case
    using assms(2) [of t' u e] assms(2) [of t' "u\<lparr>u_ResourceVersion := v\<rparr>" e] by auto
qed

section \<open>What cleaning up emits\<close>

lemma resourceMap_iff:
  "resourceMap K rs m k \<longleftrightarrow> m k \<or>
    (\<exists>res\<in>set rs. \<exists>u. convertRawToUnstructured K res = Inr u \<and> k = resourceKey (Kind (u_GVK u)) (u_Name u))"
proof (induction rs arbitrary: m)
  case (Cons res rs)
  then show ?case by (cases "convertRawToUnstructured K res") auto
qed simp

lemma safe_deleteResourceByKindAndName [safe_intro]:
  assumes "\<And>h' rls e. ext h h' \<Longrightarrow> P h' (EvDiscover rls e)"
    and "\<And>h' u a. ext h h' \<Longrightarrow> Group (u_GVK u) = grp \<Longrightarrow> Kind (u_GVK u) = kind \<Longrightarrow>
           u_Namespace u = n \<Longrightarrow> u_Name u = name \<Longrightarrow> P h' (EvDelete u a)"
  shows "safe P h (deleteResourceByKindAndName K n kind name grp)"
  unfolding deleteResourceByKindAndName_def by (intro safe_intro) (auto intro!: assms)

text \<open>An object that an identifier \<open>group/kind/name\<close> stands for.\<close>

definition idOf :: "string \<Rightarrow> Unstructured \<Rightarrow> bool" where
  "idOf i u \<longleftrightarrow> take 3 (split_on CHR ''/'' i) = [Group (u_GVK u), Kind (u_GVK u), u_Name u]"

lemma three_parts: "\<not> length xs < 3 \<Longrightarrow> \<exists>a b c ds. xs = a # b # c # ds"
  by (metis One_nat_def Suc_le_length_iff linorder_not_less numeral_3_eq_3)

lemma safe_cleanupResource [safe_intro]:
  assumes "\<And>h' rls e. ext h h' \<Longrightarrow> P h' (EvDiscover rls e)"
    and "\<And>h' u a. ext h h' \<Longrightarrow> idOf i u \<Longrightarrow> \<not> keep (resourceKey (Kind (u_GVK u)) (u_Name u)) \<Longrightarrow>
           u_Namespace u = ns_Name ns \<Longrightarrow> P h' (EvDelete u a)"
  shows "safe P h (cleanupResource K ns keep i)"
proof (cases "length (split_on CHR ''/'' i) < 3")
  case True
  then show ?thesis by (simp add: cleanupResource_def safe_intro)
next
  case False
  then obtain grp kind name rest where "split_on CHR ''/'' i = grp # kind # name # rest"
    using three_parts by blast
  then show ?thesis
    by (simp add: cleanupResource_def indexG_def)
      (intro conjI impI safe_intro; auto intro!: assms simp: idOf_def)
qed

text \<open>
  What a deletion of the cleanup may rest on, in the history before it: either the previous class
  was not found and the object itself was listed under its label, or the object's
  identifier was listed under that label and the new class was read and has no resource of the
  object's kind and name.
\<close>

definition in_class :: "'w kube \<Rightarrow> NamespaceClass \<Rightarrow> string \<Rightarrow> string \<Rightarrow> bool" where
  "in_class K c kind name \<longleftrightarrow> (\<exists>res\<in>set (Resources (Spec c)). \<exists>v. convertRawToUnstructured K res = Inr v \<and>
     resourceKey (Kind (u_GVK v)) (u_Name v) = resourceKey kind name)"

definition dropped :: "'w kube \<Rightarrow> event list \<Rightarrow> string \<Rightarrow> string \<Rightarrow> string \<Rightarrow> Unstructured \<Rightarrow> bool" where
  "dropped K h n prev cur u \<longleftrightarrow>
     (\<exists>i. listedID h n prev i \<and> idOf i u) \<and> u_Namespace u = n \<and>
     (\<exists>c. EvGetClass (byName cur) (Inr c) \<in> set h \<and> \<not> in_class K c (Kind (u_GVK u)) (u_Name u))"

definition orphaned :: "'w kube \<Rightarrow> event list \<Rightarrow> string \<Rightarrow> string \<Rightarrow> Unstructured \<Rightarrow> bool" where
  "orphaned K h n prev u \<longleftrightarrow> listed h n prev u \<and>
     (\<exists>e. EvGetClass (byName prev) (Inl e) \<in> set h \<and> IsNotFound K e)"

lemma resourceMap_in_class:
  "resourceMap K (Resources (Spec c)) (\<lambda>_. False) (resourceKey kind name) \<longleftrightarrow> in_class K c kind name"
  by (simp add: resourceMap_iff in_class_def eq_commute [of "resourceKey kind name"])

lemma safe_cleanupPrevious [safe_intro]:
  assumes "\<And>h' key a. ext h h' \<Longrightarrow> P h' (EvGetClass key a)"
    and "\<And>h' rls e. ext h h' \<Longrightarrow> P h' (EvDiscover rls e)"
    and "\<And>h' gvk a. ext h h' \<Longrightarrow> P h' (EvListObj gvk (ns_Name ns) NamespaceClassOwner prev a)"
    and "\<And>h' u a. ext h h' \<Longrightarrow> dropped K h' (ns_Name ns) prev cur u \<Longrightarrow> P h' (EvDelete u a)"
    and "\<And>h' u a. ext h h' \<Longrightarrow> orphaned K h' (ns_Name ns) prev u \<Longrightarrow> P h' (EvDelete u a)"
  shows "safe P h (cleanupPreviousNamespaceClassResources K ns prev cur)"
proof -
  have all: "safe P (h @ t) (cleanupAllNamespaceClassResources K ns prev)"
    if "yields (tryG (getClass K (byName prev))) (Inl err) t" and "IsNotFound K err" for t err
  proof (rule safe_cleanupAll)
    fix h' u a
    assume "ext (h @ t) h'" and "listed h' (ns_Name ns) prev u"
    with that show "P h' (EvDelete u a)"
      by (intro assms(5)) (auto simp: orphaned_def yields_simp dest: ext_snocD)
  qed (auto intro!: assms)
  have loop: "safe P (((h @ t) @ t') @ t'') (forG (cleanupResource K ns (resourceMap K (Resources (Spec c)) (\<lambda>_. False))) ids)"
    if ids: "yields (getResourcesWithOwner K ns prev) ids t'" and c: "yields (getClass K (byName cur)) c t''"
    for t t' t'' c ids
  proof (intro safe_for safe_cleanupResource)
    fix i s h' u a
    assume i: "i \<in> set ids" and h': "ext ((((h @ t) @ t') @ t'') @ s) h'"
      and u: "idOf i u" "\<not> resourceMap K (Resources (Spec c)) (\<lambda>_. False) (resourceKey (Kind (u_GVK u)) (u_Name u))"
        "u_Namespace u = ns_Name ns"
    have "listedID h' (ns_Name ns) prev i"
      using h' by (intro getResourcesWithOwner_listed [OF ids i, of "h @ t"]) (blast dest: ext_appendD)
    moreover have "EvGetClass (byName cur) (Inr c) \<in> set h'"
      using h' c by (auto simp: yields_simp intro: ext_set)
    ultimately show "P h' (EvDelete u a)"
      using h' u by (intro assms(4)) (auto simp: dropped_def resourceMap_in_class)
  qed (auto intro!: assms)
  show ?thesis
    unfolding cleanupPreviousNamespaceClassResources_def Let_def
    by (intro safe_bind safe_try safe_wrap safe_getClass safe_getResourcesWithOwner safe_case_sum safe_if
        safe_fail all loop) (auto intro!: assms simp: yields_simp)
qed

section \<open>Properties\<close>

text \<open>The object a class's resource becomes in a namespace.\<close>

definition prepared :: "Unstructured \<Rightarrow> string \<Rightarrow> string \<Rightarrow> Unstructured" where
  "prepared u n c = u\<lparr>u_Namespace := n,
     u_Labels := Some ((case u_Labels u of None \<Rightarrow> Map.empty | Some f \<Rightarrow> f)(NamespaceClassOwner \<mapsto> c))\<rparr>"

lemma prepare_eq: "prepareResourceForNamespace u ns nc = returnG (prepared u (ns_Name ns) (nc_Name nc))"
  by (simp add: prepareResourceForNamespace_def prepared_def mapWriteG_def map_make_def Let_def split: option.split)

lemma prepared_simps [simp]:
  "u_GVK (prepared u n c) = u_GVK u" "u_Name (prepared u n c) = u_Name u" "u_Namespace (prepared u n c) = n"
  by (simp_all add: prepared_def)

lemma prepared_owned [simp]: "owned_by n c (prepared u n c)"
  by (simp add: prepared_def owned_by_def has_label_def)

text \<open>
  C21: what applying one resource of a class does, on every branch.  A resource that does not
  convert is an error without a call.  Otherwise the object is the converted one with the
  namespace and the owner label set; it is read, and then updated under the resource version
  read when it exists, created when it does not, and left alone when the read fails; the
  result is a success exactly when that last write was.
\<close>

theorem applyResourceToNamespace_run:
  "case convertRawToUnstructured K res of
     Inl e \<Rightarrow> applyResourceToNamespace K ns nc res w =
       (Err (EWrap (''failed to convert resource for namespace '' @ ns_Name ns) e), [], w)
   | Inr u \<Rightarrow>
       let p = prepared u (ns_Name ns) (nc_Name nc);
           get = EvGetObj (u_GVK u) (ns_Name ns) (u_Name u);
           t = trace_of (applyResourceToNamespace K ns nc res) w;
           ok = (result_of (applyResourceToNamespace K ns nc res) w = Ok ()) in
       (\<exists>ex a. t = [get (Inr ex), EvUpdateObj (p\<lparr>u_ResourceVersion := u_ResourceVersion ex\<rparr>) a] \<and> (ok \<longleftrightarrow> a = Inr ())) \<or>
       (\<exists>e a. IsNotFound K e \<and> t = [get (Inl e), EvCreate p a] \<and> (ok \<longleftrightarrow> a = Inr ())) \<or>
       (\<exists>e. \<not> IsNotFound K e \<and> t = [get (Inl e)] \<and> \<not> ok)"
proof (cases "convertRawToUnstructured K res")
  case (Inl e)
  then show ?thesis by (simp add: applyResourceToNamespace_def go_defs)
next
  case (Inr u)
  let ?p = "prepared u (ns_Name ns) (nc_Name nc)"
  obtain a w1 where get: "k_getObj K (u_GVK u) (ns_Name ns) (u_Name u) w = (a, w1)"
    by (cases "k_getObj K (u_GVK u) (ns_Name ns) (u_Name u) w")
  show ?thesis
  proof (cases a)
    case (Inl e)
    obtain b w2 where "k_create K ?p w1 = (b, w2)" by (cases "k_create K ?p w1")
    with Inr Inl get show ?thesis
      by (cases b) (auto simp: applyResourceToNamespace_def applyUnstructuredResource_def prepare_eq
        getObj_def createObj_def go_defs)
  next
    case (Inr ex)
    let ?q = "?p\<lparr>u_ResourceVersion := u_ResourceVersion ex\<rparr>"
    obtain b w2 where "k_updateObj K ?q w1 = (b, w2)" by (cases "k_updateObj K ?q w1")
    with Inr \<open>convertRawToUnstructured K res = Inr u\<close> get show ?thesis
      by (cases b) (auto simp: applyResourceToNamespace_def applyUnstructuredResource_def
        updateUnstructuredResource_def prepare_eq getObj_def updateObj_def go_defs)
  qed
qed

lemma deleteResource_events:
  "\<exists>d v a. trace_of (deleteResourceByKindAndName K n kind name grp) w =
      d @ [EvDelete (zero_Unstructured\<lparr>u_GVK := \<lparr>Group = grp, Version = v, Kind = kind\<rparr>,
             u_Namespace := n, u_Name := name\<rparr>) a] \<and>
    (if grp = '''' then d = [] \<and> v = ''v1''
     else \<exists>rls err. d = [EvDiscover rls err] \<and>
       v = (case result_of (getPreferredVersionForResource K grp kind) w of Ok (v # _) \<Rightarrow> v | _ \<Rightarrow> ''v1'')) \<and>
    (result_of (deleteResourceByKindAndName K n kind name grp) w = Ok () \<longleftrightarrow>
       a = Inr () \<or> (\<exists>e. a = Inl e \<and> IsNotFound K e))"
proof -
  let ?obj = "\<lambda>v. zero_Unstructured\<lparr>u_GVK := \<lparr>Group = grp, Version = v, Kind = kind\<rparr>, u_Namespace := n, u_Name := name\<rparr>"
  define del where "del = (\<lambda>v. bindG (tryG (deleteObj K (?obj v))) (\<lambda>a. case a of
      Inl err \<Rightarrow> if \<not> IsNotFound K err then failG (EWrap (''failed to delete '' @ kind @ ''/'' @ name) err) else returnG ()
    | Inr _ \<Rightarrow> returnG ()))"
  have del: "\<exists>a. trace_of (del v) w = [EvDelete (?obj v) a] \<and>
      (result_of (del v) w = Ok () \<longleftrightarrow> a = Inr () \<or> (\<exists>e. a = Inl e \<and> IsNotFound K e))" for v w
    by (cases "k_delete K (?obj v) w"; cases "fst (k_delete K (?obj v) w)") (auto simp: del_def deleteObj_def go_defs)
  show ?thesis
  proof (cases "grp = ''''")
    case True
    then have "deleteResourceByKindAndName K n kind name grp = del ''v1''"
      by (simp add: deleteResourceByKindAndName_def del_def)
    moreover obtain a where "trace_of (del ''v1'') w = [EvDelete (?obj ''v1'') a]"
      "result_of (del ''v1'') w = Ok () \<longleftrightarrow> a = Inr () \<or> (\<exists>e. a = Inl e \<and> IsNotFound K e)"
      using del by blast
    ultimately show ?thesis
      using True by (intro exI [of _ "[]"] exI [of _ "''v1''"] exI [of _ a]) simp
  next
    case False
    obtain r d w1 where run: "getPreferredVersionForResource K grp kind w = (r, d, w1)"
      by (cases "getPreferredVersionForResource K grp kind w")
    define v where "v = (case r of Ok (v # _) \<Rightarrow> v | _ \<Rightarrow> ''v1'')"
    have d: "(\<forall>p. r \<noteq> Panic p) \<and> (\<exists>rls err. d = [EvDiscover rls err])"
      using run unfolding getPreferredVersionForResource_def ServerPreferredResources_def go_defs
      by (auto split: prod.splits option.splits go_error.splits if_splits)
    have "deleteResourceByKindAndName K n kind name grp w = (case del v w1 of (r', t', w') \<Rightarrow> (r', d @ t', w'))"
      using False run d unfolding deleteResourceByKindAndName_def del_def [symmetric]
      by (cases r) (auto simp: v_def bindG_def tryG_def returnG_def indexG_def neq_Nil_conv split: list.split prod.split)
    then have "trace_of (deleteResourceByKindAndName K n kind name grp) w = d @ trace_of (del v) w1"
      "result_of (deleteResourceByKindAndName K n kind name grp) w = result_of (del v) w1"
      by (simp_all split: prod.split)
    moreover obtain a where "trace_of (del v) w1 = [EvDelete (?obj v) a]"
      "result_of (del v) w1 = Ok () \<longleftrightarrow> a = Inr () \<or> (\<exists>e. a = Inl e \<and> IsNotFound K e)"
      using del by blast
    ultimately show ?thesis
      using d False run by (intro exI [of _ d] exI [of _ v] exI [of _ a]) (simp add: v_def)
  qed
qed


text \<open>
  Deleting by kind and name deletes exactly the object of that group, kind, namespace and name.
  The version is \<open>v1\<close> without a discovery call for the core group; for another group it is the
  first version discovery offers for the group and kind, and \<open>v1\<close> when there is none or discovery
  fails.  An object that is already gone is a success.
\<close>

theorem deleteResourceByKindAndName_run:
  "\<exists>d v a. trace_of (deleteResourceByKindAndName K n kind name grp) w =
      d @ [EvDelete (zero_Unstructured\<lparr>u_GVK := \<lparr>Group = grp, Version = v, Kind = kind\<rparr>,
             u_Namespace := n, u_Name := name\<rparr>) a] \<and>
    (if grp = '''' then d = [] \<and> v = ''v1''
     else \<exists>rls err. d = [EvDiscover rls err] \<and>
       v = (case result_of (getPreferredVersionForResource K grp kind) w of Ok (v # _) \<Rightarrow> v | _ \<Rightarrow> ''v1'')) \<and>
    (result_of (deleteResourceByKindAndName K n kind name grp) w = Ok () \<longleftrightarrow>
       a = Inr () \<or> (\<exists>e. a = Inl e \<and> IsNotFound K e))"
  by (rule deleteResource_events)

text \<open>
  Round trip of the identifiers.  Cleaning up with the identifier made for an object (a
  \<open>group/kind/name\<close> whose parts have no slash) checks the key of that object's kind and name and
  deletes that object's group, kind and name, nothing else.
\<close>

theorem cleanupResource_roundtrip:
  assumes "CHR ''/'' \<notin> set (Group gvk)" and "CHR ''/'' \<notin> set (Kind gvk)" and "CHR ''/'' \<notin> set n"
  shows "cleanupResource K ns keep (resourceID gvk n) =
    (if keep (resourceKey (Kind gvk) n) then returnG ()
     else bindG (tryG (deleteResourceByKindAndName K (ns_Name ns) (Kind gvk) n (Group gvk))) (\<lambda>_. returnG ()))"
  using resourceID_parts [OF assms] by (simp add: cleanupResource_def Let_def indexG_def)

lemma cleanupResource_roundtrip_witness:
  "cleanupResource mem_kube sample_namespace (\<lambda>_. False) (resourceID \<lparr>Group = ''apps'', Version = ''v1'', Kind = ''Deployment''\<rparr> ''web'') =
    (if False then returnG ()
     else bindG (tryG (deleteResourceByKindAndName mem_kube (ns_Name sample_namespace) ''Deployment'' ''web'' ''apps'')) (\<lambda>_. returnG ()))"
  using cleanupResource_roundtrip [of "\<lparr>Group = ''apps'', Version = ''v1'', Kind = ''Deployment''\<rparr>" "''web''" mem_kube
      sample_namespace "\<lambda>_. False"] by simp

text \<open>
  The check against the new class ignores the API group.  An object of the old class is left in
  place (with the old class's label) when the new class has a resource of the same kind and
  name, even of another group, so that the new class's object is a different one.
\<close>

theorem cleanupResource_ignores_group:
  assumes "res \<in> set (Resources (Spec c))" and "convertRawToUnstructured K res = Inr v"
    and "CHR ''/'' \<notin> set grp" and "CHR ''/'' \<notin> set (Kind (u_GVK v))" and "CHR ''/'' \<notin> set (u_Name v)"
  shows "cleanupResource K ns (resourceMap K (Resources (Spec c)) (\<lambda>_. False))
           (resourceID \<lparr>Group = grp, Version = ver, Kind = Kind (u_GVK v)\<rparr> (u_Name v)) = returnG ()"
  using resourceID_parts [of "\<lparr>Group = grp, Version = ver, Kind = Kind (u_GVK v)\<rparr>" "u_Name v"] assms
  by (auto simp: cleanupResource_def Let_def indexG_def resourceMap_iff)

lemma cleanupResource_ignores_group_witness:
  "cleanupResource mem_kube sample_namespace
     (resourceMap mem_kube (Resources (Spec (sample_class ''web'' [''networking.k8s.io/v1/Ingress/front'']))) (\<lambda>_. False))
     (resourceID \<lparr>Group = ''extensions'', Version = ''v1beta1'', Kind = ''Ingress''\<rparr> ''front'') = returnG ()"
  using cleanupResource_ignores_group [of "\<lparr>Raw = ''networking.k8s.io/v1/Ingress/front'', Object = None\<rparr>"
      "sample_class ''web'' [''networking.k8s.io/v1/Ingress/front'']" mem_kube
      "zero_Unstructured\<lparr>u_GVK := \<lparr>Group = ''networking.k8s.io'', Version = ''v1'', Kind = ''Ingress''\<rparr>, u_Name := ''front''\<rparr>"
      "''extensions''" sample_namespace "''v1beta1''"]
  by (simp add: sample_class_def convertRawToUnstructured_def mem_kube_def mem_decode_def zero_NamespaceClass_def
    zero_Unstructured_def)

text \<open>
  Leaving a class deletes nothing without a reason in the history: either the old class was
  looked up and not found and the object was listed in this namespace under the old class's owner
  label; or the object's identifier was listed there, the new class was read, and no resource of
  the new class has the object's kind and name.  Every other event only reads.
\<close>

theorem cleanupPrevious_deletes_justified:
  "safe (\<lambda>h e. is_read e \<or> (\<exists>u a. e = EvDelete u a \<and>
       (dropped K h (ns_Name ns) prev cur u \<or> orphaned K h (ns_Name ns) prev u)))
     [] (cleanupPreviousNamespaceClassResources K ns prev cur)"
  by (rule safe_cleanupPrevious) auto

end
