(* ===== verification/Class_Status.thy ===== *)
theory Class_Status imports Kube_Memory begin

text \<open>
  The status of a class: \<open>namespaceclass_status.go\<close>.  The list of namespace entries is a keyed
  list; \<open>makeStatusLookupMap\<close> is its abstraction to a map from namespace names, and the update at
  a class switch refines an update of that map.
\<close>

section \<open>The entries\<close>

primrec statusLookup ::
  "NamespaceClassNamespaceStatus list \<Rightarrow> (string \<rightharpoonup> NamespaceClassNamespaceStatus) \<Rightarrow>
   (string \<rightharpoonup> NamespaceClassNamespaceStatus)" where
  "statusLookup [] m = m"
| "statusLookup (st # sts) m = statusLookup sts (m(st_Name st \<mapsto> st))"

definition makeStatusLookupMap ::
  "NamespaceClassNamespaceStatus list \<Rightarrow> (string \<rightharpoonup> NamespaceClassNamespaceStatus)" where
  "makeStatusLookupMap statuses = statusLookup statuses Map.empty"

definition createNamespaceStatusEntry ::
  "string \<Rightarrow> string \<Rightarrow> (string \<rightharpoonup> NamespaceClassNamespaceStatus) \<Rightarrow> NamespaceClassNamespaceStatus" where
  "createNamespaceStatusEntry namespaceName className existingStatusMap =
     (let entry = \<lparr>st_Name = namespaceName, st_CurrentClass = className, st_LastAppliedClass = '''',
                   st_ResourceStatus = ''Applied''\<rparr> in
      case existingStatusMap namespaceName of
        Some existing \<Rightarrow>
          if st_LastAppliedClass existing \<noteq> ''''
          then entry\<lparr>st_LastAppliedClass := st_LastAppliedClass existing\<rparr> else entry
      | None \<Rightarrow> entry)"

definition buildStatusEntries :: "NamespaceClass \<Rightarrow> Namespace list \<Rightarrow> NamespaceClassNamespaceStatus list" where
  "buildStatusEntries nc namespaces =
     (let existingStatusMap = makeStatusLookupMap (Namespaces (Status nc)) in
      map (\<lambda>ns. createNamespaceStatusEntry (ns_Name ns) (nc_Name nc) existingStatusMap)
        (filter (\<lambda>ns. \<not> map_read (ns_Labels ns) NamespaceClassLabel \<noteq> nc_Name nc) namespaces))"

definition updateStatusForClassSwitch ::
  "NamespaceClassNamespaceStatus list \<Rightarrow> (string \<rightharpoonup> NamespaceClassNamespaceStatus) \<Rightarrow>
   string \<Rightarrow> string \<Rightarrow> string \<Rightarrow> NamespaceClassNamespaceStatus list" where
  "updateStatusForClassSwitch currentStatuses statusMap namespaceName currentClass previousClass =
     (case statusMap namespaceName of
        Some existingStatus \<Rightarrow>
          let updated = existingStatus\<lparr>st_LastAppliedClass := previousClass\<rparr> in
          map (\<lambda>st. if st_Name st = namespaceName then updated else st) currentStatuses
      | None \<Rightarrow>
          currentStatuses @
          [\<lparr>st_Name = namespaceName, st_CurrentClass = currentClass, st_LastAppliedClass = previousClass,
            st_ResourceStatus = ''Applied''\<rparr>])"

section \<open>Writing the status\<close>

definition readyCondition :: "Time \<Rightarrow> Condition" where
  "readyCondition now =
     \<lparr>co_Type = ''Ready'', co_Status = ''True'', co_Reason = ''ResourcesApplied'',
      co_Message = ''All resources applied successfully'', co_LastTransitionTime = now\<rparr>"

definition updateReadyCondition :: "'w kube \<Rightarrow> Time \<Rightarrow> NamespaceClass \<Rightarrow> NamespaceClass" where
  "updateReadyCondition K now nc =
     nc\<lparr>Status := (Status nc)\<lparr>Conditions :=
       SetStatusCondition K (Conditions (Status nc)) (readyCondition now)\<rparr>\<rparr>"

definition applyStatusUpdate ::
  "'w kube \<Rightarrow> NamespaceClass \<Rightarrow> NamespaceClassNamespaceStatus list \<Rightarrow> ('w, unit) prog" where
  "applyStatusUpdate K nc namespaceStatuses =
     bindG (nowG K) (\<lambda>now.
     let base = nc;
         nc1 = nc\<lparr>Status := (Status nc)\<lparr>ObservedGeneration := nc_Generation nc\<rparr>\<rparr>;
         nc2 = updateReadyCondition K now nc1;
         nc3 = nc2\<lparr>Status := (Status nc2)\<lparr>Namespaces := namespaceStatuses\<rparr>\<rparr> in
     wrapG ''failed to update NamespaceClass status'' (patchStatus K base nc3))"

definition getFreshNamespaceClass :: "'w kube \<Rightarrow> string \<Rightarrow> ('w, NamespaceClass) prog" where
  "getFreshNamespaceClass K name =
     wrapG ''failed to get fresh copy of NamespaceClass'' (getClass K (byName name))"

definition getNamespacesForClass :: "'w kube \<Rightarrow> string \<Rightarrow> ('w, Namespace list) prog" where
  "getNamespacesForClass K className =
     wrapG ''failed to list namespaces with class label'' (listNs K NamespaceClassLabel className)"

definition updateNamespaceClassStatus :: "'w kube \<Rightarrow> NamespaceClass \<Rightarrow> ('w, unit) prog" where
  "updateNamespaceClassStatus K nc =
     bindG (getFreshNamespaceClass K (nc_Name nc)) (\<lambda>freshClass.
     bindG (getNamespacesForClass K (nc_Name nc)) (\<lambda>namespaces.
     applyStatusUpdate K freshClass (buildStatusEntries freshClass namespaces)))"

definition updateClassSwitchStatus :: "'w kube \<Rightarrow> Namespace \<Rightarrow> string \<Rightarrow> string \<Rightarrow> ('w, unit) prog" where
  "updateClassSwitchStatus K ns currentClass previousClass =
     (if previousClass = '''' \<or> previousClass = currentClass then returnG ()
      else
        bindG (getFreshNamespaceClass K currentClass) (\<lambda>freshClass.
        let existingEntries = makeStatusLookupMap (Namespaces (Status freshClass));
            updatedStatuses = updateStatusForClassSwitch (Namespaces (Status freshClass)) existingEntries
              (ns_Name ns) currentClass previousClass in
        applyStatusUpdate K freshClass updatedStatuses))"

section \<open>The lookup map\<close>

text \<open>The last entry of a name wins, as in a map filled from the left.\<close>

lemma statusLookup_map_of:
  "statusLookup sts m = m ++ map_of (rev (map (\<lambda>st. (st_Name st, st)) sts))"
  by (induction sts arbitrary: m) simp_all

lemma statusLookup_cong: "m n = m' n \<Longrightarrow> statusLookup sts m n = statusLookup sts m' n"
  by (simp add: statusLookup_map_of map_add_def split: option.split)

lemma makeStatusLookupMap_None: "makeStatusLookupMap sts n = None \<longleftrightarrow> n \<notin> st_Name ` set sts"
  by (auto simp: makeStatusLookupMap_def statusLookup_map_of map_of_eq_None_iff image_image)

lemma makeStatusLookupMap_Some: "makeStatusLookupMap sts n = Some st \<Longrightarrow> st_Name st = n \<and> st \<in> set sts"
  by (auto simp: makeStatusLookupMap_def statusLookup_map_of dest!: map_of_SomeD)

lemma statusLookup_replace:
  "statusLookup (map (\<lambda>st. if st_Name st = n then e else st) sts) m x =
    (if st_Name e = n \<and> x = n then (if n \<in> st_Name ` set sts then Some e else m n) else statusLookup sts m x)"
  if "st_Name e = n"
proof (induction sts arbitrary: m)
  case (Cons st sts)
  have "statusLookup sts (m(n \<mapsto> e)) x = statusLookup sts (m(n \<mapsto> st)) x" if "x \<noteq> n"
    using that by (intro statusLookup_cong) simp
  with Cons that show ?case by auto
qed (use that in simp)

section \<open>What writing the status emits\<close>

text \<open>A patch changes nothing but the status, and records the generation it was computed for.\<close>

definition status_patch :: "'w kube \<Rightarrow> NamespaceClass \<Rightarrow> NamespaceClass \<Rightarrow> bool" where
  "status_patch K base nc \<longleftrightarrow>
     nc = base\<lparr>Status := Status nc\<rparr> \<and> ObservedGeneration (Status nc) = nc_Generation base \<and>
     (\<exists>now. Conditions (Status nc) = SetStatusCondition K (Conditions (Status base)) (readyCondition now))"

lemma safe_applyStatusUpdate [safe_intro]:
  assumes "\<And>nc' a. status_patch K nc nc' \<Longrightarrow> Namespaces (Status nc') = sts \<Longrightarrow> P h (EvPatchStatus nc nc' a)"
  shows "safe P h (applyStatusUpdate K nc sts)"
proof -
  have now: "t = []" if "yields (nowG K) x t" for x t
    using that by (auto simp: yields_def nowG_def)
  show ?thesis
    unfolding applyStatusUpdate_def
    by (intro safe_intro) (auto dest!: now intro!: assms simp: status_patch_def updateReadyCondition_def, blast)
qed

lemma safe_updateNamespaceClassStatus [safe_intro]:
  assumes "\<And>h' key a. ext h h' \<Longrightarrow> P h' (EvGetClass key a)"
    and "\<And>h' a. ext h h' \<Longrightarrow> P h' (EvListNs NamespaceClassLabel (nc_Name nc) a)"
    and "\<And>h' base nc' nss a. ext h h' \<Longrightarrow> status_patch K base nc' \<Longrightarrow>
           EvGetClass (byName (nc_Name nc)) (Inr base) \<in> set h' \<Longrightarrow>
           EvListNs NamespaceClassLabel (nc_Name nc) (Inr nss) \<in> set h' \<Longrightarrow>
           Namespaces (Status nc') = buildStatusEntries base nss \<Longrightarrow> P h' (EvPatchStatus base nc' a)"
  shows "safe P h (updateNamespaceClassStatus K nc)"
  unfolding updateNamespaceClassStatus_def getFreshNamespaceClass_def getNamespacesForClass_def
  by (intro safe_intro) (auto intro!: assms simp: yields_simp)

lemma safe_updateClassSwitchStatus [safe_intro]:
  assumes "\<And>h' key a. ext h h' \<Longrightarrow> P h' (EvGetClass key a)"
    and "\<And>h' base nc' a. ext h h' \<Longrightarrow> status_patch K base nc' \<Longrightarrow>
           EvGetClass (byName cur) (Inr base) \<in> set h' \<Longrightarrow>
           Namespaces (Status nc') = updateStatusForClassSwitch (Namespaces (Status base))
             (makeStatusLookupMap (Namespaces (Status base))) (ns_Name ns) cur prev \<Longrightarrow>
           P h' (EvPatchStatus base nc' a)"
  shows "safe P h (updateClassSwitchStatus K ns cur prev)"
  unfolding updateClassSwitchStatus_def getFreshNamespaceClass_def Let_def
  by (intro safe_intro) (auto intro!: assms simp: yields_simp)

section \<open>Properties\<close>

definition lastAppliedOf :: "NamespaceClassNamespaceStatus list \<Rightarrow> string \<Rightarrow> string" where
  "lastAppliedOf sts n = (case makeStatusLookupMap sts n of None \<Rightarrow> '''' | Some st \<Rightarrow> st_LastAppliedClass st)"

lemma createNamespaceStatusEntry_eq:
  "createNamespaceStatusEntry n c (makeStatusLookupMap sts) =
    \<lparr>st_Name = n, st_CurrentClass = c, st_LastAppliedClass = lastAppliedOf sts n, st_ResourceStatus = ''Applied''\<rparr>"
  by (auto simp: createNamespaceStatusEntry_def lastAppliedOf_def Let_def split: option.split)


lemma lastAppliedOf_built:
  assumes "\<And>st. st \<in> set sts \<Longrightarrow> st_LastAppliedClass st = f (st_Name st)" and "n \<in> st_Name ` set sts"
  shows "lastAppliedOf sts n = f n"
proof -
  obtain st where st: "makeStatusLookupMap sts n = Some st"
    using assms(2) makeStatusLookupMap_None [of sts n] by (cases "makeStatusLookupMap sts n") auto
  with makeStatusLookupMap_Some [OF st] assms(1) show ?thesis by (auto simp: lastAppliedOf_def)
qed

text \<open>
  Computing the entries again from a status that already holds them changes nothing: a second
  reconciliation with the same namespaces writes the same entries.
\<close>

theorem buildStatusEntries_idempotent:
  "buildStatusEntries (nc\<lparr>Status := (Status nc)\<lparr>Namespaces := buildStatusEntries nc nss\<rparr>\<rparr>) nss =
   buildStatusEntries nc nss"
  unfolding buildStatusEntries_def createNamespaceStatusEntry_eq Let_def
  by (auto intro!: lastAppliedOf_built [where f = "lastAppliedOf (Namespaces (Status nc))"] simp: image_image)

text \<open>
  C24: recording a class switch refines an update of the map from namespace names to entries: the
  entry of the namespace gets the previous class (a new entry is made when there is none), every
  other entry is as before, and the order of the list is kept.
\<close>

theorem updateStatusForClassSwitch_refines:
  "makeStatusLookupMap (updateStatusForClassSwitch sts (makeStatusLookupMap sts) n cur prev) =
     (makeStatusLookupMap sts)(n \<mapsto>
       (case makeStatusLookupMap sts n of
          Some st \<Rightarrow> st\<lparr>st_LastAppliedClass := prev\<rparr>
        | None \<Rightarrow> \<lparr>st_Name = n, st_CurrentClass = cur, st_LastAppliedClass = prev, st_ResourceStatus = ''Applied''\<rparr>)) \<and>
   map st_Name (updateStatusForClassSwitch sts (makeStatusLookupMap sts) n cur prev) =
     (if n \<in> st_Name ` set sts then map st_Name sts else map st_Name sts @ [n])"
proof (cases "makeStatusLookupMap sts n")
  case None
  have app: "statusLookup (xs @ [st]) m = (statusLookup xs m)(st_Name st \<mapsto> st)" for xs st m
    by (induction xs arbitrary: m) simp_all
  from None have "n \<notin> st_Name ` set sts" by (simp add: makeStatusLookupMap_None)
  with None show ?thesis
    by (simp add: updateStatusForClassSwitch_def makeStatusLookupMap_def app)
next
  case (Some st)
  from makeStatusLookupMap_Some [OF Some] have st: "st_Name st = n" "n \<in> st_Name ` set sts" by auto
  have "makeStatusLookupMap (map (\<lambda>s. if st_Name s = n then st\<lparr>st_LastAppliedClass := prev\<rparr> else s) sts) x =
      ((makeStatusLookupMap sts)(n \<mapsto> st\<lparr>st_LastAppliedClass := prev\<rparr>)) x" for x
    using st by (simp add: makeStatusLookupMap_def statusLookup_replace)
  then show ?thesis
    using Some st by (auto simp: updateStatusForClassSwitch_def Let_def fun_eq_iff)
qed

text \<open>
  The status is written as a patch against the class as just read again, for the namespaces just
  listed: it changes nothing but the status, records the generation it was computed for, and the
  only write is that patch.
\<close>

theorem updateNamespaceClassStatus_patch:
  "safe (\<lambda>h e. is_read e \<or> (\<exists>base nc' nss a. e = EvPatchStatus base nc' a \<and>
       EvGetClass (byName (nc_Name nc)) (Inr base) \<in> set h \<and>
       EvListNs NamespaceClassLabel (nc_Name nc) (Inr nss) \<in> set h \<and>
       nc' = base\<lparr>Status := Status nc'\<rparr> \<and> ObservedGeneration (Status nc') = nc_Generation base \<and>
       Namespaces (Status nc') = buildStatusEntries base nss))
     [] (updateNamespaceClassStatus K nc)"
  by (rule safe_updateNamespaceClassStatus) (auto simp: status_patch_def)

end
