(* ===== verification/Class_Annotations.thy ===== *)
theory Class_Annotations imports Kube_Memory begin

text \<open>
  The two writers of a namespace's class annotations, \<open>setClassAnnotations\<close> and
  \<open>updateCurrentClassAnnotation\<close> of \<open>namespaceclass_controller.go\<close>.  They share a contract,
  stated as the locale \<open>annotation_writer\<close>: under the namespace's lock, read the namespace,
  edit the two class annotations of what was read, write it back.
\<close>

text \<open>
  \<open>r.namespaceMutex.LoadOrStore(name, &sync.Mutex{})\<close>, \<open>Lock\<close> and the deferred \<open>Unlock\<close>.
\<close>

definition withNamespaceLock :: "string \<Rightarrow> ('w, 'a) prog \<Rightarrow> ('w, 'a) prog" where
  "withNamespaceLock name body = bindG (emitG (EvLock name)) (\<lambda>_. deferG (EvUnlock name) body)"

definition setClassAnnotations :: "'w kube \<Rightarrow> Namespace \<Rightarrow> string \<Rightarrow> string \<Rightarrow> ('w, unit) prog" where
  "setClassAnnotations K ns originalClass currentClass =
     withNamespaceLock (ns_Name ns)
       (bindG (wrapG ''failed to get latest namespace state'' (getNs K (ns_Name ns))) (\<lambda>latestNamespace.
        let ann = (if ns_Annotations latestNamespace = None then map_make None
                   else ns_Annotations latestNamespace) in
        bindG (mapWriteG ann LastAppliedClassAnnotation originalClass) (\<lambda>ann1.
        bindG (mapWriteG ann1 CurrentClassAnnotation currentClass) (\<lambda>ann2.
        updateNs K (latestNamespace\<lparr>ns_Annotations := ann2\<rparr>)))))"

definition updateCurrentClassAnnotation :: "'w kube \<Rightarrow> Namespace \<Rightarrow> string \<Rightarrow> ('w, unit) prog" where
  "updateCurrentClassAnnotation K ns currentClass =
     withNamespaceLock (ns_Name ns)
       (bindG (wrapG ''failed to get latest namespace state'' (getNs K (ns_Name ns))) (\<lambda>latestNamespace.
        let existingCurrentClass =
              (if ns_Annotations latestNamespace \<noteq> None
               then map_read (ns_Annotations latestNamespace) CurrentClassAnnotation else '''');
            ann = (if ns_Annotations latestNamespace = None then map_make None
                   else ns_Annotations latestNamespace) in
        bindG (if existingCurrentClass \<noteq> '''' \<and> existingCurrentClass \<noteq> currentClass
               then mapWriteG ann LastAppliedClassAnnotation existingCurrentClass
               else returnG ann) (\<lambda>ann1.
        bindG (mapWriteG ann1 CurrentClassAnnotation currentClass) (\<lambda>ann2.
        updateNs K (latestNamespace\<lparr>ns_Annotations := ann2\<rparr>)))))"

section \<open>The contract\<close>

locale annotation_writer =
  fixes K :: "'w kube"
    and annotate :: "Namespace \<Rightarrow> ('w, unit) prog"
    and edit :: "strmap \<Rightarrow> strmap"
  assumes annotate_locked: "annotate ns =
      withNamespaceLock (ns_Name ns)
        (bindG (wrapG ''failed to get latest namespace state'' (getNs K (ns_Name ns)))
          (\<lambda>latest. updateNs K (latest\<lparr>ns_Annotations := edit (ns_Annotations latest)\<rparr>)))"
    and edit_other: "k \<noteq> LastAppliedClassAnnotation \<Longrightarrow> k \<noteq> CurrentClassAnnotation \<Longrightarrow>
      map_read (edit m) k = map_read m k"
begin

text \<open>
  A run is a critical section: lock, one read, at most one write that edits exactly what was
  read, unlock; the unlock comes last on every path.
\<close>

lemma annotate_trace:
  "(\<exists>e. trace_of (annotate ns) w = [EvLock (ns_Name ns), EvGetNs (ns_Name ns) (Inl e), EvUnlock (ns_Name ns)]) \<or>
   (\<exists>latest a. trace_of (annotate ns) w =
      [EvLock (ns_Name ns), EvGetNs (ns_Name ns) (Inr latest),
       EvUpdateNs (latest\<lparr>ns_Annotations := edit (ns_Annotations latest)\<rparr>) a, EvUnlock (ns_Name ns)])"
  unfolding annotate_locked withNamespaceLock_def
  by (auto simp: go_defs getNs_def updateNs_def split: prod.splits sum.splits)

lemma annotate_safe:
  assumes "\<And>h'. ext h h' \<Longrightarrow> P h' (EvLock (ns_Name ns))"
    and "\<And>h' a. ext h h' \<Longrightarrow> P h' (EvGetNs (ns_Name ns) a)"
    and "\<And>h' latest a. ext h h' \<Longrightarrow> EvGetNs (ns_Name ns) (Inr latest) \<in> set h' \<Longrightarrow>
           P h' (EvUpdateNs (latest\<lparr>ns_Annotations := edit (ns_Annotations latest)\<rparr>) a)"
    and "\<And>h'. ext h h' \<Longrightarrow> P h' (EvUnlock (ns_Name ns))"
  shows "safe P h (annotate ns)"
  unfolding annotate_locked withNamespaceLock_def
  by (intro safe_intro) (auto intro!: assms simp: yields_simp)

lemma annotate_ok:
  assumes "annotate ns w = (Ok (), t, w')"
  shows "\<exists>latest. t = [EvLock (ns_Name ns), EvGetNs (ns_Name ns) (Inr latest),
      EvUpdateNs (latest\<lparr>ns_Annotations := edit (ns_Annotations latest)\<rparr>) (Inr ()), EvUnlock (ns_Name ns)]"
  using assms unfolding annotate_locked withNamespaceLock_def
  by (auto simp: go_defs getNs_def updateNs_def split: prod.splits sum.splits)

end

text \<open>The edits of the two writers, as functions on the annotations.\<close>

definition setEdit :: "string \<Rightarrow> string \<Rightarrow> strmap \<Rightarrow> strmap" where
  "setEdit originalClass currentClass m =
     map_option (\<lambda>f. f(LastAppliedClassAnnotation \<mapsto> originalClass, CurrentClassAnnotation \<mapsto> currentClass))
       (map_make m)"

definition switchEdit :: "string \<Rightarrow> strmap \<Rightarrow> strmap" where
  "switchEdit currentClass m =
     (let old = map_read m CurrentClassAnnotation in
      map_option (\<lambda>f. (if old \<noteq> '''' \<and> old \<noteq> currentClass then f(LastAppliedClassAnnotation \<mapsto> old) else f)
        (CurrentClassAnnotation \<mapsto> currentClass)) (map_make m))"

lemma map_option_read: "map_read (map_option g (map_make m)) k = map_read (Some (g (case m of None \<Rightarrow> Map.empty | Some f \<Rightarrow> f))) k"
  by (simp add: map_make_def split: option.splits)

lemma map_read_base: "map_read (Some (case m of None \<Rightarrow> Map.empty | Some f \<Rightarrow> f)) k = map_read m k"
  by (simp add: map_read_def split: option.splits)

lemma setEdit_read:
  "map_read (setEdit orig cur m) k =
    (if k = CurrentClassAnnotation then cur
     else if k = LastAppliedClassAnnotation then orig else map_read m k)"
  by (simp add: setEdit_def map_option_read map_read_upd map_read_base)

lemma switchEdit_read:
  "map_read (switchEdit cur m) k =
    (if k = CurrentClassAnnotation then cur
     else if k = LastAppliedClassAnnotation \<and> map_read m CurrentClassAnnotation \<notin> {'''', cur}
     then map_read m CurrentClassAnnotation else map_read m k)"
  by (simp add: switchEdit_def Let_def map_option_read map_read_upd map_read_base)

interpretation set_writer: annotation_writer K "\<lambda>ns. setClassAnnotations K ns orig cur" "setEdit orig cur"
  for K :: "'w kube" and orig cur
proof
  fix ns
  show "setClassAnnotations K ns orig cur =
    withNamespaceLock (ns_Name ns)
      (bindG (wrapG ''failed to get latest namespace state'' (getNs K (ns_Name ns)))
        (\<lambda>latest. updateNs K (latest\<lparr>ns_Annotations := setEdit orig cur (ns_Annotations latest)\<rparr>)))"
    unfolding setClassAnnotations_def Let_def
    by (intro arg_cong [where f = "withNamespaceLock _"] arg_cong [where f = "bindG _"] ext)
      (auto simp: mapWriteG_def setEdit_def map_make_def split: option.splits)
qed (simp add: setEdit_read)

interpretation switch_writer: annotation_writer K "\<lambda>ns. updateCurrentClassAnnotation K ns cur" "switchEdit cur"
  for K :: "'w kube" and cur
proof
  fix ns
  show "updateCurrentClassAnnotation K ns cur =
    withNamespaceLock (ns_Name ns)
      (bindG (wrapG ''failed to get latest namespace state'' (getNs K (ns_Name ns)))
        (\<lambda>latest. updateNs K (latest\<lparr>ns_Annotations := switchEdit cur (ns_Annotations latest)\<rparr>)))"
    unfolding updateCurrentClassAnnotation_def Let_def
    by (intro arg_cong [where f = "withNamespaceLock _"] arg_cong [where f = "bindG _"] ext)
      (auto simp: mapWriteG_def switchEdit_def map_make_def map_read_def Let_def split: option.splits)
qed (simp add: switchEdit_read)

lemmas safe_setClassAnnotations [safe_intro] = set_writer.annotate_safe
lemmas safe_updateCurrentClassAnnotation [safe_intro] = switch_writer.annotate_safe

section \<open>Properties\<close>

text \<open>
  The first annotation of a namespace is one critical section: under the namespace's lock it reads
  the namespace, writes back exactly what it read with both class annotations set, and unlocks on
  every path; when the read fails nothing is written.
\<close>

theorem setClassAnnotations_trace:
  "(\<exists>e. trace_of (setClassAnnotations K ns orig cur) w =
      [EvLock (ns_Name ns), EvGetNs (ns_Name ns) (Inl e), EvUnlock (ns_Name ns)]) \<or>
   (\<exists>latest m a. trace_of (setClassAnnotations K ns orig cur) w =
      [EvLock (ns_Name ns), EvGetNs (ns_Name ns) (Inr latest),
       EvUpdateNs (latest\<lparr>ns_Annotations := m\<rparr>) a, EvUnlock (ns_Name ns)] \<and>
      (\<forall>k. map_read m k =
        (if k = CurrentClassAnnotation then cur
         else if k = LastAppliedClassAnnotation then orig else map_read (ns_Annotations latest) k)))"
  using set_writer.annotate_trace [of K ns orig cur w]
  by (elim disjE exE) (blast, intro disjI2 exI conjI, assumption, simp add: setEdit_read)

text \<open>
  The annotation of a class switch is one critical section as well; it sets the current class to
  the new one, moves the class that was current (when there was another one) to the last applied
  class, and leaves every other annotation as it was read.
\<close>

theorem updateCurrentClassAnnotation_trace:
  "(\<exists>e. trace_of (updateCurrentClassAnnotation K ns cur) w =
      [EvLock (ns_Name ns), EvGetNs (ns_Name ns) (Inl e), EvUnlock (ns_Name ns)]) \<or>
   (\<exists>latest m a. trace_of (updateCurrentClassAnnotation K ns cur) w =
      [EvLock (ns_Name ns), EvGetNs (ns_Name ns) (Inr latest),
       EvUpdateNs (latest\<lparr>ns_Annotations := m\<rparr>) a, EvUnlock (ns_Name ns)] \<and>
      (\<forall>k. map_read m k =
        (if k = CurrentClassAnnotation then cur
         else if k = LastAppliedClassAnnotation \<and> map_read (ns_Annotations latest) CurrentClassAnnotation \<notin> {'''', cur}
         then map_read (ns_Annotations latest) CurrentClassAnnotation
         else map_read (ns_Annotations latest) k)))"
  using switch_writer.annotate_trace [of K ns cur w]
  by (elim disjE exE) (blast, intro disjI2 exI conjI, assumption, simp add: switchEdit_read)

end
