(* ===== verification/Class_Finalizer.thy ===== *)
theory Class_Finalizer imports Labelled_Resources begin

text \<open>
  The finalizer of a class: \<open>namespaceclass_finalizer.go\<close>.  While a class is being deleted,
  \<open>handleFinalizerCleanup\<close> deletes what the class owns in every namespace that uses it, removes an
  annotation of the namespace, and takes the finalizer off the class; it collects the errors it
  meets and goes on.
\<close>

text \<open>\<open>(*metav1.Time).IsZero\<close>.\<close>

definition IsZero :: "Time option \<Rightarrow> bool" where
  "IsZero t = (case t of None \<Rightarrow> True | Some x \<Rightarrow> x = 0)"

text \<open>\<open>slices.Index\<close> and \<open>slices.Delete\<close>.\<close>

primrec slices_Index :: "'a list \<Rightarrow> 'a \<Rightarrow> int" where
  "slices_Index [] v = -1"
| "slices_Index (x # xs) v = (if x = v then 0 else let i = slices_Index xs v in if i = -1 then -1 else i + 1)"

definition slices_Delete :: "'a list \<Rightarrow> int \<Rightarrow> int \<Rightarrow> ('w, 'a list) prog" where
  "slices_Delete xs i j =
     (if 0 \<le> i \<and> i \<le> j \<and> j \<le> int (length xs) then returnG (take (nat i) xs @ drop (nat j) xs)
      else panicG IndexOutOfRange)"

record Result =
  Requeue :: bool

definition ensureFinalizerPresent :: "'w kube \<Rightarrow> NamespaceClass \<Rightarrow> ('w, Result) prog" where
  "ensureFinalizerPresent K nc =
     (if NamespaceClassFinalizer \<in> set (nc_Finalizers nc) then returnG \<lparr>Requeue = False\<rparr>
      else
        bindG (updateClass K (nc\<lparr>nc_Finalizers := nc_Finalizers nc @ [NamespaceClassFinalizer]\<rparr>)) (\<lambda>_.
        returnG \<lparr>Requeue = True\<rparr>))"

text \<open>Deleting the resources of one namespace: the errors met.\<close>

definition deleteResources :: "'w kube \<Rightarrow> Unstructured list \<Rightarrow> ('w, go_error list) prog" where
  "deleteResources K resources =
     concatMapG (\<lambda>res. bindG (tryG (deleteObj K res)) (\<lambda>a.
       case a of Inl err \<Rightarrow> returnG [err] | Inr _ \<Rightarrow> returnG [])) resources"

text \<open>The body of the loop over the namespaces: the errors it appends to \<open>errs\<close>.\<close>

definition cleanupNamespace :: "'w kube \<Rightarrow> NamespaceClass \<Rightarrow> Namespace \<Rightarrow> ('w, go_error list) prog" where
  "cleanupNamespace K nc ns =
     (if ns_DeletionTimestamp ns \<noteq> None then returnG []
      else
        bindG (listResourcesWithLabel K (ns_Name ns) NamespaceClassOwner (nc_Name nc)) (\<lambda>resources.
        bindG (deleteResources K resources) (\<lambda>errs.
        bindG (tryG (getNs K (ns_Name ns))) (\<lambda>a.
          case a of
            Inl err \<Rightarrow> returnG (errs @ [err])
          | Inr nsToUpdate \<Rightarrow>
              if ns_Annotations nsToUpdate \<noteq> None then
                bindG (tryG (updateNs K (nsToUpdate\<lparr>ns_Annotations :=
                         map_remove (ns_Annotations nsToUpdate) LastAppliedClassAnnotation\<rparr>))) (\<lambda>b.
                  case b of Inl err \<Rightarrow> returnG (errs @ [err]) | Inr _ \<Rightarrow> returnG errs)
              else returnG errs))))"

definition cleanupNamespaces :: "'w kube \<Rightarrow> NamespaceClass \<Rightarrow> ('w, go_error list) prog" where
  "cleanupNamespaces K nc =
     bindG (tryG (listNs K NamespaceClassLabel (nc_Name nc))) (\<lambda>a.
       case a of
         Inl err \<Rightarrow> returnG [err]
       | Inr nsList \<Rightarrow> concatMapG (cleanupNamespace K nc) nsList)"

text \<open>Taking the finalizer off: the error met, if any.\<close>

definition removeFinalizer :: "'w kube \<Rightarrow> NamespaceClass \<Rightarrow> ('w, go_error list) prog" where
  "removeFinalizer K nc =
     (let index = slices_Index (nc_Finalizers nc) NamespaceClassFinalizer in
      if index \<noteq> -1 then
        bindG (slices_Delete (nc_Finalizers nc) index (index + 1)) (\<lambda>fs.
        bindG (tryG (updateClass K (nc\<lparr>nc_Finalizers := fs\<rparr>))) (\<lambda>a.
          case a of Inl err \<Rightarrow> returnG [err] | Inr _ \<Rightarrow> returnG []))
      else returnG [])"

definition handleFinalizerCleanup :: "'w kube \<Rightarrow> NamespaceClass \<Rightarrow> ('w, Result) prog" where
  "handleFinalizerCleanup K nc =
     bindG (cleanupNamespaces K nc) (\<lambda>errs1.
     bindG (removeFinalizer K nc) (\<lambda>errs2.
     let errs = errs1 @ errs2 in
     if length errs > 0 then failG (EJoin errs) else returnG \<lparr>Requeue = False\<rparr>))"

definition reconcileNamespaceClassFinalizer :: "'w kube \<Rightarrow> NamespaceClass \<Rightarrow> ('w, Result) prog" where
  "reconcileNamespaceClassFinalizer K nc =
     (if IsZero (nc_DeletionTimestamp nc) then ensureFinalizerPresent K nc else handleFinalizerCleanup K nc)"

section \<open>Slices\<close>

lemma slices_Index_range: "-1 \<le> slices_Index xs v \<and> slices_Index xs v < int (length xs)"
  by (induction xs) (auto simp: Let_def)

lemma slices_Index_absent: "slices_Index xs v = -1 \<longleftrightarrow> v \<notin> set xs"
proof (induction xs)
  case (Cons x xs)
  then show ?case using slices_Index_range [of xs v] by (auto simp: Let_def)
qed simp

lemma slices_Index_present: "v \<in> set xs \<Longrightarrow> 0 \<le> slices_Index xs v"
  using slices_Index_absent [of xs v] slices_Index_range [of xs v] by linarith

lemma slices_delete_first:
  assumes "v \<in> set xs"
  shows "take (nat (slices_Index xs v)) xs @ drop (nat (slices_Index xs v + 1)) xs = remove1 v xs"
  using assms
proof (induction xs)
  case (Cons x xs)
  show ?case
  proof (cases "x = v")
    case False
    with Cons.prems have "v \<in> set xs" by simp
    with False show ?thesis
      using Cons.IH slices_Index_present [of v xs] by (simp add: nat_add_distrib)
  qed simp
qed simp

lemma removeFinalizer_eq:
  "removeFinalizer K nc =
     (if NamespaceClassFinalizer \<in> set (nc_Finalizers nc) then
        bindG (tryG (updateClass K (nc\<lparr>nc_Finalizers := remove1 NamespaceClassFinalizer (nc_Finalizers nc)\<rparr>))) (\<lambda>a.
          case a of Inl err \<Rightarrow> returnG [err] | Inr _ \<Rightarrow> returnG [])
      else returnG [])"
  using slices_Index_range [of "nc_Finalizers nc" NamespaceClassFinalizer]
    slices_Index_present [of NamespaceClassFinalizer "nc_Finalizers nc"]
  by (auto simp: removeFinalizer_def slices_Delete_def slices_Index_absent slices_delete_first Let_def)

section \<open>What the finalizer emits\<close>

lemma safe_ensureFinalizerPresent [safe_intro]:
  assumes "\<And>a. NamespaceClassFinalizer \<notin> set (nc_Finalizers nc) \<Longrightarrow>
     P h (EvUpdateClass (nc\<lparr>nc_Finalizers := nc_Finalizers nc @ [NamespaceClassFinalizer]\<rparr>) a)"
  shows "safe P h (ensureFinalizerPresent K nc)"
  unfolding ensureFinalizerPresent_def by (intro safe_intro) (auto intro!: assms)

lemma safe_deleteResources [safe_intro]:
  assumes "\<And>h' u a. ext h h' \<Longrightarrow> u \<in> set us \<Longrightarrow> P h' (EvDelete u a)"
  shows "safe P h (deleteResources K us)"
  unfolding deleteResources_def by (intro safe_intro) (auto intro!: assms)

lemma safe_cleanupNamespace [safe_intro]:
  assumes reads: "\<And>h' e. ext h h' \<Longrightarrow> is_read e \<Longrightarrow> P h' e"
    and deletes: "\<And>h' u a. ext h h' \<Longrightarrow> ns_DeletionTimestamp ns = None \<Longrightarrow> listed h' (ns_Name ns) (nc_Name nc) u \<Longrightarrow>
           P h' (EvDelete u a)"
    and updates: "\<And>h' latest m a. ext h h' \<Longrightarrow> EvGetNs (ns_Name ns) (Inr latest) \<in> set h' \<Longrightarrow>
           m = map_remove (ns_Annotations latest) LastAppliedClassAnnotation \<Longrightarrow>
           P h' (EvUpdateNs (latest\<lparr>ns_Annotations := m\<rparr>) a)"
  shows "safe P h (cleanupNamespace K nc ns)"
  unfolding cleanupNamespace_def
proof (intro safe_intro, goal_cases)
  case (3 us t h' u a)
  then show ?case
    by (intro deletes) (auto intro: listResourcesWithLabel_listed [where h = h])
qed (auto simp: yields_simp intro: reads updates)

lemma safe_removeFinalizer [safe_intro]:
  assumes "\<And>a. NamespaceClassFinalizer \<in> set (nc_Finalizers nc) \<Longrightarrow>
     P h (EvUpdateClass (nc\<lparr>nc_Finalizers := remove1 NamespaceClassFinalizer (nc_Finalizers nc)\<rparr>) a)"
  shows "safe P h (removeFinalizer K nc)"
  unfolding removeFinalizer_eq by (intro safe_intro) (auto intro!: assms)

lemma safe_handleFinalizerCleanup [safe_intro]:
  assumes reads: "\<And>h' e. ext h h' \<Longrightarrow> is_read e \<Longrightarrow> P h' e"
    and deletes: "\<And>h' nss ns u a. ext h h' \<Longrightarrow>
           EvListNs NamespaceClassLabel (nc_Name nc) (Inr nss) \<in> set h' \<Longrightarrow> ns \<in> set nss \<Longrightarrow>
           ns_DeletionTimestamp ns = None \<Longrightarrow> listed h' (ns_Name ns) (nc_Name nc) u \<Longrightarrow> P h' (EvDelete u a)"
    and updates: "\<And>h' n latest m a. ext h h' \<Longrightarrow> EvGetNs n (Inr latest) \<in> set h' \<Longrightarrow>
           m = map_remove (ns_Annotations latest) LastAppliedClassAnnotation \<Longrightarrow>
           P h' (EvUpdateNs (latest\<lparr>ns_Annotations := m\<rparr>) a)"
    and classes: "\<And>h' a. ext h h' \<Longrightarrow> NamespaceClassFinalizer \<in> set (nc_Finalizers nc) \<Longrightarrow>
           P h' (EvUpdateClass (nc\<lparr>nc_Finalizers := remove1 NamespaceClassFinalizer (nc_Finalizers nc)\<rparr>) a)"
  shows "safe P h (handleFinalizerCleanup K nc)"
  unfolding handleFinalizerCleanup_def cleanupNamespaces_def
proof (intro safe_intro, goal_cases)
  case (3 a t nss ns s h' u b)
  then show ?case
    by (intro deletes [where nss = nss and ns = ns]) (auto simp: yields_simp dest: ext_set ext_appendD)
qed (auto intro: reads updates classes)

lemma safe_reconcileNamespaceClassFinalizer_deleting:
  "\<not> IsZero (nc_DeletionTimestamp nc) \<Longrightarrow> safe P h (handleFinalizerCleanup K nc) \<Longrightarrow>
    safe P h (reconcileNamespaceClassFinalizer K nc)"
  by (simp add: reconcileNamespaceClassFinalizer_def)

section \<open>Errors are collected\<close>

text \<open>The calls of the cleanup whose failure it reports.\<close>

fun failed :: "event \<Rightarrow> bool" where
  "failed (EvListNs k v (Inl e)) = True"
| "failed (EvGetNs n (Inl e)) = True"
| "failed (EvDelete u (Inl e)) = True"
| "failed (EvUpdateNs ns (Inl e)) = True"
| "failed (EvUpdateClass nc (Inl e)) = True"
| "failed _ = False"

text \<open>
  \<open>collects m\<close>: \<open>m\<close> always returns a list of errors, which is empty exactly when no call failed.
\<close>

definition collects :: "('w, go_error list) prog \<Rightarrow> bool" where
  "collects m \<longleftrightarrow> (\<forall>w. \<exists>errs t w'. m w = (Ok errs, t, w') \<and> (errs = [] \<longleftrightarrow> list_all (\<lambda>e. \<not> failed e) t))"

lemma collects_return: "collects (returnG [])"
  by (simp add: collects_def returnG_def)

lemma collects_bind:
  assumes "collects m" and "\<And>errs. collects (f errs)"
  shows "collects (bindG m (\<lambda>errs. bindG (f errs) (\<lambda>errs'. returnG (errs @ errs'))))"
  unfolding collects_def
proof
  fix w
  obtain errs t w1 where m: "m w = (Ok errs, t, w1)" "errs = [] \<longleftrightarrow> list_all (\<lambda>e. \<not> failed e) t"
    using assms(1) unfolding collects_def by blast
  obtain errs' t' w2 where f: "f errs w1 = (Ok errs', t', w2)" "errs' = [] \<longleftrightarrow> list_all (\<lambda>e. \<not> failed e) t'"
    using assms(2) unfolding collects_def by blast
  from m f show "\<exists>errs t w'. bindG m (\<lambda>errs. bindG (f errs) (\<lambda>errs'. returnG (errs @ errs'))) w = (Ok errs, t, w') \<and>
      (errs = [] \<longleftrightarrow> list_all (\<lambda>e. \<not> failed e) t)"
    by (simp add: bindG_def returnG_def)
qed

lemma collects_concatMap: "(\<And>x. collects (f x)) \<Longrightarrow> collects (concatMapG f xs)"
  by (induction xs) (simp_all add: collects_return collects_bind)

text \<open>A part that only finds out what to do: it always returns, and no call it makes is reported.\<close>

lemma collects_after:
  assumes "\<And>w. \<exists>x t w'. m w = (Ok x, t, w') \<and> list_all (\<lambda>e. \<not> failed e) t" and "\<And>x. collects (f x)"
  shows "collects (bindG m f)"
  unfolding collects_def
proof
  fix w
  obtain x t w1 where m: "m w = (Ok x, t, w1)" "list_all (\<lambda>e. \<not> failed e) t" using assms(1) by blast
  obtain errs t' w2 where f: "f x w1 = (Ok errs, t', w2)" "errs = [] \<longleftrightarrow> list_all (\<lambda>e. \<not> failed e) t'"
    using assms(2) unfolding collects_def by blast
  from m f show "\<exists>errs t w'. bindG m f w = (Ok errs, t, w') \<and> (errs = [] \<longleftrightarrow> list_all (\<lambda>e. \<not> failed e) t)"
    by (simp add: bindG_def)
qed

lemma collects_call:
  assumes "\<And>e. failed (ev (Inl e))" and "\<And>x. \<not> failed (ev (Inr x))" and "\<And>x. collects (f x)"
  shows "collects (bindG (tryG (callG ev op)) (\<lambda>a. case a of Inl err \<Rightarrow> returnG [err] | Inr x \<Rightarrow> f x))"
  unfolding collects_def
proof
  fix w
  obtain a w1 where op: "op w = (a, w1)" by (cases "op w")
  show "\<exists>errs t w'. bindG (tryG (callG ev op)) (\<lambda>a. case a of Inl err \<Rightarrow> returnG [err] | Inr x \<Rightarrow> f x) w = (Ok errs, t, w') \<and>
      (errs = [] \<longleftrightarrow> list_all (\<lambda>e. \<not> failed e) t)"
  proof (cases a)
    case (Inl e)
    with op assms(1) show ?thesis by (simp add: go_defs)
  next
    case (Inr x)
    obtain errs t w2 where "f x w1 = (Ok errs, t, w2)" "errs = [] \<longleftrightarrow> list_all (\<lambda>e. \<not> failed e) t"
      using assms(3) unfolding collects_def by blast
    with op Inr assms(2) show ?thesis by (simp add: go_defs)
  qed
qed

lemma collects_if: "collects m \<Longrightarrow> collects n \<Longrightarrow> collects (if b then m else n)"
  by simp

lemma listResourcesWithLabel_silent:
  "\<exists>us t w'. listResourcesWithLabel K n key val w = (Ok us, t, w') \<and> list_all (\<lambda>e. \<not> failed e) t"
proof -
  obtain r t w' where run: "listResourcesWithLabel K n key val w = (r, t, w')"
    by (cases "listResourcesWithLabel K n key val w")
  have "safe (\<lambda>_ e. \<not> failed e) [] (listResourcesWithLabel K n key val)" by (rule safe_listResourcesWithLabel) auto
  then have t: "list_all (\<lambda>e. \<not> failed e) t" using run by (rule safe_list_all)
  show ?thesis
  proof (cases "getServerPreferredResources K w")
    case (fields r0 t0 w0)
    show ?thesis
    proof (cases r0)
      case (Ok rls)
      from listResourcesWithLabel_run [OF fields [unfolded Ok]] run t show ?thesis by fastforce
    next
      case (Err e)
      with fields run t show ?thesis by (auto simp: listResourcesWithLabel_def go_defs)
    next
      case (Panic p)
      have "safe (\<lambda>_ _. True) [] (getServerPreferredResources K)" by (rule safe_getServerPreferredResources) simp
      with fields Panic show ?thesis by (auto dest: safe_run)
    qed
  qed
qed

lemma collects_deleteResources: "collects (deleteResources K us)"
  unfolding deleteResources_def deleteObj_def by (intro collects_concatMap collects_call collects_return) auto

text \<open>The end of the loop body, after the deletions: read the namespace and take the annotation off.\<close>

lemma collects_cleanupNamespace: "collects (cleanupNamespace K nc ns)"
proof -
  let ?drop = "\<lambda>nsToUpdate. nsToUpdate\<lparr>ns_Annotations :=
      map_remove (ns_Annotations nsToUpdate) LastAppliedClassAnnotation\<rparr>"
  let ?rest = "bindG (tryG (getNs K (ns_Name ns))) (\<lambda>a. case a of
      Inl err \<Rightarrow> returnG [err]
    | Inr nsToUpdate \<Rightarrow> if ns_Annotations nsToUpdate \<noteq> None then
        bindG (tryG (updateNs K (?drop nsToUpdate))) (\<lambda>b. case b of Inl err \<Rightarrow> returnG [err] | Inr x \<Rightarrow> (\<lambda>_. returnG []) x)
      else returnG [])"
  have collect: "collects ?rest"
    unfolding getNs_def updateNs_def
    by (intro collects_call) (auto intro!: collects_call [simplified] collects_return)
  have append: "bindG (tryG (getNs K (ns_Name ns))) (\<lambda>a. case a of
        Inl err \<Rightarrow> returnG (errs @ [err])
      | Inr nsToUpdate \<Rightarrow> if ns_Annotations nsToUpdate \<noteq> None then
          bindG (tryG (updateNs K (?drop nsToUpdate))) (\<lambda>b. case b of Inl err \<Rightarrow> returnG (errs @ [err]) | Inr _ \<Rightarrow> returnG errs)
        else returnG errs) = bindG ?rest (\<lambda>errs'. returnG (errs @ errs'))" for errs
    by (simp add: bind_assoc bind_case_sum bind_if cong: sum.case_cong if_cong)
  show ?thesis
    unfolding cleanupNamespace_def append
    by (intro collects_if collects_return collects_after listResourcesWithLabel_silent collects_bind
        collects_deleteResources collect)
qed

lemma collects_cleanupNamespaces: "collects (cleanupNamespaces K nc)"
  unfolding cleanupNamespaces_def listNs_def
  by (intro collects_call collects_concatMap collects_cleanupNamespace) auto

lemma collects_removeFinalizer: "collects (removeFinalizer K nc)"
proof -
  have "collects (bindG (tryG (updateClass K (nc\<lparr>nc_Finalizers := remove1 NamespaceClassFinalizer (nc_Finalizers nc)\<rparr>)))
      (\<lambda>a. case a of Inl err \<Rightarrow> returnG [err] | Inr x \<Rightarrow> (\<lambda>_. returnG []) x))"
    unfolding updateClass_def by (intro collects_call collects_return) auto
  then show ?thesis by (simp add: removeFinalizer_eq collects_return)
qed

lemma handleFinalizerCleanup_requeue: "handleFinalizerCleanup K nc w = (Ok r, t, w') \<Longrightarrow> \<not> Requeue r"
  unfolding handleFinalizerCleanup_def
  by (auto elim!: bind_runE simp: Let_def returnG_def failG_def split: if_splits)

section \<open>Properties\<close>

text \<open>
  C22: the cleanup of a class that is being deleted reports every failure and only failures: it returns
  without an error exactly when the listing of the namespaces, every deletion, every read and
  update of a namespace and the update of the class succeeded, and no panic is possible.
\<close>

theorem handleFinalizerCleanup_errors:
  "case handleFinalizerCleanup K nc w of
     (Ok r, t, w') \<Rightarrow> \<not> Requeue r \<and> list_all (\<lambda>e. \<not> failed e) t
   | (Err e, t, w') \<Rightarrow> (\<exists>errs. e = EJoin errs \<and> errs \<noteq> []) \<and> \<not> list_all (\<lambda>e. \<not> failed e) t
   | (Panic p, t, w') \<Rightarrow> False"
proof -
  obtain errs1 t1 w1 where ns: "cleanupNamespaces K nc w = (Ok errs1, t1, w1)"
    "errs1 = [] \<longleftrightarrow> list_all (\<lambda>e. \<not> failed e) t1"
    using collects_cleanupNamespaces [of K nc] unfolding collects_def by blast
  obtain errs2 t2 w2 where fin: "removeFinalizer K nc w1 = (Ok errs2, t2, w2)"
    "errs2 = [] \<longleftrightarrow> list_all (\<lambda>e. \<not> failed e) t2"
    using collects_removeFinalizer [of K nc] unfolding collects_def by blast
  from ns fin show ?thesis
    by (cases "errs1 @ errs2 = []") (auto simp: handleFinalizerCleanup_def bindG_def returnG_def failG_def)
qed

fun is_updateClass :: "event \<Rightarrow> bool" where
  "is_updateClass (EvUpdateClass nc a) = True"
| "is_updateClass _ = False"

text \<open>
  C23: the finalizer is taken off whatever happened before: the last call of the cleanup is the update
  of the class without (one copy of) the finalizer whenever the class has it, also when
  deletions failed and the resources are still there, and the class is updated at no other time.
\<close>

theorem handleFinalizerCleanup_removes_finalizer:
  "\<exists>t1 t2. trace_of (handleFinalizerCleanup K nc) w = t1 @ t2 \<and> list_all (\<lambda>e. \<not> is_updateClass e) t1 \<and>
     (if NamespaceClassFinalizer \<in> set (nc_Finalizers nc)
      then \<exists>a. t2 = [EvUpdateClass (nc\<lparr>nc_Finalizers := remove1 NamespaceClassFinalizer (nc_Finalizers nc)\<rparr>) a]
      else t2 = [])"
proof -
  obtain errs1 t1 w1 where ns: "cleanupNamespaces K nc w = (Ok errs1, t1, w1)"
    using collects_cleanupNamespaces [of K nc] unfolding collects_def by blast
  have "safe (\<lambda>_ e. \<not> is_updateClass e) [] (cleanupNamespaces K nc)"
    unfolding cleanupNamespaces_def by (intro safe_intro) (auto elim: is_read.elims)
  then have t1: "list_all (\<lambda>e. \<not> is_updateClass e) t1" using ns by (rule safe_list_all)
  let ?nc = "nc\<lparr>nc_Finalizers := remove1 NamespaceClassFinalizer (nc_Finalizers nc)\<rparr>"
  obtain a w2 where "k_updateClass K ?nc w1 = (a, w2)" by (cases "k_updateClass K ?nc w1")
  with ns t1 show ?thesis
    by (intro exI [of _ t1] exI [of _ "if NamespaceClassFinalizer \<in> set (nc_Finalizers nc) then [EvUpdateClass ?nc a] else []"])
      (cases a; simp add: handleFinalizerCleanup_def removeFinalizer_eq updateClass_def go_defs)
qed

text \<open>
  Adding the finalizer and taking it off again is a round trip: a class without it is updated to
  one that has it at the end (and a requeue is asked for when that succeeded), a second call then
  does nothing, and the removal sends exactly the class as it was.
\<close>

theorem finalizer_roundtrip:
  assumes "NamespaceClassFinalizer \<notin> set (nc_Finalizers nc)"
    and "added = nc\<lparr>nc_Finalizers := nc_Finalizers nc @ [NamespaceClassFinalizer]\<rparr>"
  shows "(\<exists>a. trace_of (ensureFinalizerPresent K nc) w = [EvUpdateClass added a] \<and>
       (result_of (ensureFinalizerPresent K nc) w = Ok \<lparr>Requeue = True\<rparr> \<longleftrightarrow> a = Inr ())) \<and>
     ensureFinalizerPresent K added w = (Ok \<lparr>Requeue = False\<rparr>, [], w) \<and>
     (\<exists>b. trace_of (removeFinalizer K added) w = [EvUpdateClass nc b])"
proof -
  obtain a w1 where a: "k_updateClass K added w = (a, w1)" by (cases "k_updateClass K added w")
  have "remove1 NamespaceClassFinalizer (nc_Finalizers added) = nc_Finalizers nc"
    using assms by (simp add: remove1_append)
  then have nc: "added\<lparr>nc_Finalizers := remove1 NamespaceClassFinalizer (nc_Finalizers added)\<rparr> = nc"
    using assms(2) by simp
  obtain b w2 where b: "k_updateClass K nc w = (b, w2)" by (cases "k_updateClass K nc w")
  have "\<exists>a. trace_of (ensureFinalizerPresent K nc) w = [EvUpdateClass added a] \<and>
       (result_of (ensureFinalizerPresent K nc) w = Ok \<lparr>Requeue = True\<rparr> \<longleftrightarrow> a = Inr ())"
    using assms a by (cases a) (auto simp: ensureFinalizerPresent_def updateClass_def go_defs)
  moreover have "ensureFinalizerPresent K added w = (Ok \<lparr>Requeue = False\<rparr>, [], w)"
    using assms(2) by (simp add: ensureFinalizerPresent_def returnG_def)
  moreover have "\<exists>b. trace_of (removeFinalizer K added) w = [EvUpdateClass nc b]"
    unfolding removeFinalizer_eq nc using assms(2) b by (cases b) (auto simp: updateClass_def go_defs)
  ultimately show ?thesis by blast
qed

lemma finalizer_roundtrip_witness:
  "(\<exists>a. trace_of (ensureFinalizerPresent mem_kube (sample_class ''web'' [])) sample_cluster =
         [EvUpdateClass (sample_class ''web'' []\<lparr>nc_Finalizers := [NamespaceClassFinalizer]\<rparr>) a] \<and>
       (result_of (ensureFinalizerPresent mem_kube (sample_class ''web'' [])) sample_cluster = Ok \<lparr>Requeue = True\<rparr>
          \<longleftrightarrow> a = Inr ())) \<and>
     ensureFinalizerPresent mem_kube (sample_class ''web'' []\<lparr>nc_Finalizers := [NamespaceClassFinalizer]\<rparr>) sample_cluster =
       (Ok \<lparr>Requeue = False\<rparr>, [], sample_cluster) \<and>
     (\<exists>b. trace_of (removeFinalizer mem_kube (sample_class ''web'' []\<lparr>nc_Finalizers := [NamespaceClassFinalizer]\<rparr>)) sample_cluster =
       [EvUpdateClass (sample_class ''web'' []) b])"
  by (rule finalizer_roundtrip) (simp_all add: sample_class_def zero_NamespaceClass_def)

end
