(* ===== verification/Class_Controller.thy ===== *)
theory Class_Controller imports Class_Resources Class_Status Class_Annotations Class_Finalizer begin

text \<open>
  The reconciler: \<open>namespaceclass_controller.go\<close>.  \<open>Reconcile\<close> serves a request for a class or,
  when there is no class of that name, for a namespace; \<open>reconcileNamespaceWithClass\<close> brings one
  namespace in line with one class.
\<close>

section \<open>Applying the resources of a class\<close>

text \<open>The loop of \<open>reconcileNamespaceClassResources\<close>: the namespace is read again before each resource.\<close>

primrec applyResources :: "'w kube \<Rightarrow> NamespaceClass \<Rightarrow> Namespace \<Rightarrow> RawExtension list \<Rightarrow> ('w, unit) prog" where
  "applyResources K nc latestNamespace [] = returnG ()"
| "applyResources K nc latestNamespace (res # rest) =
     bindG (tryG (getNs K (ns_Name latestNamespace))) (\<lambda>a.
       case a of
         Inl err \<Rightarrow>
           if IsNotFound K err then returnG ()
           else failG (EWrap ''failed to get latest namespace state'' err)
       | Inr latest \<Rightarrow>
           if ns_DeletionTimestamp latest \<noteq> None then returnG ()
           else bindG (applyResourceToNamespace K latest nc res) (\<lambda>_. applyResources K nc latest rest))"

definition reconcileNamespaceClassResources :: "'w kube \<Rightarrow> Namespace \<Rightarrow> NamespaceClass \<Rightarrow> ('w, unit) prog" where
  "reconcileNamespaceClassResources K ns nc =
     (if ns_DeletionTimestamp ns \<noteq> None then returnG ()
      else
        bindG (tryG (getNs K (ns_Name ns))) (\<lambda>a.
          case a of
            Inl err \<Rightarrow>
              if IsNotFound K err then returnG ()
              else failG (EWrap ''failed to get latest namespace state'' err)
          | Inr latestNamespace \<Rightarrow>
              if ns_DeletionTimestamp latestNamespace \<noteq> None then returnG ()
              else
                let resources = Resources (Spec nc) in
                if length resources = 0 then returnG ()
                else
                  bindG (getCurrentNamespaceClassResources K latestNamespace nc) (\<lambda>currentResources.
                  applyResources K nc latestNamespace resources)))"

section \<open>One namespace and one class\<close>

text \<open>The goroutine that sleeps and then reconciles is an event; it runs as a request of its own.\<close>

definition triggerReconcile :: "string \<Rightarrow> ('w, unit) prog" where
  "triggerReconcile className = (if className = '''' then returnG () else emitG (EvSpawn className))"

definition reconcileNamespaceWithClass :: "'w kube \<Rightarrow> Namespace \<Rightarrow> NamespaceClass \<Rightarrow> ('w, unit) prog" where
  "reconcileNamespaceWithClass K ns nc =
     bindG (wrapG ''failed to get latest namespace state'' (getNs K (ns_Name ns))) (\<lambda>latestNamespace.
     let originalClass = (if ns_Annotations latestNamespace \<noteq> None
           then map_read (ns_Annotations latestNamespace) LastAppliedClassAnnotation else '''');
         currentClass = (if ns_Annotations latestNamespace \<noteq> None
           then map_read (ns_Annotations latestNamespace) CurrentClassAnnotation else '''') in
     bindG (if originalClass = '''' then
              bindG (setClassAnnotations K latestNamespace (nc_Name nc) (nc_Name nc)) (\<lambda>_. returnG (nc_Name nc))
            else returnG currentClass) (\<lambda>currentClass.
     let previousClass = currentClass in
     bindG (if currentClass \<noteq> '''' \<and> currentClass \<noteq> nc_Name nc then
              bindG (cleanupPreviousNamespaceClassResources K latestNamespace currentClass (nc_Name nc)) (\<lambda>_.
              bindG (updateCurrentClassAnnotation K latestNamespace (nc_Name nc)) (\<lambda>_.
              triggerReconcile previousClass))
            else if currentClass = '''' then updateCurrentClassAnnotation K latestNamespace (nc_Name nc)
            else returnG ()) (\<lambda>_.
     bindG (reconcileNamespaceClassResources K latestNamespace nc) (\<lambda>_.
     if previousClass \<noteq> '''' \<and> previousClass \<noteq> nc_Name nc then
       bindG (tryG (updateClassSwitchStatus K latestNamespace (nc_Name nc) previousClass)) (\<lambda>_. returnG ())
     else returnG ()))))"

section \<open>A request\<close>

definition getNamespace :: "'w kube \<Rightarrow> string \<Rightarrow> ('w, Namespace) prog" where
  "getNamespace K namespaceName = getNs K namespaceName"

definition getNamespaceClass :: "'w kube \<Rightarrow> Namespace \<Rightarrow> ('w, NamespaceClass option) prog" where
  "getNamespaceClass K ns =
     (let namespaceLabelValue = map_read (ns_Labels ns) NamespaceClassLabel in
      if namespaceLabelValue = '''' then returnG None
      else bindG (getClass K (byName namespaceLabelValue)) (\<lambda>nc. returnG (Some nc)))"

text \<open>The part of \<open>Reconcile\<close> for a request that names a class.\<close>

definition reconcileClassRequest :: "'w kube \<Rightarrow> NamespaceClass \<Rightarrow> ('w, Result) prog" where
  "reconcileClassRequest K namespaceClass =
     bindG (listNs K NamespaceClassLabel (nc_Name namespaceClass)) (\<lambda>namespaceList.
     bindG (forG (\<lambda>ns. bindG (tryG (reconcileNamespaceWithClass K ns namespaceClass)) (\<lambda>_. returnG ()))
              namespaceList) (\<lambda>_.
     bindG (if \<not> IsZero (nc_DeletionTimestamp namespaceClass)
            then reconcileNamespaceClassFinalizer K namespaceClass
            else returnG \<lparr>Requeue = False\<rparr>) (\<lambda>result.
     if Requeue result then returnG result
     else
       bindG (updateNamespaceClassStatus K namespaceClass) (\<lambda>_.
       returnG \<lparr>Requeue = False\<rparr>))))"

text \<open>The part of \<open>Reconcile\<close> for a request that names no class.\<close>

definition reconcileNamespaceRequest :: "'w kube \<Rightarrow> string \<Rightarrow> ('w, Result) prog" where
  "reconcileNamespaceRequest K name =
     bindG (tryG (getNamespace K name)) (\<lambda>a.
       case a of
         Inl err \<Rightarrow> if \<not> IsNotFound K err then failG err else returnG \<lparr>Requeue = False\<rparr>
       | Inr ns \<Rightarrow>
           if ns_DeletionTimestamp ns \<noteq> None then returnG \<lparr>Requeue = False\<rparr>
           else
             bindG (getNamespaceClass K ns) (\<lambda>currentNamespaceClass.
             case currentNamespaceClass of
               None \<Rightarrow> returnG \<lparr>Requeue = False\<rparr>
             | Some nc \<Rightarrow>
                 bindG (reconcileNamespaceWithClass K ns nc) (\<lambda>_.
                 returnG \<lparr>Requeue = False\<rparr>)))"

definition Reconcile :: "'w kube \<Rightarrow> NamespacedName \<Rightarrow> ('w, Result) prog" where
  "Reconcile K req =
     bindG (tryG (getClass K req)) (\<lambda>a.
       case a of
         Inr namespaceClass \<Rightarrow> reconcileClassRequest K namespaceClass
       | Inl err \<Rightarrow>
           if \<not> IsNotFound K err then failG err
           else reconcileNamespaceRequest K (nn_Name req))"

section \<open>What applying emits\<close>

text \<open>
  \<open>live_write K n c h e\<close>: the event \<open>e\<close> creates or updates an object that carries the owner
  label \<open>c\<close>, in the namespace that the history \<open>h\<close> read last before it and found not to be
  deleted; by the client's contract that namespace is \<open>n\<close>.
\<close>

definition live_write :: "'w kube \<Rightarrow> string \<Rightarrow> string \<Rightarrow> event list \<Rightarrow> event \<Rightarrow> bool" where
  "live_write K n c h e \<longleftrightarrow>
     (\<exists>h0 m ns t u. h = h0 @ EvGetNs m (Inr ns) # t \<and> list_all is_getObj t \<and> ns_DeletionTimestamp ns = None \<and>
        applied e = Some u \<and> owned_by (ns_Name ns) c u \<and> (kube_client K \<longrightarrow> m = n \<and> ns_Name ns = n))"

lemma live_writeI:
  assumes "list_all is_getObj t" and "ns_DeletionTimestamp ns = None" and "applied e = Some u"
    and "owned_by (ns_Name ns) c u" and "\<exists>w w'. k_getNs K n w = (Inr ns, w')"
  shows "live_write K n c ((h @ [EvGetNs n (Inr ns)]) @ t) e"
  unfolding live_write_def using assms
  by (intro exI [of _ h] exI [of _ n] exI [of _ ns] exI [of _ t] exI [of _ u]) (auto dest: kube_client.getNs_name)

lemma live_write_name: "live_write K n c h e \<Longrightarrow> (kube_client K \<Longrightarrow> n = n') \<Longrightarrow> live_write K n' c h e"
  unfolding live_write_def by blast

lemma live_write_owned:
  "kube_client K \<Longrightarrow> live_write K n c h e \<Longrightarrow> \<exists>u. applied e = Some u \<and> owned_by n c u"
  unfolding live_write_def by blast

lemma live_write_live:
  "kube_client K \<Longrightarrow> live_write K n c h e \<Longrightarrow> \<exists>ns. lastRead n h = Some ns \<and> ns_DeletionTimestamp ns = None"
  unfolding live_write_def by (blast intro: lastRead_getNs)

lemma live_write_not_read [dest]: "live_write K n c h e \<Longrightarrow> \<exists>u. applied e = Some u"
  unfolding live_write_def by blast

lemma safe_applyResources:
  assumes "\<And>h' e. ext h h' \<Longrightarrow> is_read e \<Longrightarrow> P h' e"
    and "\<And>h' e. ext h h' \<Longrightarrow> live_write K (ns_Name latest) (nc_Name nc) h' e \<Longrightarrow> P h' e"
  shows "safe P h (applyResources K nc latest rs)"
  using assms
proof (induction rs arbitrary: h latest)
  case Nil
  show ?case by (simp add: safe_intro)
next
  case (Cons r rs)
  let ?h = "\<lambda>ns. h @ [EvGetNs (ns_Name latest) (Inr ns)]"
  have step: "safe P (?h ns) (applyResourceToNamespace K ns nc r)"
    if "ns_DeletionTimestamp ns = None" and "\<exists>w w'. k_getNs K (ns_Name latest) w = (Inr ns, w')" for ns
  proof (rule safe_applyResourceToNamespace)
    fix h' gvk n m a
    assume "ext (?h ns) h'"
    then show "P h' (EvGetObj gvk n m a)" by (intro Cons.prems(1)) auto
  next
    fix t u e
    assume "list_all is_getObj t" "owned_by (ns_Name ns) (nc_Name nc) u" "applied e = Some u"
    with that show "P (?h ns @ t) e" by (intro Cons.prems(2) live_writeI) auto
  qed
  have rest: "safe P (?h ns @ t) (applyResources K nc ns rs)"
    if "\<exists>w w'. k_getNs K (ns_Name latest) w = (Inr ns, w')" for ns t
  proof (rule Cons.IH)
    fix h' e
    assume "ext (?h ns @ t) h'" and "is_read e"
    then show "P h' e" by (blast intro: Cons.prems(1) dest: ext_appendD)
  next
    fix h' e
    assume "ext (?h ns @ t) h'" and "live_write K (ns_Name ns) (nc_Name nc) h' e"
    with that show "P h' e"
      by (blast intro: Cons.prems(2) live_write_name dest: ext_appendD kube_client.getNs_name)
  qed
  show ?case
    by (simp, intro safe_bind safe_try safe_getNs safe_case_sum safe_if safe_return safe_fail)
      (auto simp: yields_simp intro: Cons.prems(1) step rest [simplified])
qed

lemma safe_reconcileNamespaceClassResources:
  assumes reads: "\<And>h' e. ext h h' \<Longrightarrow> is_read e \<Longrightarrow> P h' e"
    and writes: "\<And>h' e. ext h h' \<Longrightarrow> live_write K (ns_Name ns) (nc_Name nc) h' e \<Longrightarrow> P h' e"
  shows "safe P h (reconcileNamespaceClassResources K ns nc)"
proof -
  let ?h = "\<lambda>l. h @ [EvGetNs (ns_Name ns) (Inr l)]"
  have loop: "safe P (?h l @ t) (applyResources K nc l rs)"
    if "\<exists>w w'. k_getNs K (ns_Name ns) w = (Inr l, w')" for l t rs
  proof (rule safe_applyResources)
    fix h' e
    assume "ext (?h l @ t) h'" and "is_read e"
    then show "P h' e" by (blast intro: reads dest: ext_appendD)
  next
    fix h' e
    assume "ext (?h l @ t) h'" and "live_write K (ns_Name l) (nc_Name nc) h' e"
    with that show "P h' e"
      by (blast intro: writes live_write_name dest: ext_appendD kube_client.getNs_name)
  qed
  show ?thesis
    unfolding reconcileNamespaceClassResources_def Let_def
    by (intro safe_bind safe_try safe_getNs safe_case_sum safe_if safe_return safe_fail
        safe_getCurrentNamespaceClassResources)
      (auto simp: yields_simp intro: reads loop [simplified])
qed

section \<open>What reconciling a namespace emits\<close>

text \<open>
  \<open>switching latest c prev\<close>: the namespace, as read, was set up before and its current class is
  \<open>prev\<close>, another one than \<open>c\<close>.
\<close>

definition switching :: "Namespace \<Rightarrow> string \<Rightarrow> string \<Rightarrow> bool" where
  "switching latest c prev \<longleftrightarrow>
     map_read (ns_Annotations latest) LastAppliedClassAnnotation \<noteq> '''' \<and>
     prev = map_read (ns_Annotations latest) CurrentClassAnnotation \<and> prev \<noteq> '''' \<and> prev \<noteq> c"

lemma map_read_guarded [simp]: "(if m \<noteq> None then map_read m k else '''') = map_read m k"
  by (simp add: map_read_def)

section \<open>The contract of a reconciliation\<close>

text \<open>
  What each event of reconciling the namespace \<open>n\<close> with the class \<open>c\<close> has to rest on, in the
  history \<open>h\<close> of events before it.
\<close>

definition switched_from :: "string \<Rightarrow> string \<Rightarrow> event list \<Rightarrow> string \<Rightarrow> bool" where
  "switched_from n c h prev \<longleftrightarrow> (\<exists>latest. EvGetNs n (Inr latest) \<in> set h \<and> switching latest c prev)"

fun namespace_contract :: "'w kube \<Rightarrow> string \<Rightarrow> string \<Rightarrow> event list \<Rightarrow> event \<Rightarrow> bool" where
  "namespace_contract K n c h (EvUpdateNs new a) \<longleftrightarrow>
     (\<exists>m latest edit. EvGetNs m (Inr latest) \<in> set h \<and> edit \<in> {setEdit c c, switchEdit c} \<and>
        new = latest\<lparr>ns_Annotations := edit (ns_Annotations latest)\<rparr>)"
| "namespace_contract K n c h (EvDelete u a) \<longleftrightarrow>
     (\<exists>latest prev. EvGetNs n (Inr latest) \<in> set h \<and> switching latest c prev \<and>
        (dropped K h (ns_Name latest) prev c u \<or> orphaned K h (ns_Name latest) prev u))"
| "namespace_contract K n c h (EvCreate u a) \<longleftrightarrow> live_write K n c h (EvCreate u a)"
| "namespace_contract K n c h (EvUpdateObj u a) \<longleftrightarrow> live_write K n c h (EvUpdateObj u a)"
| "namespace_contract K n c h (EvSpawn prev) \<longleftrightarrow> switched_from n c h prev"
| "namespace_contract K n c h (EvPatchStatus base new a) \<longleftrightarrow>
     status_patch K base new \<and> EvGetClass (byName c) (Inr base) \<in> set h"
| "namespace_contract K n c h (EvUpdateClass nc a) \<longleftrightarrow> False"
| "namespace_contract K n c h (EvWatch m gvk a) \<longleftrightarrow> False"
| "namespace_contract K n c h (EvManage m a) \<longleftrightarrow> False"
| "namespace_contract K n c h _ \<longleftrightarrow> True"

lemma contract_read [intro]: "is_read e \<Longrightarrow> namespace_contract K n c h e"
  by (cases e) auto

lemma contract_live [intro]: "live_write K n c h e \<Longrightarrow> namespace_contract K n c h e"
  by (cases e) (auto simp: live_write_def)

lemma contract_edit:
  assumes "EvGetNs m (Inr latest) \<in> set h" and "edit \<in> {setEdit c c, switchEdit c}"
  shows "namespace_contract K n c h (EvUpdateNs (latest\<lparr>ns_Annotations := edit (ns_Annotations latest)\<rparr>) a)"
  using assms by (simp del: insert_iff) blast

lemma safe_reconcileNamespaceWithClass:
  assumes contract: "\<And>h' e. ext h h' \<Longrightarrow> namespace_contract K (ns_Name ns) (nc_Name nc) h' e \<Longrightarrow> P h' e"
  shows "safe P h (reconcileNamespaceWithClass K ns nc)"
proof -
  let ?get = "wrapG ''failed to get latest namespace state'' (getNs K (ns_Name ns))"
  have seen: "EvGetNs (ns_Name ns) (Inr latest) \<in> set h'" if "yields ?get latest t0" and "ext (h @ t0) h'"
    for latest t0 h'
    using that by (auto simp: yields_simp dest: ext_snocD)
  have named: "kube_client K \<Longrightarrow> ns_Name latest = ns_Name ns" if "yields ?get latest t0" for latest t0
    using that by (auto simp: yields_simp dest: kube_client.getNs_name)
  have cur: "switching latest (nc_Name nc) prev"
    if "yields (if map_read (ns_Annotations latest) LastAppliedClassAnnotation = ''''
                then bindG (setClassAnnotations K latest (nc_Name nc) (nc_Name nc)) (\<lambda>_. returnG (nc_Name nc))
                else returnG (map_read (ns_Annotations latest) CurrentClassAnnotation)) prev t"
      and "prev \<noteq> '''' \<and> prev \<noteq> nc_Name nc" for latest prev t
    using that by (auto simp: switching_def yields_simp split: if_splits dest!: yields_bindD)
  have cleanup: "safe P ((h @ t0) @ t) (cleanupPreviousNamespaceClassResources K latest prev (nc_Name nc))"
    if "yields ?get latest t0" and "switching latest (nc_Name nc) prev" for latest prev t0 t
  proof (rule safe_cleanupPrevious)
    fix h' u a
    assume h': "ext ((h @ t0) @ t) h'"
    have "EvGetNs (ns_Name ns) (Inr latest) \<in> set h'" using seen that(1) h' by (blast dest: ext_appendD)
    moreover have "ext h h'" using h' by (blast dest: ext_appendD)
    moreover assume "dropped K h' (ns_Name latest) prev (nc_Name nc) u"
    ultimately show "P h' (EvDelete u a)" using that(2) by (intro contract) auto
  next
    fix h' u a
    assume h': "ext ((h @ t0) @ t) h'"
    have "EvGetNs (ns_Name ns) (Inr latest) \<in> set h'" using seen that(1) h' by (blast dest: ext_appendD)
    moreover have "ext h h'" using h' by (blast dest: ext_appendD)
    moreover assume "orphaned K h' (ns_Name latest) prev u"
    ultimately show "P h' (EvDelete u a)" using that(2) by (intro contract) auto
  qed (blast intro: contract contract_read is_read.simps [THEN iffD2] dest: ext_appendD)+
  have resources: "safe P (((h @ t0) @ t) @ t') (reconcileNamespaceClassResources K latest nc)"
    if "yields ?get latest t0" for latest t0 t t'
  proof (rule safe_reconcileNamespaceClassResources)
    fix h' e
    assume "ext (((h @ t0) @ t) @ t') h'" and "is_read e"
    then show "P h' e" by (blast intro: contract contract_read dest: ext_appendD)
  next
    fix h' e
    assume "ext (((h @ t0) @ t) @ t') h'" and "live_write K (ns_Name latest) (nc_Name nc) h' e"
    with that show "P h' e" by (blast intro: contract contract_live live_write_name dest: ext_appendD named)
  qed
  have trigger: "safe P h' (triggerReconcile prev)"
    if "yields ?get latest t0" and "switching latest (nc_Name nc) prev" and "ext (h @ t0) h'" for latest prev t0 h'
    using that unfolding triggerReconcile_def by (intro safe_intro) (auto intro!: contract seen simp: switched_from_def)
  show ?thesis
    unfolding reconcileNamespaceWithClass_def Let_def map_read_guarded
    by (intro safe_bind safe_wrap safe_getNs safe_setClassAnnotations safe_updateCurrentClassAnnotation safe_try safe_if
        safe_return safe_updateClassSwitchStatus cleanup resources trigger)
      (auto intro: contract cur contract_edit [where edit = "setEdit (nc_Name nc) (nc_Name nc)"]
        contract_edit [where edit = "switchEdit (nc_Name nc)"])
qed

section \<open>The contract of a request\<close>

text \<open>The events of the finalizer, of a class \<open>nc\<close> that is being deleted.\<close>

fun finalizer_contract :: "'w kube \<Rightarrow> NamespaceClass \<Rightarrow> event list \<Rightarrow> event \<Rightarrow> bool" where
  "finalizer_contract K nc h (EvDelete u a) \<longleftrightarrow>
     (\<exists>nss ns. EvListNs NamespaceClassLabel (nc_Name nc) (Inr nss) \<in> set h \<and> ns \<in> set nss \<and>
        ns_DeletionTimestamp ns = None \<and> listed h (ns_Name ns) (nc_Name nc) u)"
| "finalizer_contract K nc h (EvUpdateNs new a) \<longleftrightarrow>
     (\<exists>n latest. EvGetNs n (Inr latest) \<in> set h \<and>
        new = latest\<lparr>ns_Annotations := map_remove (ns_Annotations latest) LastAppliedClassAnnotation\<rparr>)"
| "finalizer_contract K nc h (EvUpdateClass new a) \<longleftrightarrow>
     NamespaceClassFinalizer \<in> set (nc_Finalizers nc) \<and>
     new = nc\<lparr>nc_Finalizers := remove1 NamespaceClassFinalizer (nc_Finalizers nc)\<rparr>"
| "finalizer_contract K nc h e \<longleftrightarrow> is_read e"

fun report_contract :: "'w kube \<Rightarrow> NamespaceClass \<Rightarrow> event list \<Rightarrow> event \<Rightarrow> bool" where
  "report_contract K nc h (EvPatchStatus base new a) \<longleftrightarrow>
     status_patch K base new \<and> EvGetClass (byName (nc_Name nc)) (Inr base) \<in> set h \<and>
     (\<exists>nss. EvListNs NamespaceClassLabel (nc_Name nc) (Inr nss) \<in> set h \<and>
        Namespaces (Status new) = buildStatusEntries base nss)"
| "report_contract K nc h e \<longleftrightarrow> is_read e"

definition class_contract :: "'w kube \<Rightarrow> NamespaceClass \<Rightarrow> event list \<Rightarrow> event \<Rightarrow> bool" where
  "class_contract K nc h e \<longleftrightarrow>
     is_read e \<or>
     (\<exists>nss ns. EvListNs NamespaceClassLabel (nc_Name nc) (Inr nss) \<in> set h \<and> ns \<in> set nss \<and>
        (kube_client K \<longrightarrow> has_label (ns_Labels ns) NamespaceClassLabel (nc_Name nc)) \<and>
        namespace_contract K (ns_Name ns) (nc_Name nc) h e) \<or>
     (\<not> IsZero (nc_DeletionTimestamp nc) \<and> finalizer_contract K nc h e) \<or>
     report_contract K nc h e"

definition request_contract :: "'w kube \<Rightarrow> NamespacedName \<Rightarrow> event list \<Rightarrow> event \<Rightarrow> bool" where
  "request_contract K req h e \<longleftrightarrow>
     is_read e \<or>
     (\<exists>nc. EvGetClass req (Inr nc) \<in> set h \<and> class_contract K nc h e) \<or>
     (\<exists>err ns nc. EvGetClass req (Inl err) \<in> set h \<and> IsNotFound K err \<and>
        EvGetNs (nn_Name req) (Inr ns) \<in> set h \<and> ns_DeletionTimestamp ns = None \<and>
        map_read (ns_Labels ns) NamespaceClassLabel \<noteq> '''' \<and>
        EvGetClass (byName (map_read (ns_Labels ns) NamespaceClassLabel)) (Inr nc) \<in> set h \<and>
        (kube_client K \<longrightarrow> nc_Name nc = map_read (ns_Labels ns) NamespaceClassLabel) \<and>
        namespace_contract K (ns_Name ns) (nc_Name nc) h e)"

lemma request_contractE:
  assumes "request_contract K req h e"
  obtains (read) "is_read e"
    | (member) nc nss ns where "EvGetClass req (Inr nc) \<in> set h"
        "EvListNs NamespaceClassLabel (nc_Name nc) (Inr nss) \<in> set h" "ns \<in> set nss"
        "kube_client K \<longrightarrow> has_label (ns_Labels ns) NamespaceClassLabel (nc_Name nc)"
        "namespace_contract K (ns_Name ns) (nc_Name nc) h e"
    | (finalizer) nc where "EvGetClass req (Inr nc) \<in> set h" "\<not> IsZero (nc_DeletionTimestamp nc)"
        "finalizer_contract K nc h e"
    | (report) nc where "EvGetClass req (Inr nc) \<in> set h" "report_contract K nc h e"
    | (own) err ns nc where "EvGetClass req (Inl err) \<in> set h" "IsNotFound K err"
        "EvGetNs (nn_Name req) (Inr ns) \<in> set h" "ns_DeletionTimestamp ns = None"
        "map_read (ns_Labels ns) NamespaceClassLabel \<noteq> ''''"
        "EvGetClass (byName (map_read (ns_Labels ns) NamespaceClassLabel)) (Inr nc) \<in> set h"
        "kube_client K \<longrightarrow> nc_Name nc = map_read (ns_Labels ns) NamespaceClassLabel"
        "namespace_contract K (ns_Name ns) (nc_Name nc) h e"
  using assms unfolding request_contract_def class_contract_def by blast

lemma finalizer_contract_read [intro]: "is_read e \<Longrightarrow> finalizer_contract K nc h e"
  by (cases e) auto

lemma report_contract_read [intro]: "is_read e \<Longrightarrow> report_contract K nc h e"
  by (cases e) auto

lemma safe_reconcileClassRequest:
  assumes contract: "\<And>h' e. ext h h' \<Longrightarrow> class_contract K nc h' e \<Longrightarrow> P h' e"
  shows "safe P h (reconcileClassRequest K nc)"
proof -
  have ns: "safe P (h @ EvListNs NamespaceClassLabel (nc_Name nc) (Inr nss) # t) (reconcileNamespaceWithClass K ns nc)"
    if "ns \<in> set nss" and answer: "\<exists>w w'. k_listNs K NamespaceClassLabel (nc_Name nc) w = (Inr nss, w')" for nss ns t
  proof (rule safe_reconcileNamespaceWithClass)
    fix h' e
    assume h': "ext (h @ EvListNs NamespaceClassLabel (nc_Name nc) (Inr nss) # t) h'"
      and "namespace_contract K (ns_Name ns) (nc_Name nc) h' e"
    from h' have "EvListNs NamespaceClassLabel (nc_Name nc) (Inr nss) \<in> set h'" by (auto intro: ext_set)
    moreover have "kube_client K \<longrightarrow> has_label (ns_Labels ns) NamespaceClassLabel (nc_Name nc)"
      using answer \<open>ns \<in> set nss\<close> by (blast dest: kube_client.listNs_label)
    ultimately have "class_contract K nc h' e"
      using \<open>ns \<in> set nss\<close> \<open>namespace_contract K _ _ h' e\<close> unfolding class_contract_def by blast
    with h' show "P h' e" by (blast intro: contract dest: ext_appendD)
  qed
  have final: "safe P h' (reconcileNamespaceClassFinalizer K nc)"
    if "\<not> IsZero (nc_DeletionTimestamp nc)" and h': "ext h h'" for h'
  proof (rule safe_reconcileNamespaceClassFinalizer_deleting [OF that(1)])
    have sub: "P h'' e" if "ext h' h''" and "finalizer_contract K nc h'' e" for h'' e
      using that h' \<open>\<not> IsZero _\<close> by (intro contract) (auto simp: class_contract_def intro: ext_trans)
    show "safe P h' (handleFinalizerCleanup K nc)"
      by (rule safe_handleFinalizerCleanup) (auto intro!: sub, blast+)
  qed
  have report: "safe P h' (updateNamespaceClassStatus K nc)" if h': "ext h h'" for h'
  proof -
    have sub: "P h'' e" if "ext h' h''" and "report_contract K nc h'' e" for h'' e
      using that h' by (intro contract) (auto simp: class_contract_def intro: ext_trans)
    show ?thesis by (rule safe_updateNamespaceClassStatus) (auto intro!: sub)
  qed
  show ?thesis
    unfolding reconcileClassRequest_def
    by (intro safe_bind safe_listNs safe_for safe_try safe_if safe_return final report)
      (auto simp: yields_simp class_contract_def intro: contract ns)
qed

lemma safe_reconcileNamespaceRequest:
  assumes reads: "\<And>h' e. ext h h' \<Longrightarrow> is_read e \<Longrightarrow> P h' e"
    and contract: "\<And>h' ns nc e. ext h h' \<Longrightarrow> EvGetNs name (Inr ns) \<in> set h' \<Longrightarrow> ns_DeletionTimestamp ns = None \<Longrightarrow>
        map_read (ns_Labels ns) NamespaceClassLabel \<noteq> '''' \<Longrightarrow>
        EvGetClass (byName (map_read (ns_Labels ns) NamespaceClassLabel)) (Inr nc) \<in> set h' \<Longrightarrow>
        (kube_client K \<longrightarrow> nc_Name nc = map_read (ns_Labels ns) NamespaceClassLabel) \<Longrightarrow>
        namespace_contract K (ns_Name ns) (nc_Name nc) h' e \<Longrightarrow> P h' e"
  shows "safe P h (reconcileNamespaceRequest K name)"
proof -
  have ns: "safe P ((h @ [EvGetNs name (Inr ns)]) @ t) (reconcileNamespaceWithClass K ns nc)"
    if "yields (getNamespaceClass K ns) (Some nc) t" and "ns_DeletionTimestamp ns = None" for ns nc t
  proof (rule safe_reconcileNamespaceWithClass)
    fix h' e
    assume h': "ext ((h @ [EvGetNs name (Inr ns)]) @ t) h'"
      and e: "namespace_contract K (ns_Name ns) (nc_Name nc) h' e"
    let ?c = "map_read (ns_Labels ns) NamespaceClassLabel"
    have "?c \<noteq> ''''" and cls: "yields (getClass K (byName ?c)) nc t"
      using that(1) by (auto simp: getNamespaceClass_def Let_def yields_return split: if_splits dest!: yields_bindD)
    then have "EvGetClass (byName ?c) (Inr nc) \<in> set t" by (simp add: yields_simp)
    have name: "kube_client K \<longrightarrow> nc_Name nc = ?c"
      using kube_client.yields_getClass_name [OF _ cls] by (simp add: byName_def)
    note \<open>EvGetClass (byName ?c) (Inr nc) \<in> set t\<close>
    with h' have "EvGetNs name (Inr ns) \<in> set h'" "EvGetClass (byName ?c) (Inr nc) \<in> set h'"
      by (auto intro: ext_set)
    moreover have "ext h h'" using h' by (blast dest: ext_appendD)
    ultimately show "P h' e" using contract that(2) \<open>?c \<noteq> ''''\<close> name e by blast
  qed
  show ?thesis
    unfolding reconcileNamespaceRequest_def getNamespace_def
  proof (intro safe_bind safe_try safe_getNs safe_case_sum safe_if safe_return safe_fail safe_case_option, goal_cases)
    case (2 a t ns)
    then show ?case
      unfolding getNamespaceClass_def Let_def by (intro safe_intro) (auto intro: reads)
  qed (auto simp: yields_simp intro: reads ns [simplified])
qed

lemma Reconcile_safe: "safe (request_contract K req) [] (Reconcile K req)"
proof -
  have cls: "safe (request_contract K req) t (reconcileClassRequest K nc)"
    if "yields (tryG (getClass K req)) (Inr nc) t" for nc t
    using that by (intro safe_reconcileClassRequest) (auto simp: yields_simp request_contract_def dest: ext_snocD [where h = "[]", simplified])
  have ns: "safe (request_contract K req) t (reconcileNamespaceRequest K (nn_Name req))"
    if "yields (tryG (getClass K req)) (Inl err) t" and "IsNotFound K err" for err t
  proof (rule safe_reconcileNamespaceRequest)
    fix h' ns nc e
    assume "ext t h'" "EvGetNs (nn_Name req) (Inr ns) \<in> set h'" "ns_DeletionTimestamp ns = None"
      "map_read (ns_Labels ns) NamespaceClassLabel \<noteq> ''''"
      "EvGetClass (byName (map_read (ns_Labels ns) NamespaceClassLabel)) (Inr nc) \<in> set h'"
      "kube_client K \<longrightarrow> nc_Name nc = map_read (ns_Labels ns) NamespaceClassLabel"
      "namespace_contract K (ns_Name ns) (nc_Name nc) h' e"
    moreover from \<open>ext t h'\<close> have "EvGetClass req (Inl err) \<in> set h'"
      using that(1) by (auto simp: yields_simp intro: ext_set)
    ultimately show "request_contract K req h' e"
      unfolding request_contract_def using that(2) by blast
  qed (simp add: request_contract_def)
  show ?thesis
    unfolding Reconcile_def
    by (intro safe_bind safe_try safe_getClass safe_case_sum safe_if safe_fail)
      (auto simp: request_contract_def intro: cls [simplified] ns [simplified])
qed

end
