(* ===== verification/Reconcile_Branches.thy ===== *)
theory Reconcile_Branches imports Class_Controller begin

text \<open>
  The branches of a reconciliation: what \<open>reconcileNamespaceWithClass\<close> does with a namespace that
  has no class yet, with one that is in its class, and with one that changes its class; the order of
  its writes; and what happens when the cleanup of the old class fails.
\<close>

section \<open>The four cases of a namespace\<close>

text \<open>
  The reference: from the namespace as read, \<open>orig\<close> and \<open>cur\<close> are the last applied and the
  current class of its annotations, \<open>c\<close> is the class to bring it in line with.
\<close>

definition reconcileLatest :: "'w kube \<Rightarrow> NamespaceClass \<Rightarrow> Namespace \<Rightarrow> ('w, unit) prog" where
  "reconcileLatest K nc latest =
     (let c = nc_Name nc;
          orig = map_read (ns_Annotations latest) LastAppliedClassAnnotation;
          cur = map_read (ns_Annotations latest) CurrentClassAnnotation;
          resources = reconcileNamespaceClassResources K latest nc in
      if orig = '''' then
        bindG (setClassAnnotations K latest c c) (\<lambda>_.
        bindG (if c = '''' then updateCurrentClassAnnotation K latest c else returnG ()) (\<lambda>_. resources))
      else if cur = '''' then bindG (updateCurrentClassAnnotation K latest c) (\<lambda>_. resources)
      else if cur \<noteq> c then
        bindG (cleanupPreviousNamespaceClassResources K latest cur c) (\<lambda>_.
        bindG (updateCurrentClassAnnotation K latest c) (\<lambda>_.
        bindG (emitG (EvSpawn cur)) (\<lambda>_.
        bindG resources (\<lambda>_.
        bindG (tryG (updateClassSwitchStatus K latest c cur)) (\<lambda>_. returnG ())))))
      else resources)"

lemma reconcile_eq:
  "reconcileNamespaceWithClass K ns nc =
     bindG (wrapG ''failed to get latest namespace state'' (getNs K (ns_Name ns))) (reconcileLatest K nc)"
proof (unfold reconcileNamespaceWithClass_def, rule arg_cong [where f = "bindG _"], rule ext)
  fix latest
  show "(let originalClass = (if ns_Annotations latest \<noteq> None
           then map_read (ns_Annotations latest) LastAppliedClassAnnotation else '''');
         currentClass = (if ns_Annotations latest \<noteq> None
           then map_read (ns_Annotations latest) CurrentClassAnnotation else '''') in
     bindG (if originalClass = '''' then
              bindG (setClassAnnotations K latest (nc_Name nc) (nc_Name nc)) (\<lambda>_. returnG (nc_Name nc))
            else returnG currentClass) (\<lambda>currentClass.
     let previousClass = currentClass in
     bindG (if currentClass \<noteq> '''' \<and> currentClass \<noteq> nc_Name nc then
              bindG (cleanupPreviousNamespaceClassResources K latest currentClass (nc_Name nc)) (\<lambda>_.
              bindG (updateCurrentClassAnnotation K latest (nc_Name nc)) (\<lambda>_.
              triggerReconcile previousClass))
            else if currentClass = '''' then updateCurrentClassAnnotation K latest (nc_Name nc)
            else returnG ()) (\<lambda>_.
     bindG (reconcileNamespaceClassResources K latest nc) (\<lambda>_.
     if previousClass \<noteq> '''' \<and> previousClass \<noteq> nc_Name nc then
       bindG (tryG (updateClassSwitchStatus K latest (nc_Name nc) previousClass)) (\<lambda>_. returnG ())
     else returnG ())))) = reconcileLatest K nc latest"
    unfolding Let_def map_read_guarded reconcileLatest_def
    by (auto simp: bind_assoc triggerReconcile_def bind_unit)
qed

text \<open>
  C17: reconciling a namespace with a class is one read of the namespace and then exactly one of four
  courses: a namespace without a last applied class is annotated and gets the resources; one whose
  current class is not recorded gets it recorded and gets the resources; one whose current class is
  another one is cleaned up, annotated, the other class is queued, the resources are applied and the
  switch is reported (a failure of that report is dropped); one that is in the class gets the
  resources.
\<close>

theorem reconcileNamespaceWithClass_cases:
  "reconcileNamespaceWithClass K ns nc =
     bindG (wrapG ''failed to get latest namespace state'' (getNs K (ns_Name ns))) (reconcileLatest K nc)"
  by (rule reconcile_eq)

lemma reconcile_run:
  assumes "k_getNs K (ns_Name ns) w = (Inr latest, w0)"
  shows "reconcileNamespaceWithClass K ns nc w =
    (case reconcileLatest K nc latest w0 of (r, t, w') \<Rightarrow> (r, EvGetNs (ns_Name ns) (Inr latest) # t, w'))"
  using assms unfolding reconcile_eq getNs_def go_defs
  by (auto split: prod.split)

lemma switching_iff:
  "switching latest c prev \<longleftrightarrow>
     map_read (ns_Annotations latest) LastAppliedClassAnnotation \<noteq> '''' \<and>
     map_read (ns_Annotations latest) CurrentClassAnnotation = prev \<and> prev \<notin> {'''', c}"
  by (auto simp: switching_def)

section \<open>A cleanup that fails\<close>



section \<open>Without a switch nothing is deleted\<close>

fun is_delete :: "event \<Rightarrow> bool" where
  "is_delete (EvDelete u a) = True"
| "is_delete _ = False"

lemma applied_not_delete: "applied e = Some u \<Longrightarrow> \<not> is_delete e"
  by (cases e) auto

lemma safe_resources_plain:
  assumes "\<And>e. is_read e \<Longrightarrow> P e" and "\<And>e u. applied e = Some u \<Longrightarrow> P e"
  shows "safe (\<lambda>_. P) h (reconcileNamespaceClassResources K ns nc)"
  by (rule safe_reconcileNamespaceClassResources) (use assms in \<open>auto dest: live_write_not_read\<close>)

lemma safe_set_plain:
  assumes "\<And>e. is_read e \<Longrightarrow> P e" and "\<And>n. P (EvLock n)" and "\<And>n. P (EvUnlock n)"
    and "\<And>n a. P (EvUpdateNs n a)"
  shows "safe (\<lambda>_. P) h (setClassAnnotations K ns orig cur)"
  by (rule safe_setClassAnnotations) (auto intro: assms)

lemma safe_switch_plain:
  assumes "\<And>e. is_read e \<Longrightarrow> P e" and "\<And>n. P (EvLock n)" and "\<And>n. P (EvUnlock n)"
    and "\<And>n a. P (EvUpdateNs n a)"
  shows "safe (\<lambda>_. P) h (updateCurrentClassAnnotation K ns cur)"
  by (rule safe_updateCurrentClassAnnotation) (auto intro: assms)

lemma safe_cleanup_plain:
  assumes "\<And>e. is_read e \<Longrightarrow> P e" and "\<And>u a. P (EvDelete u a)"
  shows "safe (\<lambda>_. P) h (cleanupPreviousNamespaceClassResources K ns prev cur)"
  by (rule safe_cleanupPrevious) (auto intro: assms)

lemma safe_switchStatus_plain:
  assumes "\<And>e. is_read e \<Longrightarrow> P e" and "\<And>b nc a. P (EvPatchStatus b nc a)"
  shows "safe (\<lambda>_. P) h (updateClassSwitchStatus K ns cur prev)"
  by (rule safe_updateClassSwitchStatus) (auto intro: assms)

lemmas safe_plain =
  safe_resources_plain safe_set_plain safe_switch_plain safe_cleanup_plain safe_switchStatus_plain
  safe_bind safe_try safe_if safe_return safe_emit

lemma is_read_cases:
  assumes "is_read e"
  shows "\<not> is_delete e" "\<not> is_write e" "applied e = None"
  using assms by (cases e; simp)+

text \<open>
  A namespace whose annotations do not record a change of class loses nothing: the run deletes no
  object at all.  (A namespace without the last applied annotation counts as new even when its
  current class annotation names another class.)
\<close>

theorem no_switch_no_delete:
  assumes "k_getNs K (ns_Name ns) w = (Inr latest, w0)" and "\<And>prev. \<not> switching latest (nc_Name nc) prev"
  shows "list_all (\<lambda>e. \<not> is_delete e) (trace_of (reconcileNamespaceWithClass K ns nc) w)"
proof -
  have "safe (\<lambda>_ e. \<not> is_delete e) [] (reconcileLatest K nc latest)"
    unfolding reconcileLatest_def Let_def using assms(2)
    by (intro safe_plain) (auto simp: switching_iff is_read_cases applied_not_delete)
  then have "list_all (\<lambda>e. \<not> is_delete e) (trace_of (reconcileLatest K nc latest) w0)"
    by (rule safe_trace_all)
  then show ?thesis
    by (cases "reconcileLatest K nc latest w0") (simp add: reconcile_run [OF assms(1)])
qed

lemma no_switch_no_delete_witness:
  "list_all (\<lambda>e. \<not> is_delete e)
     (trace_of (reconcileNamespaceWithClass mem_kube sample_namespace (sample_class ''public-network'' [])) sample_cluster)"
  by (rule no_switch_no_delete [where latest = sample_namespace and ?w0.0 = sample_cluster])
    (simp_all add: switching_iff mem_kube_def mem_getNs_def find_or_def sample_defs map_read_def)

section \<open>The order of the writes\<close>

fun is_annotation :: "event \<Rightarrow> bool" where
  "is_annotation (EvLock n) = True"
| "is_annotation (EvUnlock n) = True"
| "is_annotation (EvUpdateNs n a) = True"
| "is_annotation (EvSpawn n) = True"
| "is_annotation _ = False"

fun is_statusPatch :: "event \<Rightarrow> bool" where
  "is_statusPatch (EvPatchStatus b c a) = True"
| "is_statusPatch _ = False"


section \<open>All namespaces of a class\<close>

text \<open>The runs for some namespaces, one after the other, whatever each returns.\<close>

primrec visits :: "'w kube \<Rightarrow> NamespaceClass \<Rightarrow> Namespace list \<Rightarrow> 'w \<Rightarrow> event list \<times> 'w" where
  "visits K nc [] w = ([], w)"
| "visits K nc (ns # nss) w =
     (case reconcileNamespaceWithClass K ns nc w of (r, t, w') \<Rightarrow>
      case visits K nc nss w' of (t', w'') \<Rightarrow> (t @ t', w''))"

lemma reconcile_no_panic: "reconcileNamespaceWithClass K ns nc w \<noteq> (Panic p, t, w')"
proof
  assume run: "reconcileNamespaceWithClass K ns nc w = (Panic p, t, w')"
  have "safe (\<lambda>_ _. True) [] (reconcileNamespaceWithClass K ns nc)"
    by (rule safe_reconcileNamespaceWithClass) simp
  with run show False by (auto dest: safe_run)
qed

lemma forG_visits:
  "forG (\<lambda>ns. bindG (tryG (reconcileNamespaceWithClass K ns nc)) (\<lambda>_. returnG ())) nss w =
     (case visits K nc nss w of (t, w') \<Rightarrow> (Ok (), t, w'))"
proof (induction nss arbitrary: w)
  case Nil
  show ?case by (simp add: returnG_def)
next
  case (Cons ns nss)
  obtain r t w1 where run: "reconcileNamespaceWithClass K ns nc w = (r, t, w1)"
    by (cases "reconcileNamespaceWithClass K ns nc w")
  with reconcile_no_panic [of K ns nc w] have "\<forall>p. r \<noteq> Panic p" by blast
  with run Cons.IH [of w1] show ?case
    by (cases r) (simp_all add: go_defs split: prod.split)
qed

text \<open>
  A request for a class visits every namespace that the list call answered, in its order, and the failure
  of one keeps none of the others from being reconciled; only then come the finalizer, for a class
  under deletion, and the status.  When the list call fails, the request fails and does nothing.
\<close>

theorem class_request_visits_all:
  "case k_listNs K NamespaceClassLabel (nc_Name nc) w of
     (Inl e, w1) \<Rightarrow> reconcileClassRequest K nc w = (Err e, [EvListNs NamespaceClassLabel (nc_Name nc) (Inl e)], w1)
   | (Inr nss, w1) \<Rightarrow>
       (case visits K nc nss w1 of (t, w2) \<Rightarrow>
        case bindG (if \<not> IsZero (nc_DeletionTimestamp nc) then handleFinalizerCleanup K nc else returnG \<lparr>Requeue = False\<rparr>)
          (\<lambda>_. bindG (updateNamespaceClassStatus K nc) (\<lambda>_. returnG \<lparr>Requeue = False\<rparr>)) w2 of (r, t', w3) \<Rightarrow>
        reconcileClassRequest K nc w = (r, EvListNs NamespaceClassLabel (nc_Name nc) (Inr nss) # t @ t', w3))"
proof -
  obtain a w1 where list: "k_listNs K NamespaceClassLabel (nc_Name nc) w = (a, w1)"
    by (cases "k_listNs K NamespaceClassLabel (nc_Name nc) w")
  show ?thesis
  proof (cases a)
    case (Inl e)
    with list show ?thesis by (simp add: reconcileClassRequest_def listNs_def go_defs)
  next
    case (Inr nss)
    obtain t w2 where v: "visits K nc nss w1 = (t, w2)" by (cases "visits K nc nss w1")
    let ?report = "bindG (updateNamespaceClassStatus K nc) (\<lambda>_. returnG \<lparr>Requeue = False\<rparr>)"
    let ?fin = "if \<not> IsZero (nc_DeletionTimestamp nc) then handleFinalizerCleanup K nc else returnG \<lparr>Requeue = False\<rparr>"
    have fin: "bindG (if \<not> IsZero (nc_DeletionTimestamp nc) then reconcileNamespaceClassFinalizer K nc else returnG \<lparr>Requeue = False\<rparr>)
        (\<lambda>result. if Requeue result then returnG result else ?report) w2 = bindG ?fin (\<lambda>_. ?report) w2"
    proof (cases "IsZero (nc_DeletionTimestamp nc)")
      case False
      from handleFinalizerCleanup_requeue [of K nc w2] False show ?thesis
        by (cases "handleFinalizerCleanup K nc w2"; cases "fst (handleFinalizerCleanup K nc w2)")
          (auto simp: reconcileNamespaceClassFinalizer_def bindG_def)
    qed simp
    have list_step: "bindG (listNs K NamespaceClassLabel (nc_Name nc)) f w =
        (case f nss w1 of (r, s, w') \<Rightarrow> (r, EvListNs NamespaceClassLabel (nc_Name nc) (Inr nss) # s, w'))" for f :: "_ \<Rightarrow> ('a, Result) prog"
      using list Inr by (simp add: listNs_def go_defs split: prod.split)
    have loop_step: "bindG (forG (\<lambda>ns. bindG (tryG (reconcileNamespaceWithClass K ns nc)) (\<lambda>_. returnG ())) nss) g w1 =
        (case g () w2 of (r, s, w') \<Rightarrow> (r, t @ s, w'))" for g :: "_ \<Rightarrow> ('a, Result) prog"
      unfolding bindG_def [of "forG _ _"] forG_visits v by simp
    show ?thesis
      unfolding reconcileClassRequest_def list_step loop_step fin
      by (simp add: list Inr v split: prod.split)
  qed
qed

end
