(* ===== verification/Kube_Cluster.thy ===== *)
theory Kube_Cluster imports Kube_Memory begin

text \<open>
  A cluster that nobody else changes: what the controller's own calls make of it.  \<open>view w\<close> is the part of
  the outside state \<open>w\<close> that the properties across several requests are about: the labels of the stored
  objects, and the labels, annotations and deletion times of the namespaces.  Each event has an effect on
  the view, and its answer agrees with the view it meets; a program of the controller then moves the view
  the way its trace says (\<open>tracked\<close>).
\<close>

section \<open>Views\<close>

record ns_view =
  nv_Labels :: strmap
  nv_Annotations :: strmap
  nv_Deletion :: "Time option"

record cluster_view =
  objs :: "objkey \<rightharpoonup> strmap"
  nss :: "string \<rightharpoonup> ns_view"

definition nsv :: "Namespace \<Rightarrow> ns_view" where
  "nsv ns = \<lparr>nv_Labels = ns_Labels ns, nv_Annotations = ns_Annotations ns, nv_Deletion = ns_DeletionTimestamp ns\<rparr>"

lemma nsv_simps [simp]:
  "nv_Labels (nsv ns) = ns_Labels ns" "nv_Annotations (nsv ns) = ns_Annotations ns"
  "nv_Deletion (nsv ns) = ns_DeletionTimestamp ns"
  by (simp_all add: nsv_def)

text \<open>The effect of an event: the successful writes of objects and namespaces.\<close>

fun effect :: "event \<Rightarrow> cluster_view \<Rightarrow> cluster_view" where
  "effect (EvCreate u (Inr _)) v = v\<lparr>objs := (objs v)(obj_key u \<mapsto> u_Labels u)\<rparr>"
| "effect (EvUpdateObj u (Inr _)) v = v\<lparr>objs := (objs v)(obj_key u \<mapsto> u_Labels u)\<rparr>"
| "effect (EvDelete u (Inr _)) v = v\<lparr>objs := (objs v)(obj_key u := None)\<rparr>"
| "effect (EvUpdateNs ns (Inr _)) v = v\<lparr>nss := (nss v)(ns_Name ns \<mapsto> nsv ns)\<rparr>"
| "effect _ v = v"

text \<open>
  The answers agree with the view: reads of namespaces, a list of objects holds every object that
  matches, and an object that was not found for a deletion is not there.
\<close>

definition lists_kind :: "GroupVersionKind \<Rightarrow> string \<Rightarrow> string \<Rightarrow> bool" where
  "lists_kind gvk g kd \<longleftrightarrow> Group gvk = g \<and> Kind gvk \<in> {kd, kd @ ''List''}"

fun sees :: "'w kube \<Rightarrow> cluster_view \<Rightarrow> event \<Rightarrow> bool" where
  "sees K v (EvGetNs n (Inr ns)) \<longleftrightarrow> ns_Name ns = n \<and> nss v n = Some (nsv ns)"
| "sees K v (EvListNs key val (Inr ls)) \<longleftrightarrow> (\<forall>ns\<in>set ls. nss v (ns_Name ns) = Some (nsv ns))"
| "sees K v (EvListObj gvk n key val (Inr us)) \<longleftrightarrow>
     (\<forall>g kd nm L. lists_kind gvk g kd \<longrightarrow> objs v (g, kd, n, nm) = Some L \<longrightarrow> has_label L key val \<longrightarrow>
        (\<exists>u\<in>set us. obj_key u = (g, kd, n, nm)))"
| "sees K v (EvDelete u (Inl e)) \<longleftrightarrow> (IsNotFound K e \<longrightarrow> objs v (obj_key u) = None)"
| "sees K v _ \<longleftrightarrow> True"

text \<open>A trace that starts in a view: every answer agrees with the view it meets.\<close>

primrec sees_all :: "'w kube \<Rightarrow> cluster_view \<Rightarrow> event list \<Rightarrow> bool" where
  "sees_all K v [] \<longleftrightarrow> True"
| "sees_all K v (e # t) \<longleftrightarrow> sees K v e \<and> sees_all K (effect e v) t"

definition effects :: "event list \<Rightarrow> cluster_view \<Rightarrow> cluster_view" where
  "effects = fold effect"

lemma effects_simps [simp]: "effects [] v = v" "effects (e # t) v = effects t (effect e v)"
  "effects (s @ t) v = effects t (effects s v)"
  by (simp_all add: effects_def)

lemma sees_all_append [simp]: "sees_all K v (s @ t) \<longleftrightarrow> sees_all K v s \<and> sees_all K (effects s v) t"
  by (induction s arbitrary: v) auto

section \<open>The cluster\<close>

locale kube_cluster = kube_client K for K :: "'w kube" +
  fixes view :: "'w \<Rightarrow> cluster_view"
  assumes getClass_view: "k_getClass K nn w = (a, w') \<Longrightarrow> view w' = view w"
    and getNs_view: "k_getNs K n w = (b, w') \<Longrightarrow> sees K (view w) (EvGetNs n b) \<and> view w' = view w"
    and getObj_view: "k_getObj K gvk m n w = (c, w') \<Longrightarrow> view w' = view w"
    and listNs_view: "k_listNs K key val w = (d, w') \<Longrightarrow> sees K (view w) (EvListNs key val d) \<and> view w' = view w"
    and listObj_view: "k_listObj K gvk n key val w = (us, w') \<Longrightarrow>
      sees K (view w) (EvListObj gvk n key val us) \<and> view w' = view w"
    and discover_view: "k_discover K w = (f, w') \<Longrightarrow> view w' = view w"
    and create_view: "k_create K u w = (r, w') \<Longrightarrow> view w' = effect (EvCreate u r) (view w)"
    and updateObj_view: "k_updateObj K u w = (r, w') \<Longrightarrow> view w' = effect (EvUpdateObj u r) (view w)"
    and delete_view: "k_delete K u w = (r, w') \<Longrightarrow>
      sees K (view w) (EvDelete u r) \<and> view w' = effect (EvDelete u r) (view w)"
    and updateNs_view: "k_updateNs K ns w = (r, w') \<Longrightarrow> view w' = effect (EvUpdateNs ns r) (view w)"
    and updateClass_view: "k_updateClass K nc w = (r, w') \<Longrightarrow> view w' = view w"
    and patchStatus_view: "k_patchStatus K base nc w = (r, w') \<Longrightarrow> view w' = view w"
begin

text \<open>A program moves the view the way its trace says.\<close>

definition tracked :: "('w, 'a) prog \<Rightarrow> bool" where
  "tracked m \<longleftrightarrow> (\<forall>w r t w'. m w = (r, t, w') \<longrightarrow> sees_all K (view w) t \<and> view w' = effects t (view w))"

lemma trackedD: "tracked m \<Longrightarrow> m w = (r, t, w') \<Longrightarrow> sees_all K (view w) t \<and> view w' = effects t (view w)"
  unfolding tracked_def by blast

lemma tracked_return: "tracked (returnG x)"
  by (simp add: tracked_def returnG_def)

lemma tracked_fail: "tracked (failG e)"
  by (simp add: tracked_def failG_def)

lemma tracked_panic: "tracked (panicG p)"
  by (simp add: tracked_def panicG_def)

lemma tracked_lift: "tracked (liftE a)"
  by (simp add: liftE_def tracked_return tracked_fail split: sum.split)

lemma tracked_mapWrite: "tracked (mapWriteG m k v)"
  by (simp add: mapWriteG_def tracked_return tracked_panic split: option.split)

lemma tracked_index: "tracked (indexG xs i)"
  by (simp add: indexG_def tracked_return tracked_panic)

lemma tracked_emit: "(\<And>v. sees K v e \<and> effect e v = v) \<Longrightarrow> tracked (emitG e)"
  by (simp add: tracked_def emitG_def)

lemma tracked_try: "tracked m \<Longrightarrow> tracked (tryG m)"
  unfolding tracked_def by (auto simp: try_run)

lemma tracked_wrap: "tracked m \<Longrightarrow> tracked (wrapG msg m)"
  unfolding tracked_def by (auto simp: wrap_run)

lemma tracked_defer: "tracked m \<Longrightarrow> (\<And>v. sees K v e \<and> effect e v = v) \<Longrightarrow> tracked (deferG e m)"
  unfolding tracked_def by (fastforce simp: defer_run)

lemma tracked_bind:
  assumes "tracked m" and "\<And>x t. yields m x t \<Longrightarrow> tracked (f x)"
  shows "tracked (bindG m f)"
  unfolding tracked_def
proof (intro allI impI)
  fix w r t w'
  assume "bindG m f w = (r, t, w')"
  then show "sees_all K (view w) t \<and> view w' = effects t (view w)"
  proof (cases rule: bind_runE)
    case (next_step x t1 w1 t2)
    with assms(2) have "tracked (f x)" by (blast intro: yieldsI)
    with next_step trackedD [OF assms(1) next_step(1)] show ?thesis by (auto dest: trackedD)
  qed (use assms(1) in \<open>auto dest: trackedD\<close>)
qed

lemma tracked_for: "(\<And>x. x \<in> set xs \<Longrightarrow> tracked (f x)) \<Longrightarrow> tracked (forG f xs)"
  by (induction xs) (auto intro!: tracked_bind tracked_return)

lemma tracked_concatMap: "(\<And>x. x \<in> set xs \<Longrightarrow> tracked (f x)) \<Longrightarrow> tracked (concatMapG f xs)"
  by (induction xs) (auto intro!: tracked_bind tracked_return)

lemma tracked_if: "(b \<Longrightarrow> tracked m) \<Longrightarrow> (\<not> b \<Longrightarrow> tracked n) \<Longrightarrow> tracked (if b then m else n)"
  by simp

lemma tracked_case_sum:
  "(\<And>e. a = Inl e \<Longrightarrow> tracked (f e)) \<Longrightarrow> (\<And>x. a = Inr x \<Longrightarrow> tracked (g x)) \<Longrightarrow>
    tracked (case a of Inl e \<Rightarrow> f e | Inr x \<Rightarrow> g x)"
  by (cases a) auto

lemma tracked_case_option:
  "(a = None \<Longrightarrow> tracked m) \<Longrightarrow> (\<And>x. a = Some x \<Longrightarrow> tracked (g x)) \<Longrightarrow>
    tracked (case a of None \<Rightarrow> m | Some x \<Rightarrow> g x)"
  by (cases a) auto

lemma tracked_call:
  "(\<And>w a w'. op w = (a, w') \<Longrightarrow> sees K (view w) (ev a) \<and> view w' = effect (ev a) (view w)) \<Longrightarrow> tracked (callG ev op)"
  unfolding tracked_def by (auto simp: call_run)

lemma tracked_getClass: "tracked (getClass K nn)"
  unfolding getClass_def by (rule tracked_call) (simp add: getClass_view)

lemma tracked_getNs: "tracked (getNs K n)"
  unfolding getNs_def by (rule tracked_call) (simp add: getNs_view)

lemma tracked_getObj: "tracked (getObj K gvk m n)"
  unfolding getObj_def by (rule tracked_call) (simp add: getObj_view)

lemma tracked_listNs: "tracked (listNs K key val)"
  unfolding listNs_def by (rule tracked_call) (simp add: listNs_view)

lemma tracked_listObj: "tracked (listObj K gvk n key val)"
  unfolding listObj_def by (rule tracked_call) (simp add: listObj_view)

lemma tracked_create: "tracked (createObj K u)"
  unfolding createObj_def by (rule tracked_call) (simp add: create_view)

lemma tracked_updateObj: "tracked (updateObj K u)"
  unfolding updateObj_def by (rule tracked_call) (simp add: updateObj_view)

lemma tracked_delete: "tracked (deleteObj K u)"
  unfolding deleteObj_def by (rule tracked_call) (simp add: delete_view)

lemma tracked_updateNs: "tracked (updateNs K ns)"
  unfolding updateNs_def by (rule tracked_call) (simp add: updateNs_view)

lemma tracked_updateClass: "tracked (updateClass K nc)"
  unfolding updateClass_def by (rule tracked_call) (simp add: updateClass_view)

lemma tracked_patchStatus: "tracked (patchStatus K base nc)"
  unfolding patchStatus_def by (rule tracked_call) (simp add: patchStatus_view)

lemma tracked_discover: "tracked (ServerPreferredResources K)"
  unfolding tracked_def ServerPreferredResources_def by (auto dest: discover_view split: prod.splits)

lemma tracked_now: "tracked (nowG K)"
  by (simp add: tracked_def nowG_def)

lemmas tracked_intro =
  tracked_return tracked_fail tracked_panic tracked_lift tracked_mapWrite tracked_index tracked_emit tracked_try
  tracked_wrap tracked_defer tracked_bind tracked_for tracked_concatMap tracked_if tracked_case_sum tracked_case_option
  tracked_getClass tracked_getNs tracked_getObj tracked_listNs tracked_listObj tracked_create tracked_updateObj
  tracked_delete tracked_updateNs tracked_updateClass tracked_patchStatus tracked_discover tracked_now

end
section \<open>The in-memory cluster is one\<close>

lemma firsts_find: "ns \<in> set (firsts xs) \<Longrightarrow> find (\<lambda>x. ns_Name x = ns_Name ns) xs = Some ns"
  by (induction xs) auto

definition mem_view :: "cluster \<Rightarrow> cluster_view" where
  "mem_view c = \<lparr>objs = (\<lambda>k. map_option u_Labels (mem_at c k)),
     nss = (\<lambda>n. map_option nsv (find (\<lambda>x. ns_Name x = n) (cl_Namespaces c)))\<rparr>"

lemma find_named: "find (\<lambda>x. ns_Name x = n) xs = Some ns \<Longrightarrow> ns_Name ns = n"
  by (auto simp: find_Some_iff)

lemma find_replaced:
  "find (\<lambda>x. ns_Name x = n) (map (\<lambda>x. if ns_Name x = ns_Name y then y else x) xs) =
    (if n = ns_Name y \<and> (\<exists>x\<in>set xs. ns_Name x = ns_Name y) then Some y else find (\<lambda>x. ns_Name x = n) xs)"
  by (induction xs) auto

lemma mem_at_filtered:
  "mem_at (c\<lparr>cl_Objects := filter (\<lambda>v. \<not> has_key k' v) (cl_Objects c)\<rparr>) k = (if k = k' then None else mem_at c k)"
  by (simp add: mem_at_def has_key_def find_key_filter [unfolded has_key_def])

lemma mem_at_cons:
  "mem_at (c\<lparr>cl_Objects := u # xs\<rparr>) k = (if k = obj_key u then Some u else mem_at (c\<lparr>cl_Objects := xs\<rparr>) k)"
  by (auto simp: mem_at_def has_key_def)

lemma mem_at_member: "mem_at c k = Some u \<Longrightarrow> u \<in> set (cl_Objects c) \<and> obj_key u = k"
  by (auto simp: mem_at_def has_key_def find_Some_iff)

lemma mem_sees_list:
  assumes "mem_listObj gvk n key val w = (us, w')"
  shows "sees mem_kube (mem_view w) (EvListObj gvk n key val us)"
proof -
  have "\<exists>u\<in>set vs. obj_key u = (g, kd, n, nm)"
    if "us = Inr vs" "lists_kind gvk g kd" "mem_at w (g, kd, n, nm) = Some u" "has_label (u_Labels u) key val" for vs g kd nm u
    using that assms mem_at_member [OF that(3)]
    by (intro bexI [of _ u]) (auto simp: mem_listObj_def list_of_kind_def lists_kind_def obj_key_def)
  then show ?thesis by (cases us) (auto simp: mem_view_def)
qed

interpretation mem_cluster: kube_cluster mem_kube mem_view
proof
  fix ns and w w' :: cluster and r
  assume "k_updateNs mem_kube ns w = (r, w')"
  then show "mem_view w' = effect (EvUpdateNs ns r) (mem_view w)"
    by (auto simp: mem_kube_def mem_updateNs_def mem_view_def mem_at_def find_replaced fun_eq_iff split: if_splits)
next
  fix u and w w' :: cluster and r
  assume "k_create mem_kube u w = (r, w')"
  then show "mem_view w' = effect (EvCreate u r) (mem_view w)"
    by (auto simp: mem_kube_def mem_create_def mem_view_def mem_at_cons fun_eq_iff split: if_splits)
next
  fix u and w w' :: cluster and r
  assume "k_updateObj mem_kube u w = (r, w')"
  then show "mem_view w' = effect (EvUpdateObj u r) (mem_view w)"
    by (auto simp: mem_kube_def mem_updateObj_def mem_view_def mem_at_cons mem_at_filtered fun_eq_iff split: if_splits)
next
  fix u and w w' :: cluster and r
  assume "k_delete mem_kube u w = (r, w')"
  then show "sees mem_kube (mem_view w) (EvDelete u r) \<and> mem_view w' = effect (EvDelete u r) (mem_view w)"
    by (auto simp: mem_kube_def mem_delete_def mem_view_def mem_at_filtered fun_eq_iff split: if_splits)
next
  fix gvk n key val and w w' :: cluster and us
  assume "k_listObj mem_kube gvk n key val w = (us, w')"
  then have "mem_listObj gvk n key val w = (us, w')" by (simp add: mem_kube_def)
  then show "sees mem_kube (mem_view w) (EvListObj gvk n key val us) \<and> mem_view w' = mem_view w"
    using mem_sees_list [OF \<open>mem_listObj gvk n key val w = (us, w')\<close>] by (simp only: mem_listObj_def prod.inject)
next
  fix n and w w' :: cluster and b
  assume "k_getNs mem_kube n w = (b, w')"
  then show "sees mem_kube (mem_view w) (EvGetNs n b) \<and> mem_view w' = mem_view w"
    by (auto simp: mem_kube_def mem_getNs_def mem_view_def find_or_def dest: find_named split: option.splits)
next
  fix key val and w w' :: cluster and d
  assume "k_listNs mem_kube key val w = (d, w')"
  then show "sees mem_kube (mem_view w) (EvListNs key val d) \<and> mem_view w' = mem_view w"
    by (auto simp: mem_kube_def mem_listNs_def mem_view_def firsts_find)
qed (auto simp: mem_kube_def mem_getClass_def mem_getObj_def mem_updateClass_def mem_patchStatus_def mem_view_def
    mem_at_def split: if_splits)

end
