(* ===== verification/Controller_Tracking.thy ===== *)
theory Controller_Tracking imports Reconcile_Branches Kube_Cluster begin

text \<open>
  Every operation of the controller moves the view of a cluster the way its trace says.  The lemmas
  follow the theories of the components, from discovery to \<open>Reconcile\<close>.
\<close>

context kube_cluster
begin

section \<open>Listing\<close>

lemma tracked_getServerPreferredResources: "tracked (getServerPreferredResources K)"
  unfolding getServerPreferredResources_def
  by (intro tracked_bind tracked_discover) (auto intro: tracked_intro split: option.split go_error.split)

lemma tracked_getPreferredVersion: "tracked (getPreferredVersionForResource K grp kind)"
  unfolding getPreferredVersionForResource_def
  by (intro tracked_bind tracked_discover) (auto intro!: tracked_intro split: option.split go_error.split)

lemma tracked_listResourcesWithLabel: "tracked (listResourcesWithLabel K n key val)"
  unfolding listResourcesWithLabel_def labelledInLists_def labelledInGV_def listResourcesOfType_def
  by (intro tracked_intro tracked_getServerPreferredResources)

lemma tracked_getCurrentResources: "tracked (getCurrentNamespaceClassResources K ns nc)"
  unfolding getCurrentNamespaceClassResources_def managedInLists_def findManagedResourcesForGV_def listManagedResourcesOfKind_def
  by (intro tracked_intro tracked_getServerPreferredResources)

section \<open>Objects\<close>

lemma tracked_applyResource: "tracked (applyResourceToNamespace K ns nc res)"
  unfolding applyResourceToNamespace_def applyUnstructuredResource_def updateUnstructuredResource_def prepare_eq bind_return
  by (intro tracked_intro)

lemma tracked_cleanupResource: "tracked (cleanupResource K ns keep res)"
  unfolding cleanupResource_def deleteResourceByKindAndName_def Let_def
  by (intro tracked_intro tracked_getPreferredVersion)

lemma tracked_cleanupAll: "tracked (cleanupAllNamespaceClassResources K ns c)"
  unfolding cleanupAllNamespaceClassResources_def by (intro tracked_intro tracked_listResourcesWithLabel)

lemma tracked_cleanupPrevious: "tracked (cleanupPreviousNamespaceClassResources K ns prev cur)"
  unfolding cleanupPreviousNamespaceClassResources_def getResourcesWithOwner_def Let_def
  by (intro tracked_intro tracked_cleanupAll tracked_getCurrentResources tracked_cleanupResource)

section \<open>Annotations, status and finalizer\<close>

lemma tracked_lock: "tracked m \<Longrightarrow> tracked (withNamespaceLock n m)"
  unfolding withNamespaceLock_def by (intro tracked_intro) auto

lemma tracked_setClassAnnotations: "tracked (setClassAnnotations K ns orig cur)"
  unfolding setClassAnnotations_def Let_def by (intro tracked_lock tracked_intro)

lemma tracked_updateCurrentClassAnnotation: "tracked (updateCurrentClassAnnotation K ns cur)"
  unfolding updateCurrentClassAnnotation_def Let_def by (intro tracked_lock tracked_intro)

lemma tracked_applyStatusUpdate: "tracked (applyStatusUpdate K nc sts)"
  unfolding applyStatusUpdate_def Let_def by (intro tracked_intro)

lemma tracked_updateNamespaceClassStatus: "tracked (updateNamespaceClassStatus K nc)"
  unfolding updateNamespaceClassStatus_def getFreshNamespaceClass_def getNamespacesForClass_def
  by (intro tracked_intro tracked_applyStatusUpdate)

lemma tracked_updateClassSwitchStatus: "tracked (updateClassSwitchStatus K ns cur prev)"
  unfolding updateClassSwitchStatus_def getFreshNamespaceClass_def Let_def
  by (intro tracked_intro tracked_applyStatusUpdate)

lemma tracked_cleanupNamespace: "tracked (cleanupNamespace K nc ns)"
  unfolding cleanupNamespace_def deleteResources_def
  by (intro tracked_intro tracked_listResourcesWithLabel)

lemma tracked_finalizer: "tracked (reconcileNamespaceClassFinalizer K nc)"
  unfolding reconcileNamespaceClassFinalizer_def ensureFinalizerPresent_def handleFinalizerCleanup_def Let_def
    cleanupNamespaces_def removeFinalizer_def slices_Delete_def
  by (intro tracked_intro tracked_cleanupNamespace)

section \<open>The reconciler\<close>

lemma tracked_applyResources: "tracked (applyResources K nc latest rs)"
proof (induction rs arbitrary: latest)
  case (Cons r rs)
  then show ?case unfolding applyResources.simps by (intro tracked_intro tracked_applyResource)
qed (simp add: tracked_return)

lemma tracked_resources: "tracked (reconcileNamespaceClassResources K ns nc)"
  unfolding reconcileNamespaceClassResources_def Let_def
  by (intro tracked_intro tracked_applyResources tracked_getCurrentResources)

lemma tracked_trigger: "tracked (triggerReconcile c)"
  unfolding triggerReconcile_def by (intro tracked_intro) auto

lemma tracked_namespace: "tracked (reconcileNamespaceWithClass K ns nc)"
  unfolding reconcileNamespaceWithClass_def Let_def
  by (intro tracked_intro tracked_setClassAnnotations tracked_updateCurrentClassAnnotation tracked_cleanupPrevious
      tracked_trigger tracked_resources tracked_updateClassSwitchStatus)

lemma tracked_Reconcile: "tracked (Reconcile K req)"
  unfolding Reconcile_def reconcileClassRequest_def reconcileNamespaceRequest_def getNamespace_def getNamespaceClass_def Let_def
  by (intro tracked_intro tracked_namespace tracked_finalizer tracked_updateNamespaceClassStatus)

end

end
