(* ===== verification/Class_Switch.thy ===== *)
theory Class_Switch imports Controller_Tracking begin

text \<open>
  A switch of class, end to end, in a cluster that nobody else changes: after a successful
  reconciliation the annotations record the class, so that the next one changes nothing but the objects of
  the class, and the objects of the previous class are gone.
\<close>

section \<open>What leaves the namespaces and the old objects alone\<close>

fun is_updateNs :: "event \<Rightarrow> bool" where
  "is_updateNs (EvUpdateNs ns a) = True"
| "is_updateNs _ = False"

lemma effect_nss: "\<not> is_updateNs e \<Longrightarrow> nss (effect e v) = nss v"
  by (cases "(e, v)" rule: effect.cases) auto

lemma effects_nss: "list_all (\<lambda>e. \<not> is_updateNs e) t \<Longrightarrow> nss (effects t v) = nss v"
  by (induction t arbitrary: v) (simp_all add: effect_nss)

lemma read_not_update: "is_read e \<Longrightarrow> \<not> is_updateNs e"
  by (cases e) auto

lemma applied_not_update: "applied e = Some u \<Longrightarrow> \<not> is_updateNs e"
  by (cases e) auto

text \<open>Reads change nothing, and their answers agree with one and the same view.\<close>

lemma effect_read: "is_read e \<Longrightarrow> effect e v = v"
  by (cases e) auto

lemma sees_all_reads:
  "list_all is_read t \<Longrightarrow> effects t v = v \<and> (sees_all K v t \<longleftrightarrow> (\<forall>e\<in>set t. sees K v e))"
  by (induction t) (auto simp: effect_read)

text \<open>Nothing is stored under the key, or nothing with the owner label of the class.\<close>

definition gone :: "cluster_view \<Rightarrow> objkey \<Rightarrow> string \<Rightarrow> bool" where
  "gone v k c \<longleftrightarrow> (case objs v k of None \<Rightarrow> True | Some L \<Rightarrow> \<not> has_label L NamespaceClassOwner c)"

text \<open>An event that stores no object with the owner label \<open>c\<close>.\<close>

definition stores_no :: "string \<Rightarrow> event \<Rightarrow> bool" where
  "stores_no c e \<longleftrightarrow> (case applied e of None \<Rightarrow> True | Some u \<Rightarrow> \<not> has_label (u_Labels u) NamespaceClassOwner c)"

lemma stores_no_simps [simp]:
  "is_read e \<Longrightarrow> stores_no c e" "stores_no c (EvDelete u a)" "stores_no c (EvLock n)" "stores_no c (EvUnlock n)"
  "stores_no c (EvUpdateNs ns a)" "stores_no c (EvPatchStatus b nc a)" "stores_no c (EvSpawn n)"
  by (auto simp: stores_no_def) (cases e; simp)

lemma effect_gone: "stores_no c e \<Longrightarrow> gone v k c \<Longrightarrow> gone (effect e v) k c"
  by (cases "(e, v)" rule: effect.cases) (auto simp: stores_no_def gone_def)

lemma effects_gone: "list_all (stores_no c) t \<Longrightarrow> gone v k c \<Longrightarrow> gone (effects t v) k c"
  by (induction t arbitrary: v) (simp_all add: effect_gone)

text \<open>The annotations of the namespace record the class \<open>c\<close>, and that it was set up.\<close>

definition settled :: "cluster_view \<Rightarrow> string \<Rightarrow> string \<Rightarrow> bool" where
  "settled v n c \<longleftrightarrow> (\<exists>x. nss v n = Some x \<and> map_read (nv_Annotations x) LastAppliedClassAnnotation \<noteq> '''' \<and>
     map_read (nv_Annotations x) CurrentClassAnnotation = c)"

lemma settled_cong: "nss v n = nss v' n \<Longrightarrow> settled v n c = settled v' n c"
  by (simp add: settled_def)

text \<open>The steps of a switch of class that succeeds.\<close>

lemma switching_steps:
  assumes "reconcileLatest K nc latest w = (Ok (), t, w')" and "switching latest (nc_Name nc) prev"
  obtains s1 w1 s2 w2 s3 w3 r s4 where "cleanupPreviousNamespaceClassResources K latest prev (nc_Name nc) w = (Ok (), s1, w1)"
    and "updateCurrentClassAnnotation K latest (nc_Name nc) w1 = (Ok (), s2, w2)"
    and "reconcileNamespaceClassResources K latest nc w2 = (Ok (), s3, w3)"
    and "updateClassSwitchStatus K latest (nc_Name nc) prev w3 = (r, s4, w')"
    and "t = s1 @ s2 @ EvSpawn prev # s3 @ s4"
proof -
  have "bindG (cleanupPreviousNamespaceClassResources K latest prev (nc_Name nc)) (\<lambda>_.
      bindG (updateCurrentClassAnnotation K latest (nc_Name nc)) (\<lambda>_. bindG (emitG (EvSpawn prev)) (\<lambda>_.
      bindG (reconcileNamespaceClassResources K latest nc) (\<lambda>_.
      bindG (tryG (updateClassSwitchStatus K latest (nc_Name nc) prev)) (\<lambda>_. returnG ()))))) w = (Ok (), t, w')"
    using assms by (auto simp: reconcileLatest_def Let_def switching_def)
  then show thesis
    by (auto elim!: bind_runE simp: emitG_def returnG_def try_run intro: that)
qed

text \<open>What a program does to the view, given what kinds of events it has.\<close>

context kube_cluster
begin

lemma nss_frame:
  assumes "tracked m" and "safe (\<lambda>_ e. \<not> is_updateNs e) [] m" and "m w = (r, t, w')"
  shows "nss (view w') = nss (view w)"
  using trackedD [OF assms(1,3)] effects_nss safe_list_all [OF assms(2,3)] by simp

lemma gone_frame:
  assumes "tracked m" and "safe (\<lambda>_. stores_no c) [] m" and "m w = (r, t, w')" and "gone (view w) k c"
  shows "gone (view w') k c"
  using trackedD [OF assms(1,3)] effects_gone [OF safe_list_all [OF assms(2,3)] assms(4)] by simp

section \<open>The annotations after a reconciliation\<close>

text \<open>A critical section that succeeded: the namespace's annotations are edited in the view.\<close>

lemma edit_view:
  assumes "tracked m" and "m w = (r, t, w')"
    and "t = [EvLock n, EvGetNs n (Inr latest), EvUpdateNs (latest\<lparr>ns_Annotations := edit (ns_Annotations latest)\<rparr>) (Inr ()), EvUnlock n]"
  shows "\<exists>x. nss (view w) n = Some x \<and> nss (view w') = (nss (view w))(n \<mapsto> x\<lparr>nv_Annotations := edit (nv_Annotations x)\<rparr>)"
  using trackedD [OF assms(1,2)] unfolding assms(3) by (intro exI [of _ "nsv latest"]) (auto simp: nsv_def)

lemma set_view:
  assumes "setClassAnnotations K ns orig cur w = (Ok (), t, w')"
  shows "\<exists>x. nss (view w) (ns_Name ns) = Some x \<and>
    nss (view w') = (nss (view w))(ns_Name ns \<mapsto> x\<lparr>nv_Annotations := setEdit orig cur (nv_Annotations x)\<rparr>)"
  using set_writer.annotate_ok [OF assms] edit_view [OF tracked_setClassAnnotations assms] by blast

lemma switch_view:
  assumes "updateCurrentClassAnnotation K ns cur w = (Ok (), t, w')"
  shows "\<exists>x. nss (view w) (ns_Name ns) = Some x \<and>
    nss (view w') = (nss (view w))(ns_Name ns \<mapsto> x\<lparr>nv_Annotations := switchEdit cur (nv_Annotations x)\<rparr>)"
  using switch_writer.annotate_ok [OF assms] edit_view [OF tracked_updateCurrentClassAnnotation assms] by blast



lemma set_settles:
  assumes "setClassAnnotations K ns c c w = (Ok (), t, w')" and "c \<noteq> []"
  shows "settled (view w') (ns_Name ns) c"
  using set_view [OF assms(1)] assms(2) by (auto simp: settled_def setEdit_read)

lemma switch_settles:
  assumes "updateCurrentClassAnnotation K ns c w = (Ok (), t, w')"
    and "nss (view w) (ns_Name ns) = Some x" and "map_read (nv_Annotations x) LastAppliedClassAnnotation \<noteq> []"
  shows "settled (view w') (ns_Name ns) c"
  using switch_view [OF assms(1)] assms(2,3) by (auto simp: settled_def switchEdit_read)

lemma resources_nss:
  "reconcileNamespaceClassResources K ns nc w = (r, t, w') \<Longrightarrow> nss (view w') = nss (view w)"
  by (rule nss_frame [OF tracked_resources])
    (rule safe_resources_plain; auto simp: read_not_update applied_not_update)

lemma switchStatus_nss:
  "updateClassSwitchStatus K ns cur prev w = (r, t, w') \<Longrightarrow> nss (view w') = nss (view w)"
  by (rule nss_frame [OF tracked_updateClassSwitchStatus])
    (rule safe_switchStatus_plain; auto simp: read_not_update)

lemma cleanup_nss:
  "cleanupPreviousNamespaceClassResources K ns prev cur w = (r, t, w') \<Longrightarrow> nss (view w') = nss (view w)"
  by (rule nss_frame [OF tracked_cleanupPrevious])
    (rule safe_cleanup_plain; auto simp: read_not_update)

text \<open>After each of the four courses of a reconciliation that succeeds.\<close>

lemma latest_settles:
  assumes run: "reconcileLatest K nc latest w = (Ok (), t, w')"
    and now: "nss (view w) (ns_Name latest) = Some (nsv latest)" and c: "nc_Name nc \<noteq> []"
  shows "settled (view w') (ns_Name latest) (nc_Name nc)"
proof -
  let ?n = "ns_Name latest" and ?c = "nc_Name nc"
  let ?cur = "map_read (ns_Annotations latest) CurrentClassAnnotation"
  let ?orig = "map_read (ns_Annotations latest) LastAppliedClassAnnotation"
  have res: "settled (view w2) ?n ?c"
    if "settled (view w1) ?n ?c" "reconcileNamespaceClassResources K latest nc w1 = (r, s, w2)" for w1 r s w2
    using that resources_nss settled_cong by metis
  have upd: "settled (view w2) ?n ?c"
    if "?orig \<noteq> []" "nss (view w1) ?n = Some (nsv latest)" "updateCurrentClassAnnotation K latest ?c w1 = (Ok (), s, w2)"
    for w1 s w2
    using switch_settles [OF that(3,2)] that(1) by simp
  consider (first) "?orig = []" | (init) "?orig \<noteq> []" "?cur = []"
    | (switch) "?orig \<noteq> []" "?cur \<noteq> []" "?cur \<noteq> ?c" | (same) "?orig \<noteq> []" "?cur = ?c"
    by blast
  then show ?thesis
  proof cases
    case first
    with run c have "bindG (setClassAnnotations K latest ?c ?c) (\<lambda>_. reconcileNamespaceClassResources K latest nc) w = (Ok (), t, w')"
      by (simp add: reconcileLatest_def Let_def)
    then obtain s1 w1 s2 where ann: "setClassAnnotations K latest ?c ?c w = (Ok (), s1, w1)"
      and apply_run: "reconcileNamespaceClassResources K latest nc w1 = (Ok (), s2, w')"
      by (auto elim!: bind_runE)
    from res [OF set_settles [OF ann c] apply_run] show ?thesis .
  next
    case init
    with run have "bindG (updateCurrentClassAnnotation K latest ?c) (\<lambda>_. reconcileNamespaceClassResources K latest nc) w = (Ok (), t, w')"
      by (simp add: reconcileLatest_def Let_def)
    then obtain s1 w1 s2 where ann: "updateCurrentClassAnnotation K latest ?c w = (Ok (), s1, w1)"
      and apply_run: "reconcileNamespaceClassResources K latest nc w1 = (Ok (), s2, w')"
      by (auto elim!: bind_runE)
    from res [OF upd [OF init(1) now ann] apply_run] show ?thesis .
  next
    case switch
    then have "switching latest ?c ?cur" by (simp add: switching_def)
    from run this obtain s1 w1 s2 w2 s3 w3 r s4
      where clean: "cleanupPreviousNamespaceClassResources K latest ?cur ?c w = (Ok (), s1, w1)"
        and ann: "updateCurrentClassAnnotation K latest ?c w1 = (Ok (), s2, w2)"
        and apply_run: "reconcileNamespaceClassResources K latest nc w2 = (Ok (), s3, w3)"
        and report: "updateClassSwitchStatus K latest ?c ?cur w3 = (r, s4, w')"
      by (rule switching_steps)
    from cleanup_nss [OF clean] now have "nss (view w1) ?n = Some (nsv latest)" by simp
    from res [OF upd [OF switch(1) this ann] apply_run] switchStatus_nss [OF report] settled_cong show ?thesis by metis
  next
    case same
    with run c have "reconcileNamespaceClassResources K latest nc w = (Ok (), t, w')"
      by (simp add: reconcileLatest_def Let_def)
    moreover have "settled (view w) ?n ?c" using same now by (simp add: settled_def)
    ultimately show ?thesis using res by blast
  qed
qed

lemma namespace_settles:
  assumes "reconcileNamespaceWithClass K ns nc w = (Ok (), t, w')" and "nc_Name nc \<noteq> []"
  shows "settled (view w') (ns_Name ns) (nc_Name nc)"
proof -
  obtain a w0 where get: "k_getNs K (ns_Name ns) w = (a, w0)" by (cases "k_getNs K (ns_Name ns) w")
  with assms(1) obtain latest where a: "a = Inr latest"
    by (cases a) (auto simp: reconcile_eq getNs_def go_defs)
  with get getNs_view [OF get] have now: "ns_Name latest = ns_Name ns" "nss (view w0) (ns_Name latest) = Some (nsv latest)"
    by auto
  from assms(1) obtain s where "reconcileLatest K nc latest w0 = (Ok (), s, w')"
    by (cases "reconcileLatest K nc latest w0") (simp add: reconcile_run [OF get [unfolded a]])
  from latest_settles [OF this now(2) assms(2)] now(1) show ?thesis by simp
qed

text \<open>A namespace that is settled in the class: only its objects are read and applied.\<close>

lemma settled_run:
  assumes "settled (view w) (ns_Name ns) (nc_Name nc)" and "reconcileNamespaceWithClass K ns nc w = (r, t, w')"
    and "nc_Name nc \<noteq> []"
  shows "list_all (\<lambda>e. is_read e \<or> (\<exists>u. applied e = Some u)) t"
proof -
  obtain a w0 where get: "k_getNs K (ns_Name ns) w = (a, w0)" by (cases "k_getNs K (ns_Name ns) w")
  show ?thesis
  proof (cases a)
    case (Inl e)
    with get assms(2) show ?thesis by (auto simp: reconcile_eq getNs_def go_defs)
  next
    case (Inr latest)
    with getNs_view [OF get] assms(1,3) have "reconcileLatest K nc latest = reconcileNamespaceClassResources K latest nc"
      by (auto simp: settled_def reconcileLatest_def Let_def)
    with assms(2) get Inr obtain s where "reconcileNamespaceClassResources K latest nc w0 = (r, s, w')"
      and t: "t = EvGetNs (ns_Name ns) (Inr latest) # s"
      by (cases "reconcileNamespaceClassResources K latest nc w0") (simp add: reconcile_run)
    moreover have "safe (\<lambda>_ e. is_read e \<or> (\<exists>u. applied e = Some u)) [] (reconcileNamespaceClassResources K latest nc)"
      by (rule safe_resources_plain) auto
    ultimately show ?thesis by (auto dest: safe_list_all)
  qed
qed

end

section \<open>The objects of the previous class\<close>

text \<open>
  What keeps a cleanup from being complete: a discovery that reports an error, a list call that fails, a
  deletion that fails for another reason than that the object is gone.
\<close>

fun troubled :: "'w kube \<Rightarrow> event \<Rightarrow> bool" where
  "troubled K (EvDiscover rls (Some e)) = True"
| "troubled K (EvListObj gvk n key val (Inl e)) = True"
| "troubled K (EvDelete u (Inl e)) = (\<not> IsNotFound K e)"
| "troubled K _ = False"

text \<open>The discovered lists offer a type that both listings ask for.\<close>

definition offered :: "'w kube \<Rightarrow> string \<Rightarrow> string \<Rightarrow> event \<Rightarrow> bool" where
  "offered K g kd e \<longleftrightarrow> (case e of
     EvDiscover rls err \<Rightarrow> (\<exists>(gv, r)\<in>set (picked K (\<lambda>r. listable r \<and> shouldWatchResource r) rls). gv_Group gv = g \<and> ar_Kind r = kd)
   | _ \<Rightarrow> True)"

lemma offered_picked:
  assumes "offered K g kd (EvDiscover rls err)" and "\<And>r. listable r \<and> shouldWatchResource r \<Longrightarrow> pick r"
  obtains gv r where "(gv, r) \<in> set (picked K pick rls)" "gv_Group gv = g" "ar_Kind r = kd"
  using assms unfolding offered_def by (fastforce simp: in_picked)

lemma preferred_event:
  assumes "getServerPreferredResources K w = (r, t, w')"
  shows "\<exists>rls err. t = [EvDiscover rls err] \<and> (err = None \<longrightarrow> r = Ok rls)"
  using assms unfolding getServerPreferredResources_def ServerPreferredResources_def go_defs
  by (auto split: prod.splits option.splits go_error.splits if_splits)

text \<open>The list event that asked for a picked type.\<close>

lemma request_event:
  assumes "map listRequest t = map f ps" and "p \<in> set ps" and "f p = Some (gvk, n, key, val)"
  shows "\<exists>a. EvListObj gvk n key val a \<in> set t"
proof -
  from assms(2) have "f p \<in> set (map f ps)" by simp
  with assms(1,3) have "Some (gvk, n, key, val) \<in> listRequest ` set t" by (metis set_map)
  then obtain e where "e \<in> set t" and "listRequest e = Some (gvk, n, key, val)" by auto
  moreover from this(2) have "\<exists>a. e = EvListObj gvk n key val a" by (cases e) auto
  ultimately show ?thesis by blast
qed

lemma gone_None: "objs v k = None \<Longrightarrow> gone v k c"
  by (simp add: gone_def)

lemma delete_gone: "sees K v (EvDelete u a) \<Longrightarrow> \<not> troubled K (EvDelete u a) \<Longrightarrow> objs (effect (EvDelete u a) v) (obj_key u) = None"
  by (cases a) auto

context kube_cluster
begin

text \<open>Both listings find every object of an offered type with the label.\<close>

lemma listing_answer:
  assumes "sees K v (EvListObj gvk n key val a)" and "\<not> troubled K (EvListObj gvk n key val a)"
    and "lists_kind gvk g kd" and "objs v (g, kd, n, nm) = Some L" and "has_label L key val"
  shows "\<exists>us u. a = Inr us \<and> u \<in> set us \<and> obj_key u = (g, kd, n, nm)"
  using assms by (cases a) (simp_all, blast)

lemma owner_listing:
  assumes run: "getResourcesWithOwner K ns c w = (Ok ids, t, w')"
    and calm: "list_all (\<lambda>e. \<not> troubled K e) t" and off: "list_all (offered K g kd) t"
    and there: "objs (view w) (g, kd, ns_Name ns, nm) = Some L" "has_label L NamespaceClassOwner c"
  shows "resourceID \<lparr>Group = g, Version = [], Kind = kd\<rparr> nm \<in> set ids"
proof -
  obtain r t0 w1 where disc: "getServerPreferredResources K w = (r, t0, w1)"
    by (cases "getServerPreferredResources K w")
  with run obtain rls where r: "r = Ok rls"
    using getResourcesWithOwner_run [where K = K and w = w and ns = ns and c = c] by (cases r) auto
  let ?q = "\<lambda>(gv, r). Some (gvkOf gv r, ns_Name ns, NamespaceClassOwner, c)"
  obtain s where s: "t = t0 @ s" "map listRequest s = map ?q (picked K listable rls)"
    "ids = concat (map (\<lambda>e. map (\<lambda>(g, u). resourceID g (u_Name u)) (listAnswer e)) s)"
    using getResourcesWithOwner_run [where K = K and w = w and ns = ns and c = c] run disc r by auto
  obtain rls' err where t0: "t0 = [EvDiscover rls' err]" "err = None \<longrightarrow> r = Ok rls'"
    using preferred_event [OF disc] by blast
  with calm s(1) r have "err = None" "rls' = rls" by (cases err; auto)+
  with off s(1) t0(1) have "offered K g kd (EvDiscover rls None)" by simp
  then obtain gv ar where p: "(gv, ar) \<in> set (picked K listable rls)" "gv_Group gv = g" "ar_Kind ar = kd"
    by (rule offered_picked [where pick = listable]) auto
  obtain a where e: "EvListObj (gvkOf gv ar) (ns_Name ns) NamespaceClassOwner c a \<in> set s"
    using request_event [OF s(2) p(1)] by fastforce
  have "tracked (getResourcesWithOwner K ns c)"
    unfolding getResourcesWithOwner_def by (rule tracked_getCurrentResources)
  moreover have "safe (\<lambda>_ e. is_read e) [] (getResourcesWithOwner K ns c)" by (intro safe_getResourcesWithOwner) simp_all
  ultimately have "\<forall>e\<in>set t. sees K (view w) e"
    using run trackedD safe_list_all sees_all_reads by metis
  with e s(1) have "sees K (view w) (EvListObj (gvkOf gv ar) (ns_Name ns) NamespaceClassOwner c a)" by auto
  moreover have "\<not> troubled K (EvListObj (gvkOf gv ar) (ns_Name ns) NamespaceClassOwner c a)"
    using calm s(1) e by (auto simp: list_all_iff)
  moreover have "lists_kind (gvkOf gv ar) g kd" using p by (simp add: lists_kind_def gvkOf_def)
  ultimately obtain us u where "a = Inr us" "u \<in> set us" "obj_key u = (g, kd, ns_Name ns, nm)"
    using listing_answer there by blast
  then have "\<exists>x\<in>set (listAnswer (EvListObj (gvkOf gv ar) (ns_Name ns) NamespaceClassOwner c a)).
      (\<lambda>(g, u). resourceID g (u_Name u)) x = resourceID \<lparr>Group = g, Version = [], Kind = kd\<rparr> nm"
    using p by (intro bexI [of _ "(gvkOf gv ar, u)"]) (auto simp: resourceID_def gvkOf_def obj_key_def)
  with e show ?thesis unfolding s(3) by force
qed

lemma label_listing:
  assumes run: "listResourcesWithLabel K n key val w = (Ok us, t, w')"
    and calm: "list_all (\<lambda>e. \<not> troubled K e) t" and off: "list_all (offered K g kd) t"
    and there: "objs (view w) (g, kd, n, nm) = Some L" "has_label L key val"
  shows "\<exists>u\<in>set us. obj_key u = (g, kd, n, nm)"
proof -
  obtain r t0 w1 where disc: "getServerPreferredResources K w = (r, t0, w1)"
    by (cases "getServerPreferredResources K w")
  obtain rls err where t0: "t0 = [EvDiscover rls err]" "err = None \<longrightarrow> r = Ok rls"
    using preferred_event [OF disc] by blast
  have "set t0 \<subseteq> set t"
    using run disc unfolding listResourcesWithLabel_def by (cases r) (auto simp: go_defs split: prod.splits res.splits)
  with calm t0 have "err = None" by (cases err) (auto simp: list_all_iff)
  with t0 disc have disc_ok: "getServerPreferredResources K w = (Ok rls, t0, w1)" by simp
  let ?gvk = "\<lambda>gv r. \<lparr>Group = gv_Group gv, Version = gv_Version gv, Kind = ar_Kind r @ ''List''\<rparr>"
  let ?q = "\<lambda>(gv, r). Some (?gvk gv r, n, key, val)"
  obtain s where s: "t = t0 @ s" "map listRequest s = map ?q (picked K shouldWatchResource rls)"
    "us = concat (map (\<lambda>e. map snd (listAnswer e)) s)"
    using listResourcesWithLabel_run [OF disc_ok, of n key val] run by auto
  from off s(1) t0(1) \<open>err = None\<close> have "offered K g kd (EvDiscover rls None)" by simp
  then obtain gv ar where p: "(gv, ar) \<in> set (picked K shouldWatchResource rls)" "gv_Group gv = g" "ar_Kind ar = kd"
    by (rule offered_picked [where pick = shouldWatchResource]) auto
  obtain a where e: "EvListObj (?gvk gv ar) n key val a \<in> set s"
    using request_event [OF s(2) p(1)] by fastforce
  have "safe (\<lambda>_ e. is_read e) [] (listResourcesWithLabel K n key val)" by (intro safe_listResourcesWithLabel) simp_all
  then have "\<forall>e\<in>set t. sees K (view w) e"
    using run trackedD [OF tracked_listResourcesWithLabel] safe_list_all sees_all_reads by metis
  with e s(1) have "sees K (view w) (EvListObj (?gvk gv ar) n key val a)" by auto
  moreover have "\<not> troubled K (EvListObj (?gvk gv ar) n key val a)"
    using calm s(1) e by (auto simp: list_all_iff)
  moreover have "lists_kind (?gvk gv ar) g kd" using p by (simp add: lists_kind_def)
  ultimately obtain vs u where "a = Inr vs" "u \<in> set vs" "obj_key u = (g, kd, n, nm)"
    using listing_answer there by blast
  with e show ?thesis unfolding s(3) by force
qed

end

text \<open>A loop establishes what its body establishes at one element and keeps at all of them.\<close>

lemma for_maintains:
  assumes "forG f xs w = (Ok (), t, w')" and "Q w"
    and "\<And>y w s w1. y \<in> set xs \<Longrightarrow> f y w = (Ok (), s, w1) \<Longrightarrow> Q w \<Longrightarrow> Q w1"
  shows "Q w'"
  using assms
proof (induction xs arbitrary: w t)
  case (Cons z zs)
  from Cons.prems(1) obtain a b c where "f z w = (Ok (), a, b)" and rest: "forG f zs b = (Ok (), c, w')"
    by (auto elim!: bind_runE)
  then have "Q b" using Cons.prems(2,3) by (meson list.set_intros(1))
  from Cons.IH [OF rest this] Cons.prems(3) show ?case by (meson list.set_intros(2))
qed (simp add: returnG_def)

lemma for_establishes:
  assumes "forG f xs w = (Ok (), t, w')" and "x \<in> set xs"
    and "\<And>w s w1. f x w = (Ok (), s, w1) \<Longrightarrow> set s \<subseteq> set t \<Longrightarrow> Q w1"
    and "\<And>y w s w1. y \<in> set xs \<Longrightarrow> f y w = (Ok (), s, w1) \<Longrightarrow> Q w \<Longrightarrow> Q w1"
  shows "Q w'"
  using assms
proof (induction xs arbitrary: w t)
  case (Cons y ys)
  from Cons.prems(1) obtain s1 w1 s2 where y: "f y w = (Ok (), s1, w1)" and rest: "forG f ys w1 = (Ok (), s2, w')"
    and t: "t = s1 @ s2"
    by (auto elim!: bind_runE)
  have keep: "Q w1 \<Longrightarrow> Q w'"
    using for_maintains [OF rest, of Q] Cons.prems(4) by (meson list.set_intros(2))
  show ?case
  proof (cases "x \<in> set ys")
    case True
    then show ?thesis
      using Cons.IH [OF rest True] Cons.prems(3,4) t by (metis Un_iff list.set_intros(2) set_append subset_iff)
  next
    case False
    with Cons.prems(2) have "x = y" by simp
    with Cons.prems(3) y t have "Q w1" by simp
    then show ?thesis by (rule keep)
  qed
qed simp

context kube_cluster
begin

lemma cleanupResource_gone:
  assumes run: "cleanupResource K ns keep (resourceID \<lparr>Group = g, Version = [], Kind = kd\<rparr> nm) w = (r, t, w')"
    and calm: "list_all (\<lambda>e. \<not> troubled K e) t" and keep: "\<not> keep (resourceKey kd nm)"
    and plain: "CHR ''/'' \<notin> set g" "CHR ''/'' \<notin> set kd" "CHR ''/'' \<notin> set nm"
  shows "objs (view w') (g, kd, ns_Name ns, nm) = None"
proof -
  let ?del = "deleteResourceByKindAndName K (ns_Name ns) kd nm g"
  have "cleanupResource K ns keep (resourceID \<lparr>Group = g, Version = [], Kind = kd\<rparr> nm) =
      bindG (tryG ?del) (\<lambda>_. returnG ())"
    using resourceID_parts [of "\<lparr>Group = g, Version = [], Kind = kd\<rparr>" nm] plain keep
    by (simp add: cleanupResource_def Let_def indexG_def)
  with run have "t = trace_of ?del w"
    by (cases "?del w"; cases "fst (?del w)") (auto simp: go_defs)
  then obtain d v a u where t: "t = d @ [EvDelete u a]" and u: "u = zero_Unstructured\<lparr>
      u_GVK := \<lparr>Group = g, Version = v, Kind = kd\<rparr>, u_Namespace := ns_Name ns, u_Name := nm\<rparr>"
    using deleteResource_events [of K "ns_Name ns" kd nm g w] by metis
  have "view w' = effect (EvDelete u a) (effects d (view w))" and "sees K (effects d (view w)) (EvDelete u a)"
    using trackedD [OF tracked_cleanupResource run] by (simp_all add: t)
  moreover have "\<not> troubled K (EvDelete u a)" using calm t by simp
  ultimately have "objs (view w') (obj_key u) = None" using delete_gone by metis
  then show ?thesis by (simp add: u obj_key_def)
qed

lemma cleanupResource_keeps:
  "cleanupResource K ns keep i w = (r, t, w') \<Longrightarrow> gone (view w) k c \<Longrightarrow> gone (view w') k c"
  by (rule gone_frame [OF tracked_cleanupResource]) (rule safe_cleanupResource; simp)

lemma tracked_tryDelete: "tracked (bindG (tryG (deleteObj K u)) (\<lambda>_. returnG ()))"
  by (intro tracked_intro)

lemma delete_run: "bindG (tryG (deleteObj K u)) (\<lambda>_. returnG ()) w = (r, t, w') \<Longrightarrow> \<exists>a. t = [EvDelete u a]"
  by (auto simp: deleteObj_def go_defs split: prod.splits sum.splits)

text \<open>An object of the previous class that the new class does not have is gone after the cleanup.\<close>

lemma cleanupAll_gone:
  assumes run: "cleanupAllNamespaceClassResources K ns c w = (Ok (), t, w')"
    and calm: "list_all (\<lambda>e. \<not> troubled K e) t" and off: "list_all (offered K g kd) t"
    and there: "objs (view w) (g, kd, ns_Name ns, nm) = Some L" "has_label L NamespaceClassOwner c"
  shows "gone (view w') (g, kd, ns_Name ns, nm) c"
proof -
  let ?f = "\<lambda>u. bindG (tryG (deleteObj K u)) (\<lambda>_. returnG ())"
  from run obtain us t1 w1 t2 where list: "listResourcesWithLabel K (ns_Name ns) NamespaceClassOwner c w = (Ok us, t1, w1)"
    and del: "forG ?f us w1 = (Ok (), t2, w')" and t: "t = t1 @ t2"
    unfolding cleanupAllNamespaceClassResources_def by (auto elim!: bind_runE)
  obtain u where u: "u \<in> set us" "obj_key u = (g, kd, ns_Name ns, nm)"
    using label_listing [OF list _ _ there] calm off t by auto
  show ?thesis
  proof (rule for_establishes [OF del u(1)])
    fix v s v1
    assume step: "?f u v = (Ok (), s, v1)" and "set s \<subseteq> set t2"
    obtain a where s: "s = [EvDelete u a]" using delete_run [OF step] by blast
    with calm t \<open>set s \<subseteq> set t2\<close> have "\<not> troubled K (EvDelete u a)" by (auto simp: list_all_iff)
    moreover have "sees K (view v) (EvDelete u a)" "view v1 = effect (EvDelete u a) (view v)"
      using trackedD [OF tracked_tryDelete step] s by simp_all
    ultimately show "gone (view v1) (g, kd, ns_Name ns, nm) c"
      using delete_gone gone_None u(2) by metis
  next
    fix y v s v1
    assume step: "?f y v = (Ok (), s, v1)" and "gone (view v) (g, kd, ns_Name ns, nm) c"
    moreover obtain a where "s = [EvDelete y a]" using delete_run [OF step] by blast
    ultimately show "gone (view v1) (g, kd, ns_Name ns, nm) c"
      using trackedD [OF tracked_tryDelete step] by (simp add: effect_gone)
  qed
qed

lemma cleanup_gone:
  assumes run: "cleanupPreviousNamespaceClassResources K ns prev cur w = (Ok (), t, w')"
    and calm: "list_all (\<lambda>e. \<not> troubled K e) t" and off: "list_all (offered K g kd) t"
    and plain: "CHR ''/'' \<notin> set g" "CHR ''/'' \<notin> set kd" "CHR ''/'' \<notin> set nm"
    and dropped: "\<And>cc. EvGetClass (byName cur) (Inr cc) \<in> set t \<Longrightarrow> \<not> in_class K cc kd nm"
  shows "gone (view w') (g, kd, ns_Name ns, nm) prev"
proof (cases "gone (view w) (g, kd, ns_Name ns, nm) prev")
  case True
  show ?thesis
    by (rule gone_frame [OF tracked_cleanupPrevious _ run True]) (rule safe_cleanup_plain; simp)
next
  case False
  then obtain L where there: "objs (view w) (g, kd, ns_Name ns, nm) = Some L" "has_label L NamespaceClassOwner prev"
    by (auto simp: gone_def split: option.splits)
  obtain a w1 where get: "k_getClass K (byName prev) w = (a, w1)" by (cases "k_getClass K (byName prev) w")
  note same = getClass_view [OF get]
  show ?thesis
  proof (cases a)
    case (Inl e)
    with run get obtain s where "cleanupAllNamespaceClassResources K ns prev w1 = (Ok (), s, w')"
      and t: "t = EvGetClass (byName prev) (Inl e) # s"
      unfolding cleanupPreviousNamespaceClassResources_def getClass_def
      by (cases "cleanupAllNamespaceClassResources K ns prev w1") (auto simp: go_defs split: if_splits)
    from cleanupAll_gone [OF this(1)] calm off there same t show ?thesis by simp
  next
    case (Inr pc)
    let ?loop = "\<lambda>cc. forG (cleanupResource K ns (resourceMap K (Resources (Spec cc)) (\<lambda>_. False)))"
    let ?rest = "bindG (wrapG ''failed to list resources for previous class'' (getResourcesWithOwner K ns prev)) (\<lambda>ids.
        bindG (wrapG (''failed to get current NamespaceClass '' @ cur) (getClass K (byName cur))) (\<lambda>cc. ?loop cc ids))"
    have "\<exists>s. ?rest w1 = (Ok (), s, w') \<and> t = EvGetClass (byName prev) (Inr pc) # s"
      using run get Inr unfolding cleanupPreviousNamespaceClassResources_def getClass_def Let_def
      by (cases "?rest w1") (simp add: getClass_def go_defs split: prod.splits res.splits)
    then obtain s where rest: "?rest w1 = (Ok (), s, w')" and s: "t = EvGetClass (byName prev) (Inr pc) # s" by blast
    from rest obtain ids t1 w2 cc w3 t2 where list: "getResourcesWithOwner K ns prev w1 = (Ok ids, t1, w2)"
      and del: "?loop cc ids w3 = (Ok (), t2, w')" and t: "s = t1 @ EvGetClass (byName cur) (Inr cc) # t2"
      by (auto elim!: bind_runE simp: wrap_run_Ok getClass_def call_run_Ok)
    have id: "resourceID \<lparr>Group = g, Version = [], Kind = kd\<rparr> nm \<in> set ids"
      using owner_listing [OF list] calm off there same s t by simp
    have keep: "\<not> resourceMap K (Resources (Spec cc)) (\<lambda>_. False) (resourceKey kd nm)"
      using dropped s t by (simp add: resourceMap_in_class)
    show ?thesis
    proof (rule for_establishes [OF del id])
      fix v u v1
      assume step: "cleanupResource K ns (resourceMap K (Resources (Spec cc)) (\<lambda>_. False))
          (resourceID \<lparr>Group = g, Version = [], Kind = kd\<rparr> nm) v = (Ok (), u, v1)" and "set u \<subseteq> set t2"
      then have "list_all (\<lambda>e. \<not> troubled K e) u" using calm s t by (auto simp: list_all_iff)
      from cleanupResource_gone [OF step this keep plain] show "gone (view v1) (g, kd, ns_Name ns, nm) prev"
        by (rule gone_None)
    qed (rule cleanupResource_keeps)
  qed
qed

end

text \<open>The class read for the switch has no resource of the kind and name.\<close>

fun leaves_out :: "'w kube \<Rightarrow> string \<Rightarrow> string \<Rightarrow> string \<Rightarrow> event \<Rightarrow> bool" where
  "leaves_out K c kd nm (EvGetClass key (Inr cc)) \<longleftrightarrow>
     (key = byName c \<longrightarrow> \<not> resourceMap K (Resources (Spec cc)) (\<lambda>_. False) (resourceKey kd nm))"
| "leaves_out K c kd nm _ \<longleftrightarrow> True"

definition clears :: "'w kube \<Rightarrow> string \<Rightarrow> string \<Rightarrow> string \<Rightarrow> string \<Rightarrow> event \<Rightarrow> bool" where
  "clears K c g kd nm e \<longleftrightarrow> \<not> troubled K e \<and> offered K g kd e \<and> leaves_out K c kd nm e"

lemma clears_all:
  "list_all (clears K c g kd nm) t \<Longrightarrow> list_all (\<lambda>e. \<not> troubled K e) t \<and> list_all (offered K g kd) t \<and>
    (\<forall>cc. EvGetClass (byName c) (Inr cc) \<in> set t \<longrightarrow> \<not> in_class K cc kd nm)"
  by (auto simp: clears_def list_all_iff resourceMap_in_class [symmetric])

context kube_cluster
begin

lemma resources_gone:
  assumes "reconcileNamespaceClassResources K ns nc w = (r, t, w')" and "prev \<noteq> nc_Name nc" and "gone (view w) k prev"
  shows "gone (view w') k prev"
proof (rule gone_frame [OF tracked_resources _ assms(1,3)], rule safe_reconcileNamespaceClassResources)
  fix h' e
  assume "live_write K (ns_Name ns) (nc_Name nc) h' e"
  with kube_client_axioms obtain u where "applied e = Some u" "has_label (u_Labels u) NamespaceClassOwner (nc_Name nc)"
    by (auto simp: owned_by_def dest!: live_write_owned)
  with assms(2) show "stores_no prev e"
    by (auto simp: stores_no_def has_label_def split: option.splits)
qed simp

lemma switch_gone:
  assumes run: "reconcileNamespaceWithClass K ns nc w = (Ok (), t, w')"
    and latest: "k_getNs K (ns_Name ns) w = (Inr latest, w0)" and switch: "switching latest (nc_Name nc) prev"
    and clear: "list_all (clears K (nc_Name nc) g kd nm) t"
    and plain: "CHR ''/'' \<notin> set g" "CHR ''/'' \<notin> set kd" "CHR ''/'' \<notin> set nm"
  shows "gone (view w') (g, kd, ns_Name ns, nm) prev"
proof -
  let ?c = "nc_Name nc" and ?k = "(g, kd, ns_Name ns, nm)"
  from run obtain s where s: "reconcileLatest K nc latest w0 = (Ok (), s, w')" "t = EvGetNs (ns_Name ns) (Inr latest) # s"
    by (cases "reconcileLatest K nc latest w0") (simp add: reconcile_run [OF latest])
  have name: "ns_Name latest = ns_Name ns" using getNs_view [OF latest] by simp
  from s(1) switch obtain s1 w1 s2 w2 s3 w3 r s4
    where clean: "cleanupPreviousNamespaceClassResources K latest prev ?c w0 = (Ok (), s1, w1)"
      and ann: "updateCurrentClassAnnotation K latest ?c w1 = (Ok (), s2, w2)"
      and apply_run: "reconcileNamespaceClassResources K latest nc w2 = (Ok (), s3, w3)"
      and report: "updateClassSwitchStatus K latest ?c prev w3 = (r, s4, w')" and "s = s1 @ s2 @ EvSpawn prev # s3 @ s4"
    by (rule switching_steps)
  then have "list_all (clears K ?c g kd nm) s1" using clear s(2) by (auto simp: list_all_iff)
  with cleanup_gone [OF clean _ _ plain] clears_all name have "gone (view w1) ?k prev" by metis
  moreover have "safe (\<lambda>_. stores_no prev) [] (updateCurrentClassAnnotation K latest ?c)"
    by (rule safe_switch_plain) simp_all
  ultimately have "gone (view w2) ?k prev"
    using gone_frame [OF tracked_updateCurrentClassAnnotation _ ann] by blast
  with apply_run switch have "gone (view w3) ?k prev" by (auto simp: switching_def intro: resources_gone)
  moreover have "safe (\<lambda>_. stores_no prev) [] (updateClassSwitchStatus K latest ?c prev)"
    by (rule safe_switchStatus_plain) simp_all
  ultimately show ?thesis
    using gone_frame [OF tracked_updateClassSwitchStatus _ report] by blast
qed

end

section \<open>Properties\<close>

text \<open>
  C15: a reconciliation settles.  In a cluster that nobody else changes, a reconciliation of a namespace with
  a class that succeeds leaves the class recorded in the namespace's annotations, and as long as they
  stay as they are every further reconciliation with that class, whatever becomes of it, only reads and
  applies the objects of the class: no annotation, no deletion, no goroutine, no status report.
\<close>

theorem reconcile_settles:
  assumes "kube_cluster K view" and "reconcileNamespaceWithClass K ns nc w = (Ok (), t, w')" and "nc_Name nc \<noteq> ''''"
    and "nss (view w2) (ns_Name ns) = nss (view w') (ns_Name ns)"
    and "reconcileNamespaceWithClass K ns nc w2 = (r2, t2, w3)"
  shows "settled (view w2) (ns_Name ns) (nc_Name nc) \<and> list_all (\<lambda>e. is_read e \<or> (\<exists>u. applied e = Some u)) t2"
proof -
  have "settled (view w2) (ns_Name ns) (nc_Name nc)"
    using kube_cluster.namespace_settles [OF assms(1-3)] settled_cong [OF assms(4)] by simp
  with kube_cluster.settled_run [OF assms(1) this assms(5,3)] show ?thesis by simp
qed

lemma reconcile_settles_witness:
  "let run = reconcileNamespaceWithClass mem_kube sample_switching (sample_class ''public-network'' []) in
   settled (mem_view (state_of run switching_cluster)) ''web-portal'' ''public-network'' \<and>
   list_all (\<lambda>e. is_read e \<or> (\<exists>u. applied e = Some u)) (trace_of run (state_of run switching_cluster))"
proof -
  let ?run = "reconcileNamespaceWithClass mem_kube sample_switching (sample_class ''public-network'' [])"
  let ?w1 = "state_of ?run switching_cluster"
  have "fst (?run switching_cluster) = Ok ()" by code_simp
  then have run: "?run switching_cluster = (Ok (), trace_of ?run switching_cluster, ?w1)" by (metis prod.collapse)
  have names: "ns_Name sample_switching = ''web-portal''" "nc_Name (sample_class ''public-network'' []) = ''public-network''"
    by (simp_all add: sample_defs)
  have again: "?run ?w1 = (fst (?run ?w1), trace_of ?run ?w1, state_of ?run ?w1)" by simp
  have "nc_Name (sample_class ''public-network'' []) \<noteq> ''''" by (simp add: names)
  from reconcile_settles [OF mem_cluster.kube_cluster_axioms run this refl again] show ?thesis
    by (simp only: Let_def names)
qed

text \<open>
  C13: a switch of class cleans up.  In a cluster that nobody else changes and where deletions take effect at
  once, a reconciliation that succeeds for a namespace recorded under another class \<open>prev\<close> leaves no object
  with the owner label of \<open>prev\<close> under a group, kind and name that discovery offers and the new class
  does not have, provided no list call and no deletion failed on the way (their errors are only logged
  by the code) and the group, the kind and the name have no slash.
\<close>

theorem switch_removes_previous:
  assumes "kube_cluster K view" and "reconcileNamespaceWithClass K ns nc w = (Ok (), t, w')"
    and "k_getNs K (ns_Name ns) w = (Inr latest, w0)" and "switching latest (nc_Name nc) prev"
    and "list_all (clears K (nc_Name nc) g kd nm) t"
    and "CHR ''/'' \<notin> set g" and "CHR ''/'' \<notin> set kd" and "CHR ''/'' \<notin> set nm"
  shows "gone (view w') (g, kd, ns_Name ns, nm) prev"
  using assms by (rule kube_cluster.switch_gone)

lemma switch_removes_previous_witness:
  "\<not> gone (mem_view switching_cluster) ('''', ''ConfigMap'', ''web-portal'', ''internal-config'') ''internal-network'' \<and>
   gone (mem_view (state_of (reconcileNamespaceWithClass mem_kube sample_switching (sample_class ''public-network'' []))
      switching_cluster)) ('''', ''ConfigMap'', ''web-portal'', ''internal-config'') ''internal-network''"
proof (rule conjI)
  let ?run = "reconcileNamespaceWithClass mem_kube sample_switching (sample_class ''public-network'' []) switching_cluster"
  have "fst ?run = Ok ()" by code_simp
  then have run: "?run = (Ok (), fst (snd ?run), snd (snd ?run))" by (metis prod.collapse)
  have names: "ns_Name sample_switching = ''web-portal''" "nc_Name (sample_class ''public-network'' []) = ''public-network''"
    by (simp_all add: sample_defs)
  have get: "k_getNs mem_kube (ns_Name sample_switching) switching_cluster = (Inr sample_switching, switching_cluster)"
    by (simp add: mem_kube_def mem_getNs_def find_or_def switching_cluster_def)
  have switch: "switching sample_switching (nc_Name (sample_class ''public-network'' [])) ''internal-network''"
    by (simp add: switching_def sample_defs map_read_def)
  have clear: "list_all (clears mem_kube (nc_Name (sample_class ''public-network'' [])) '''' ''ConfigMap'' ''internal-config'') (fst (snd ?run))"
    by code_simp
  from switch_removes_previous [OF mem_cluster.kube_cluster_axioms run get switch clear]
  show "gone (mem_view (snd (snd ?run))) ('''', ''ConfigMap'', ''web-portal'', ''internal-config'') ''internal-network''"
    by (simp add: names)
qed (simp add: gone_def mem_view_def mem_at_def has_key_def obj_key_def sample_defs zero_Unstructured_def has_label_def)

end
