(* ===== verification/Watch_Setup.thy ===== *)
theory Watch_Setup imports Labelled_Resources "HOL-Library.Multiset" begin

text \<open>
  How the controller is woken up: \<open>SetupWithManager\<close> and \<open>enqueueNamespaceWithClassFilter\<close> of
  \<open>namespaceclass_controller.go\<close> (the predicates that filter watch events and the functions that
  map an object to reconcile requests), and \<open>namespaceclass_resource_watcher.go\<close> (one watch
  controller per discovered resource type).
\<close>

section \<open>Events of a watch and the predicates on them\<close>

text \<open>\<open>UpdateEvent old new\<close> is \<open>event.UpdateEvent{ObjectOld, ObjectNew}\<close>.\<close>

datatype 'o watch_event = CreateEvent 'o | UpdateEvent 'o 'o | DeleteEvent 'o

fun ownedResourcePredicate :: "Unstructured watch_event \<Rightarrow> bool" where
  "ownedResourcePredicate (CreateEvent ob) \<longleftrightarrow> map_read (u_Labels ob) NamespaceClassOwner \<noteq> ''''"
| "ownedResourcePredicate (UpdateEvent old new) \<longleftrightarrow>
     map_read (u_Labels new) NamespaceClassOwner \<noteq> '''' \<or> map_read (u_Labels old) NamespaceClassOwner \<noteq> ''''"
| "ownedResourcePredicate (DeleteEvent ob) \<longleftrightarrow> map_read (u_Labels ob) NamespaceClassOwner \<noteq> ''''"

fun namespacePredicate :: "Namespace watch_event \<Rightarrow> bool" where
  "namespacePredicate (CreateEvent ns) \<longleftrightarrow>
     (map_read (ns_Labels ns) NamespaceClassLabel \<noteq> '''' \<or>
      map_read (ns_Annotations ns) CurrentClassAnnotation \<noteq> '''') \<and> ns_DeletionTimestamp ns = None"
| "namespacePredicate (UpdateEvent old new) \<longleftrightarrow>
     (if ns_DeletionTimestamp new \<noteq> None then False
      else
        let newLabel = map_read (ns_Labels new) NamespaceClassLabel;
            oldLabel = map_read (ns_Labels old) NamespaceClassLabel;
            newAnnotation = map_read (ns_Annotations new) CurrentClassAnnotation;
            oldAnnotation = map_read (ns_Annotations old) CurrentClassAnnotation;
            hasLabelChange = newLabel \<noteq> oldLabel \<or> (newLabel \<noteq> '''' \<or> oldLabel \<noteq> '''');
            hasAnnotationChange = newAnnotation \<noteq> oldAnnotation \<or> (newAnnotation \<noteq> '''' \<or> oldAnnotation \<noteq> '''') in
        hasLabelChange \<or> hasAnnotationChange)"
| "namespacePredicate (DeleteEvent ns) \<longleftrightarrow>
     map_read (ns_Labels ns) NamespaceClassLabel \<noteq> '''' \<or>
     map_read (ns_Annotations ns) CurrentClassAnnotation \<noteq> ''''"

section \<open>From an object to requests\<close>

text \<open>The kind the function works out is only logged.\<close>

definition enqueueForOwningNamespaceClass :: "Unstructured \<Rightarrow> NamespacedName list" where
  "enqueueForOwningNamespaceClass ob =
     (if map_read (u_Labels ob) NamespaceClassOwner = '''' then []
      else if u_Namespace ob = '''' then []
      else [byName (u_Namespace ob)])"

text \<open>A \<open>client.Object\<close>, as far as the type assertion of the code tells them apart.\<close>

datatype client_Object = NamespaceObject Namespace | OtherObject string

definition enqueueNamespaceWithClassFilter :: "client_Object \<Rightarrow> NamespacedName list" where
  "enqueueNamespaceWithClassFilter ob =
     (case ob of
        OtherObject _ \<Rightarrow> []
      | NamespaceObject ns \<Rightarrow>
          if ns_DeletionTimestamp ns \<noteq> None then []
          else
            let currentClassName = (if ns_Labels ns \<noteq> None then map_read (ns_Labels ns) NamespaceClassLabel else '''');
                previousClassName = (if ns_Annotations ns \<noteq> None
                  then map_read (ns_Annotations ns) CurrentClassAnnotation else '''');
                requests0 = (if currentClassName \<noteq> '''' \<or> previousClassName \<noteq> '''' then [byName (ns_Name ns)] else []);
                requests1 = (if previousClassName \<noteq> '''' \<and> currentClassName \<noteq> previousClassName \<and>
                                previousClassName \<noteq> currentClassName
                  then requests0 @ (if previousClassName \<noteq> '''' then [byName previousClassName] else [])
                  else requests0) in
            if currentClassName \<noteq> '''' \<and> currentClassName \<noteq> previousClassName
            then requests1 @ [byName currentClassName] else requests1)"

text \<open>The function registered for changes of a class: one request per namespace that uses it.\<close>

definition enqueueNamespacesOfClass :: "'w kube \<Rightarrow> string \<Rightarrow> ('w, NamespacedName list) prog" where
  "enqueueNamespacesOfClass K className =
     bindG (tryG (listNs K NamespaceClassLabel className)) (\<lambda>a.
       case a of
         Inl _ \<Rightarrow> returnG []
       | Inr nsList \<Rightarrow> returnG (map (\<lambda>ns. byName (ns_Name ns)) nsList))"

section \<open>One watch controller per resource type\<close>

record ResourceWatchResult =
  WatchedTypes :: "GroupVersionKind list"
  FailedTypes :: "GroupVersionKind list"

definition normalizeName :: "string \<Rightarrow> string" where
  "normalizeName name =
     (let normalized = replace_char CHR ''.'' CHR ''-'' name in
      if normalized = '''' then ''core'' else to_lower normalized)"

text \<open>The name built in \<open>createWatchForGVK\<close>, cut to \<open>maxNameLength\<close>.\<close>

definition controllerName :: "GroupVersionKind \<Rightarrow> string" where
  "controllerName gvk =
     (let name = ''namespaceclass-'' @ normalizeName (Group gvk) @ ''-'' @ normalizeName (Version gvk) @ ''-'' @
                 normalizeName (Kind gvk) @ ''-watch'' in
      if length name > 60 then take 60 name else name)"

text \<open>\<open>schema.GroupVersionKind.Empty\<close>: the zero value.\<close>

definition gvk_Empty :: "GroupVersionKind \<Rightarrow> bool" where
  "gvk_Empty gvk \<longleftrightarrow> Group gvk = '''' \<and> Version gvk = '''' \<and> Kind gvk = ''''"

definition createWatchForGVK :: "'w kube \<Rightarrow> GroupVersionKind \<Rightarrow> ('w, unit) prog" where
  "createWatchForGVK K gvk =
     (if gvk_Empty gvk then failG (EMsg ''empty GroupVersionKind'')
      else watchObj K (controllerName gvk) gvk)"

primrec watchResourcesInGroupVersion ::
  "'w kube \<Rightarrow> GroupVersion \<Rightarrow> APIResource list \<Rightarrow> ResourceWatchResult \<Rightarrow> ('w, ResourceWatchResult) prog" where
  "watchResourcesInGroupVersion K gv [] result = returnG result"
| "watchResourcesInGroupVersion K gv (apiResource # rest) result =
     (if \<not> shouldWatchResource apiResource then watchResourcesInGroupVersion K gv rest result
      else
        let gvk = \<lparr>Group = gv_Group gv, Version = gv_Version gv, Kind = ar_Kind apiResource\<rparr> in
        bindG (tryG (createWatchForGVK K gvk)) (\<lambda>a.
          case a of
            Inl err \<Rightarrow> watchResourcesInGroupVersion K gv rest (result\<lparr>FailedTypes := FailedTypes result @ [gvk]\<rparr>)
          | Inr _ \<Rightarrow> watchResourcesInGroupVersion K gv rest (result\<lparr>WatchedTypes := WatchedTypes result @ [gvk]\<rparr>)))"

primrec watchResourceLists ::
  "'w kube \<Rightarrow> APIResourceList list \<Rightarrow> ResourceWatchResult \<Rightarrow> ('w, ResourceWatchResult) prog" where
  "watchResourceLists K [] result = returnG result"
| "watchResourceLists K (resourceList # rest) result =
     (if APIResources resourceList = [] then watchResourceLists K rest result
      else (case ParseGroupVersion K (rl_GroupVersion resourceList) of
              Inl err \<Rightarrow> watchResourceLists K rest result
            | Inr gv \<Rightarrow>
                bindG (watchResourcesInGroupVersion K gv (APIResources resourceList) result)
                  (watchResourceLists K rest)))"

text \<open>The Go function returns a result and an error at once.\<close>

definition watchDiscoveredResources :: "'w kube \<Rightarrow> ('w, ResourceWatchResult \<times> go_error option) prog" where
  "watchDiscoveredResources K =
     (let result = \<lparr>WatchedTypes = [], FailedTypes = []\<rparr> in
      bindG (tryG (getServerPreferredResources K)) (\<lambda>a.
        case a of
          Inl err \<Rightarrow> returnG (result, Some err)
        | Inr resourceLists \<Rightarrow>
            bindG (watchResourceLists K resourceLists result) (\<lambda>result. returnG (result, None))))"

text \<open>The loop of \<open>formatGVKsForLogging\<close> at index \<open>i\<close>.\<close>

primrec formatGVKs :: "nat \<Rightarrow> GroupVersionKind list \<Rightarrow> string list" where
  "formatGVKs i [] = []"
| "formatGVKs i (gvk # gvks) =
     (if i \<ge> 10 then []
      else (if Group gvk = '''' then Kind gvk else Kind gvk @ ''.'' @ Group gvk) # formatGVKs (i + 1) gvks)"

definition formatGVKsForLogging :: "GroupVersionKind list \<Rightarrow> string list" where
  "formatGVKsForLogging gvks =
     (let result = formatGVKs 0 gvks in
      if length gvks > 10 then result @ [''and '' @ show_nat (length gvks - 10) @ '' more''] else result)"

text \<open>An error of the watch setup is logged only.\<close>

definition setupResourceWatchers :: "'w kube \<Rightarrow> ('w, unit) prog" where
  "setupResourceWatchers K = bindG (watchDiscoveredResources K) (\<lambda>(result, err). returnG ())"

definition SetupWithManager :: "'w kube \<Rightarrow> ('w, unit) prog" where
  "SetupWithManager K = bindG (setupResourceWatchers K) (\<lambda>_. manage K ''namespaceclass'')"

section \<open>What the watch setup does\<close>

text \<open>
  One step of the setup, as a relation between the type and the event it leaves (none for the empty
  type, which is refused without a call).
\<close>

definition watch_step :: "GroupVersionKind \<Rightarrow> event list \<Rightarrow> bool \<Rightarrow> bool" where
  "watch_step gvk t ok \<longleftrightarrow>
     (if gvk_Empty gvk then t = [] \<and> \<not> ok
      else \<exists>a. t = [EvWatch (controllerName gvk) gvk a] \<and> (ok \<longleftrightarrow> a = Inr ()))"

text \<open>
  \<open>watch_log gvks t ws fs\<close>: the types \<open>gvks\<close> were set up in order with the events \<open>t\<close>; the
  successes are \<open>ws\<close>, the failures \<open>fs\<close>, each in the order of \<open>gvks\<close>.
\<close>

inductive watch_log :: "GroupVersionKind list \<Rightarrow> event list \<Rightarrow> GroupVersionKind list \<Rightarrow> GroupVersionKind list \<Rightarrow> bool" where
  none: "watch_log [] [] [] []"
| watched: "watch_step gvk t True \<Longrightarrow> watch_log gvks t' ws fs \<Longrightarrow> watch_log (gvk # gvks) (t @ t') (gvk # ws) fs"
| failed: "watch_step gvk t False \<Longrightarrow> watch_log gvks t' ws fs \<Longrightarrow> watch_log (gvk # gvks) (t @ t') ws (gvk # fs)"

lemma watch_log_append:
  "watch_log gvks t ws fs \<Longrightarrow> watch_log gvks' t' ws' fs' \<Longrightarrow> watch_log (gvks @ gvks') (t @ t') (ws @ ws') (fs @ fs')"
proof (induction rule: watch_log.induct)
  case (watched gvk t gvks s ws fs)
  then show ?case using watch_log.watched [of gvk t "gvks @ gvks'" "s @ t'"] by simp
next
  case (failed gvk t gvks s ws fs)
  then show ?case using watch_log.failed [of gvk t "gvks @ gvks'" "s @ t'"] by simp
qed simp

lemma watch_log_mset: "watch_log gvks t ws fs \<Longrightarrow> mset ws + mset fs = mset gvks"
  by (induction rule: watch_log.induct) auto

lemma watch_log_events:
  "watch_log gvks t ws fs \<Longrightarrow>
    (\<forall>g\<in>set ws. EvWatch (controllerName g) g (Inr ()) \<in> set t) \<and>
    (\<forall>g\<in>set fs. gvk_Empty g \<or> (\<exists>e. EvWatch (controllerName g) g (Inl e) \<in> set t))"
proof (induction rule: watch_log.induct)
  case (failed gvk t gvks s ws fs)
  have "gvk_Empty gvk \<or> (\<exists>e. EvWatch (controllerName gvk) gvk (Inl e) \<in> set t)"
    using failed.hyps(1) unfolding watch_step_def by (auto split: if_splits) (metis old.sum.exhaust old.unit.exhaust)
  with failed.IH show ?case by auto
qed (auto simp: watch_step_def split: if_splits)

lemma createWatch_step:
  "\<exists>t w'. watch_step gvk t True \<and> tryG (createWatchForGVK K gvk) w = (Ok (Inr ()), t, w') \<or>
    (\<exists>e. watch_step gvk t False \<and> tryG (createWatchForGVK K gvk) w = (Ok (Inl e), t, w'))"
proof (cases "gvk_Empty gvk")
  case False
  obtain a w' where "k_watch K (controllerName gvk) gvk w = (a, w')"
    by (cases "k_watch K (controllerName gvk) gvk w")
  with False show ?thesis
    by (cases a) (auto simp: createWatchForGVK_def watchObj_def go_defs watch_step_def)
qed (simp add: createWatchForGVK_def watch_step_def go_defs)

lemma watchGV_log:
  "\<exists>t w' ws fs. watchResourcesInGroupVersion K gv rs res w =
      (Ok (res\<lparr>WatchedTypes := WatchedTypes res @ ws, FailedTypes := FailedTypes res @ fs\<rparr>), t, w') \<and>
    watch_log (map (gvkOf gv) (filter shouldWatchResource rs)) t ws fs"
proof (induction rs arbitrary: res w)
  case Nil
  show ?case by (intro exI [of _ "[]"] exI [of _ w]) (simp add: returnG_def watch_log.none)
next
  case (Cons r rs)
  show ?case
  proof (cases "shouldWatchResource r")
    case False
    with Cons.IH [of res w] show ?thesis by simp
  next
    case True
    let ?g = "gvkOf gv r"
    have g: "\<lparr>Group = gv_Group gv, Version = gv_Version gv, Kind = ar_Kind r\<rparr> = ?g" by (simp add: gvkOf_def)
    from createWatch_step [of ?g K w] show ?thesis
    proof (elim exE disjE conjE)
      fix t w1
      let ?res = "res\<lparr>WatchedTypes := WatchedTypes res @ [?g]\<rparr>"
      assume step: "watch_step ?g t True" "tryG (createWatchForGVK K ?g) w = (Ok (Inr ()), t, w1)"
      obtain t' w' ws fs where "watchResourcesInGroupVersion K gv rs ?res w1 =
          (Ok (?res\<lparr>WatchedTypes := WatchedTypes ?res @ ws, FailedTypes := FailedTypes ?res @ fs\<rparr>), t', w')"
        "watch_log (map (gvkOf gv) (filter shouldWatchResource rs)) t' ws fs"
        using Cons.IH by blast
      with step True show ?thesis
        by - (rule exI [of _ "t @ t'"], rule exI [of _ w'], rule exI [of _ "?g # ws"], rule exI [of _ fs],
          simp add: g bindG_def Let_def watch_log.watched)
    next
      fix t w1 e
      let ?res = "res\<lparr>FailedTypes := FailedTypes res @ [?g]\<rparr>"
      assume step: "watch_step ?g t False" "tryG (createWatchForGVK K ?g) w = (Ok (Inl e), t, w1)"
      obtain t' w' ws fs where "watchResourcesInGroupVersion K gv rs ?res w1 =
          (Ok (?res\<lparr>WatchedTypes := WatchedTypes ?res @ ws, FailedTypes := FailedTypes ?res @ fs\<rparr>), t', w')"
        "watch_log (map (gvkOf gv) (filter shouldWatchResource rs)) t' ws fs"
        using Cons.IH by blast
      with step True show ?thesis
        by - (rule exI [of _ "t @ t'"], rule exI [of _ w'], rule exI [of _ ws], rule exI [of _ "?g # fs"],
          simp add: g bindG_def Let_def watch_log.failed)
    qed
  qed
qed

lemma picked_Cons: "picked K pick (rl # rls) = picked K pick [rl] @ picked K pick rls"
  by (simp add: picked_def)

lemma watchLists_log:
  "\<exists>t w' ws fs. watchResourceLists K rls res w =
      (Ok (res\<lparr>WatchedTypes := WatchedTypes res @ ws, FailedTypes := FailedTypes res @ fs\<rparr>), t, w') \<and>
    watch_log (map (\<lambda>(gv, r). gvkOf gv r) (picked K shouldWatchResource rls)) t ws fs"
proof (induction rls arbitrary: res w)
  case Nil
  show ?case by (intro exI [of _ "[]"] exI [of _ w]) (simp add: returnG_def picked_def watch_log.none)
next
  case (Cons rl rls)
  show ?case
  proof (cases "APIResources rl = [] \<or> (\<exists>e. ParseGroupVersion K (rl_GroupVersion rl) = Inl e)")
    case True
    then have "watchResourceLists K (rl # rls) res = watchResourceLists K rls res"
      and "picked K shouldWatchResource (rl # rls) = picked K shouldWatchResource rls"
      by (auto simp: picked_def split: sum.split)
    with Cons.IH [of res w] show ?thesis by simp
  next
    case False
    then obtain gv where gv: "APIResources rl \<noteq> []" "ParseGroupVersion K (rl_GroupVersion rl) = Inr gv"
      by (cases "ParseGroupVersion K (rl_GroupVersion rl)") auto
    obtain t w1 ws fs where one: "watchResourcesInGroupVersion K gv (APIResources rl) res w =
        (Ok (res\<lparr>WatchedTypes := WatchedTypes res @ ws, FailedTypes := FailedTypes res @ fs\<rparr>), t, w1)"
      "watch_log (map (gvkOf gv) (filter shouldWatchResource (APIResources rl))) t ws fs"
      using watchGV_log [of K gv "APIResources rl" res w] by blast
    let ?res = "res\<lparr>WatchedTypes := WatchedTypes res @ ws, FailedTypes := FailedTypes res @ fs\<rparr>"
    obtain t' w' ws' fs' where rest: "watchResourceLists K rls ?res w1 =
        (Ok (?res\<lparr>WatchedTypes := WatchedTypes ?res @ ws', FailedTypes := FailedTypes ?res @ fs'\<rparr>), t', w')"
      "watch_log (map (\<lambda>(gv, r). gvkOf gv r) (picked K shouldWatchResource rls)) t' ws' fs'"
      using Cons.IH by blast
    have "map (\<lambda>(gv, r). gvkOf gv r) (picked K shouldWatchResource [rl]) =
        map (gvkOf gv) (filter shouldWatchResource (APIResources rl))"
      using gv by (simp add: picked_def comp_def)
    with watch_log_append [OF one(2) rest(2)]
    have "watch_log (map (\<lambda>(gv, r). gvkOf gv r) (picked K shouldWatchResource (rl # rls))) (t @ t') (ws @ ws') (fs @ fs')"
      by (simp only: picked_Cons [of K shouldWatchResource rl rls] map_append)
    with one rest gv show ?thesis
      by - (rule exI [of _ "t @ t'"], rule exI [of _ w'], rule exI [of _ "ws @ ws'"], rule exI [of _ "fs @ fs'"],
        simp add: bindG_def)
  qed
qed

section \<open>Properties\<close>

lemma watchDiscoveredResources_run:
  assumes "getServerPreferredResources K w = (Ok rls, t0, w1)"
  shows "\<exists>ws fs t w'. watchDiscoveredResources K w = (Ok (\<lparr>WatchedTypes = ws, FailedTypes = fs\<rparr>, None), t0 @ t, w') \<and>
    mset ws + mset fs = mset (map (\<lambda>(gv, r). gvkOf gv r) (picked K shouldWatchResource rls)) \<and>
    (\<forall>g\<in>set ws. EvWatch (controllerName g) g (Inr ()) \<in> set t) \<and>
    (\<forall>g\<in>set fs. gvk_Empty g \<or> (\<exists>e. EvWatch (controllerName g) g (Inl e) \<in> set t))"
proof -
  obtain t w' ws fs where run: "watchResourceLists K rls \<lparr>WatchedTypes = [], FailedTypes = []\<rparr> w1 =
      (Ok \<lparr>WatchedTypes = ws, FailedTypes = fs\<rparr>, t, w')"
    and log: "watch_log (map (\<lambda>(gv, r). gvkOf gv r) (picked K shouldWatchResource rls)) t ws fs"
    using watchLists_log [of K rls "\<lparr>WatchedTypes = [], FailedTypes = []\<rparr>" w1] by auto
  have "watchDiscoveredResources K w = (Ok (\<lparr>WatchedTypes = ws, FailedTypes = fs\<rparr>, None), t0 @ t, w')"
    using assms run by (simp add: watchDiscoveredResources_def Let_def go_defs)
  with watch_log_mset [OF log] watch_log_events [OF log] show ?thesis by blast
qed

text \<open>
  C28: the watch setup accounts for every discovered type.  With the lists \<open>rls\<close> discovered it returns
  without an error, and the watched and the failed types together are exactly the watchable types
  discovery offers; each watched type has its controller registered, each failed one has the refusal
  of the manager in the log (or is the empty type).
\<close>

theorem watchDiscoveredResources_partition:
  assumes "getServerPreferredResources K w = (Ok rls, t0, w1)"
  shows "\<exists>ws fs t w'. watchDiscoveredResources K w = (Ok (\<lparr>WatchedTypes = ws, FailedTypes = fs\<rparr>, None), t0 @ t, w') \<and>
    mset ws + mset fs = mset (map (\<lambda>(gv, r). gvkOf gv r) (picked K shouldWatchResource rls)) \<and>
    (\<forall>g\<in>set ws. EvWatch (controllerName g) g (Inr ()) \<in> set t) \<and>
    (\<forall>g\<in>set fs. gvk_Empty g \<or> (\<exists>e. EvWatch (controllerName g) g (Inl e) \<in> set t))"
  using assms by (rule watchDiscoveredResources_run)

lemma watchDiscoveredResources_partition_witness:
  "\<exists>ws fs t w'. watchDiscoveredResources mem_kube sample_cluster =
      (Ok (\<lparr>WatchedTypes = ws, FailedTypes = fs\<rparr>, None), [EvDiscover sample_discovery None] @ t, w') \<and>
    mset ws + mset fs = mset (map (\<lambda>(gv, r). gvkOf gv r) (picked mem_kube shouldWatchResource sample_discovery)) \<and>
    (\<forall>g\<in>set ws. EvWatch (controllerName g) g (Inr ()) \<in> set t) \<and>
    (\<forall>g\<in>set fs. gvk_Empty g \<or> (\<exists>e. EvWatch (controllerName g) g (Inl e) \<in> set t))"
  by (rule watchDiscoveredResources_partition [where ?w1.0 = sample_cluster])
    (simp add: getServerPreferredResources_def ServerPreferredResources_def go_defs mem_kube_def sample_cluster_def)

lemma SetupWithManager_run:
  "\<exists>t a. trace_of (SetupWithManager K) w = t @ [EvManage ''namespaceclass'' a] \<and>
     (result_of (SetupWithManager K) w = Ok () \<longleftrightarrow> a = Inr ()) \<and> (\<forall>p. result_of (SetupWithManager K) w \<noteq> Panic p)"
proof -
  have "\<exists>x t w1. watchDiscoveredResources K w = (Ok x, t, w1)"
  proof (cases "getServerPreferredResources K w")
    case (fields r t0 w1)
    show ?thesis
    proof (cases r)
      case (Ok rls)
      with watchDiscoveredResources_run [OF fields [unfolded Ok]] show ?thesis by blast
    next
      case (Panic p)
      have "safe (\<lambda>_ _. True) [] (getServerPreferredResources K)" by (rule safe_getServerPreferredResources) simp
      with fields Panic show ?thesis by (auto dest: safe_run)
    qed (use fields in \<open>simp add: watchDiscoveredResources_def Let_def go_defs\<close>)
  qed
  then obtain x t w1 where run: "watchDiscoveredResources K w = (Ok x, t, w1)" by blast
  obtain a w2 where "k_manage K ''namespaceclass'' w1 = (a, w2)" by (cases "k_manage K ''namespaceclass'' w1")
  with run show ?thesis
    by (intro exI [of _ t] exI [of _ a])
      (cases a; cases x; simp add: SetupWithManager_def setupResourceWatchers_def manage_def go_defs)
qed

text \<open>
  The setup of the controller succeeds exactly when the main controller could be registered: it always
  gets that far, whatever discovery answers and however many watches fail.
\<close>

theorem SetupWithManager_result:
  "\<exists>t a. trace_of (SetupWithManager K) w = t @ [EvManage ''namespaceclass'' a] \<and>
     (result_of (SetupWithManager K) w = Ok () \<longleftrightarrow> a = Inr ()) \<and> (\<forall>p. result_of (SetupWithManager K) w \<noteq> Panic p)"
  by (rule SetupWithManager_run)

text \<open>
  The requests of a namespace event, for a namespace that is not being deleted.  With \<open>new\<close> its label and
  \<open>old\<close> its current class annotation: none when both are empty; otherwise the namespace itself, and,
  when they differ, the old class (if any) and then the new class (if any).
\<close>

theorem enqueueNamespace_requests:
  assumes "ns_DeletionTimestamp ns = None"
    and "new = map_read (ns_Labels ns) NamespaceClassLabel" and "old = map_read (ns_Annotations ns) CurrentClassAnnotation"
  shows "enqueueNamespaceWithClassFilter (NamespaceObject ns) =
    (if new = '''' \<and> old = '''' then []
     else [byName (ns_Name ns)] @ (if old = new then [] else map byName (filter (\<lambda>c. c \<noteq> '''') [old, new])))"
  unfolding enqueueNamespaceWithClassFilter_def Let_def using assms by (auto simp: map_read_def)

lemma enqueueNamespace_requests_witness:
  "enqueueNamespaceWithClassFilter (NamespaceObject sample_switching) =
    (if ''public-network'' = '''' \<and> ''internal-network'' = '''' then []
     else [byName (ns_Name sample_switching)] @
       (if ''internal-network'' = ''public-network'' then []
        else map byName (filter (\<lambda>c. c \<noteq> '''') [''internal-network'', ''public-network''])))"
  by (rule enqueueNamespace_requests) (simp_all add: sample_defs map_read_def)

text \<open>
  What the filter of namespace updates lets through: an update passes exactly when the new object is
  not being deleted and the old or the new one has a class label or a current class annotation.  So
  no change of a class label is missed, but an update that changed neither passes as well.
\<close>

theorem namespacePredicate_update:
  "namespacePredicate (UpdateEvent old new) \<longleftrightarrow>
     ns_DeletionTimestamp new = None \<and>
     (\<exists>ns\<in>{old, new}. (map_read (ns_Labels ns) NamespaceClassLabel,
        map_read (ns_Annotations ns) CurrentClassAnnotation) \<noteq> ('''', ''''))"
  by (auto simp: Let_def)

text \<open>
  Drift is noticed.  Any object that carries a class's owner label in a namespace, the mark every applied
  object has, passes the filter when it is created, updated (before or after the change) or deleted,
  and each of these events asks for a reconciliation of exactly its namespace.
\<close>

theorem owned_object_wakes_namespace:
  assumes "has_label (u_Labels u) NamespaceClassOwner c" and "c \<noteq> ''''" and "u_Namespace u \<noteq> ''''"
  shows "ownedResourcePredicate (CreateEvent u) \<and> ownedResourcePredicate (DeleteEvent u) \<and>
    ownedResourcePredicate (UpdateEvent u v) \<and> ownedResourcePredicate (UpdateEvent v u) \<and>
    enqueueForOwningNamespaceClass u = [byName (u_Namespace u)]"
  using assms by (auto simp: enqueueForOwningNamespaceClass_def dest: has_label_read)

lemma owned_object_wakes_namespace_witness:
  "ownedResourcePredicate (CreateEvent sample_object) \<and> ownedResourcePredicate (DeleteEvent sample_object) \<and>
    ownedResourcePredicate (UpdateEvent sample_object zero_Unstructured) \<and>
    ownedResourcePredicate (UpdateEvent zero_Unstructured sample_object) \<and>
    enqueueForOwningNamespaceClass sample_object = [byName (u_Namespace sample_object)]"
  by (rule owned_object_wakes_namespace [where c = "''internal-network''"])
    (simp_all add: sample_object_def has_label_def zero_Unstructured_def)


lemma formatGVKs_eq:
  "formatGVKs i gvks = map (\<lambda>g. if Group g = '''' then Kind g else Kind g @ ''.'' @ Group g) (take (10 - i) gvks)"
proof (induction gvks arbitrary: i)
  case (Cons g gvks)
  show ?case
  proof (cases "10 \<le> i")
    case False
    then have "10 - i = Suc (9 - i)" by simp
    with False Cons show ?thesis by simp
  qed simp
qed simp

text \<open>
  The summary of the types shows the first ten, as \<open>Kind.group\<close> or just \<open>Kind\<close> for the core group, and
  when there are more one line with the number left out; so it never has more than eleven lines.
\<close>

theorem formatGVKsForLogging_spec:
  "formatGVKsForLogging gvks =
     map (\<lambda>g. if Group g = '''' then Kind g else Kind g @ ''.'' @ Group g) (take 10 gvks) @
     (if length gvks > 10 then [''and '' @ show_nat (length gvks - 10) @ '' more''] else []) \<and>
   length (formatGVKsForLogging gvks) \<le> 11"
  by (simp add: formatGVKsForLogging_def formatGVKs_eq)

end
