(* ===== verification/Request_System.thy ===== *)
theory Request_System imports Class_Switch Watch_Setup begin

text \<open>
  The controller as a system: watch events put requests into the work queue, workers serve them, and a
  switch of class leaves a goroutine (\<open>triggerReconcile\<close>) that reconciles the old class later.  The work
  queue, the delivery of events and the retry of a request that failed are the library's, as documented; what is
  put into the queue and what a request does is the code's.  A request is one step here; requests that run at the
  same time are the subject of \<open>Concurrent_Requests\<close>.
\<close>

section \<open>From events to requests\<close>

text \<open>The objects of a watch event, to each of which \<open>handler.EnqueueRequestsFromMapFunc\<close> applies its function.\<close>

fun objects_of :: "'o watch_event \<Rightarrow> 'o list" where
  "objects_of (CreateEvent ob) = [ob]"
| "objects_of (UpdateEvent old new) = [old, new]"
| "objects_of (DeleteEvent ob) = [ob]"

text \<open>The three kinds of watches of \<open>SetupWithManager\<close> and \<open>createWatchForGVK\<close>.\<close>

definition namespace_requests :: "Namespace watch_event \<Rightarrow> NamespacedName list" where
  "namespace_requests e =
     (if namespacePredicate e then concat (map (\<lambda>ns. enqueueNamespaceWithClassFilter (NamespaceObject ns)) (objects_of e)) else [])"

definition object_requests :: "Unstructured watch_event \<Rightarrow> NamespacedName list" where
  "object_requests e =
     (if ownedResourcePredicate e then concat (map enqueueForOwningNamespaceClass (objects_of e)) else [])"

text \<open>A change of a class: the class itself (\<open>For\<close>) and the namespaces that use it.\<close>

definition class_requests :: "'w kube \<Rightarrow> NamespaceClass watch_event \<Rightarrow> ('w, NamespacedName list) prog" where
  "class_requests K e =
     concatMapG (\<lambda>nc. bindG (enqueueNamespacesOfClass K (nc_Name nc)) (\<lambda>reqs. returnG (byName (nc_Name nc) # reqs)))
       (objects_of e)"

text \<open>
  Each watch controller also has the classes as its own type (\<open>For\<close>), with \<open>ResourceVersionChangedPredicate\<close>.
\<close>

fun for_requests :: "NamespaceClass watch_event \<Rightarrow> NamespacedName list" where
  "for_requests (CreateEvent nc) = [byName (nc_Name nc)]"
| "for_requests (UpdateEvent old new) =
     (if nc_ResourceVersion new = nc_ResourceVersion old then [] else [byName (nc_Name new)])"
| "for_requests (DeleteEvent nc) = [byName (nc_Name nc)]"

section \<open>The system\<close>

text \<open>
  \<open>m_watched\<close> are the types with a watch controller; each controller has a queue of its own, without duplicates: an
  element of \<open>m_queue\<close> is a request with the name of its controller.  \<open>m_sleeping\<close> are the classes that goroutines of
  \<open>triggerReconcile\<close> wait to reconcile.
\<close>

record 'w manager =
  m_cluster :: 'w
  m_watched :: "GroupVersionKind set"
  m_queue :: "(string \<times> NamespacedName) set"
  m_sleeping :: "string multiset"

definition enqueue :: "string \<Rightarrow> NamespacedName list \<Rightarrow> 'w manager \<Rightarrow> 'w manager" where
  "enqueue controller reqs s = s\<lparr>m_queue := m_queue s \<union> Pair controller ` set reqs\<rparr>"

fun spawned :: "event \<Rightarrow> string option" where
  "spawned (EvSpawn c) = Some c"
| "spawned _ = None"

definition spawns :: "event list \<Rightarrow> string list" where
  "spawns t = List.map_filter spawned t"

text \<open>A request that ends in an error, or asks for it, is served again.\<close>

fun retried :: "Result res \<Rightarrow> bool" where
  "retried (Ok r) = Requeue r"
| "retried _ = True"

datatype m_label =
    Noticed
  | Outside
  | Served NamespacedName "Result res" "event list"
  | Woken string "Result res" "event list"

inductive mstep :: "'w kube \<Rightarrow> 'w manager \<Rightarrow> m_label \<Rightarrow> 'w manager \<Rightarrow> bool" for K where
  namespace_event: "mstep K s Noticed (enqueue ''namespaceclass'' (namespace_requests e) s)"
| object_event: "g \<in> m_watched s \<Longrightarrow> \<forall>u\<in>set (objects_of e). u_GVK u = g \<Longrightarrow>
    mstep K s Noticed (enqueue (controllerName g) (object_requests e) s)"
| class_event: "class_requests K e (m_cluster s) = (Ok reqs, t, w') \<Longrightarrow>
    mstep K s Noticed (enqueue ''namespaceclass'' reqs (s\<lparr>m_cluster := w'\<rparr>))"
| watcher_class_event: "g \<in> m_watched s \<Longrightarrow> mstep K s Noticed (enqueue (controllerName g) (for_requests e) s)"
| outside: "mstep K s Outside (s\<lparr>m_cluster := w'\<rparr>)"
| serve: "(controller, req) \<in> m_queue s \<Longrightarrow> Reconcile K req (m_cluster s) = (r, t, w') \<Longrightarrow>
    mstep K s (Served req r t) (s\<lparr>m_cluster := w',
      m_queue := (if retried r then m_queue s else m_queue s - {(controller, req)}),
      m_sleeping := m_sleeping s + mset (spawns t)\<rparr>)"
| wake: "c \<in># m_sleeping s \<Longrightarrow> Reconcile K (byName c) (m_cluster s) = (r, t, w') \<Longrightarrow>
    mstep K s (Woken c r t) (s\<lparr>m_cluster := w', m_sleeping := m_sleeping s - {#c#} + mset (spawns t)\<rparr>)"

inductive msteps :: "'w kube \<Rightarrow> 'w manager \<Rightarrow> m_label list \<Rightarrow> 'w manager \<Rightarrow> bool" for K where
  finish: "msteps K s [] s"
| more: "mstep K s l s' \<Longrightarrow> msteps K s' ls s'' \<Longrightarrow> msteps K s (l # ls) s''"

inductive_cases mstepE: "mstep K s l s'"
inductive_simps msteps_Nil: "msteps K s [] s'"
inductive_simps msteps_Cons: "msteps K s (l # ls) s'"

fun is_woken :: "m_label \<Rightarrow> bool" where
  "is_woken (Woken c r t) = True"
| "is_woken _ = False"

end
