(* ===== verification/Request_Progress.thy ===== *)
theory Request_Progress imports Request_System begin

text \<open>
  The controller as a system makes progress.  Every goroutine that \<open>triggerReconcile\<close> starts is paid for by a namespace
  whose annotations come to name the class of its label, so the goroutines die out; and a namespace that was
  served keeps its class as long as nobody else changes the namespaces.
\<close>

section \<open>What a goroutine is paid with\<close>

text \<open>The namespaces whose current class annotation is not their class label.\<close>

definition unsettled :: "cluster_view \<Rightarrow> string set" where
  "unsettled v = {n. \<exists>x. nss v n = Some x \<and>
     map_read (nv_Annotations x) CurrentClassAnnotation \<noteq> map_read (nv_Labels x) NamespaceClassLabel}"

definition labels :: "cluster_view \<Rightarrow> string \<Rightarrow> strmap option" where
  "labels v n = map_option nv_Labels (nss v n)"

lemma unsettled_cong: "nss v = nss v' \<Longrightarrow> unsettled v = unsettled v'"
  by (simp add: unsettled_def)

lemma labels_cong: "nss v = nss v' \<Longrightarrow> labels v = labels v'"
  by (simp add: labels_def fun_eq_iff)

lemma spawns_simps [simp]: "spawns [] = []" "spawns (e # t) = (case spawned e of None \<Rightarrow> spawns t | Some c \<Rightarrow> c # spawns t)"
  "spawns (s @ t) = spawns s @ spawns t"
  by (simp_all add: spawns_def List.map_filter_def split: option.split)

lemma spawns_none: "list_all (\<lambda>e. spawned e = None) t \<Longrightarrow> spawns t = []"
  by (induction t) auto

text \<open>An edit of the annotations that makes the label the current class, or keeps the current class.\<close>

lemma unsettled_edit:
  assumes "nss v n = Some x" and "nss v' = (nss v)(n \<mapsto> x\<lparr>nv_Annotations := m\<rparr>)"
    and "map_read m CurrentClassAnnotation \<in>
      {map_read (nv_Labels x) NamespaceClassLabel, map_read (nv_Annotations x) CurrentClassAnnotation}"
  shows "labels v' = labels v" and "unsettled v' \<subseteq> unsettled v"
    and "map_read m CurrentClassAnnotation = map_read (nv_Labels x) NamespaceClassLabel \<Longrightarrow> unsettled v' = unsettled v - {n}"
  using assms by (auto simp: labels_def unsettled_def fun_eq_iff)

context kube_cluster
begin

text \<open>
  From a state whose namespaces have the labels \<open>L\<close>, the program keeps the labels, unsettles no namespace
  and settles as many as it starts goroutines.
\<close>

definition paid :: "(string \<Rightarrow> strmap option) \<Rightarrow> event list \<Rightarrow> 'w \<Rightarrow> 'w \<Rightarrow> bool" where
  "paid L t w w' \<longleftrightarrow> labels (view w') = L \<and> unsettled (view w') \<subseteq> unsettled (view w) \<and>
     length (spawns t) + card (unsettled (view w')) \<le> card (unsettled (view w))"

definition pays_at :: "(string \<Rightarrow> strmap option) \<Rightarrow> 'w \<Rightarrow> ('w, 'a) prog \<Rightarrow> bool" where
  "pays_at L w m \<longleftrightarrow> (labels (view w) = L \<longrightarrow> finite (unsettled (view w)) \<longrightarrow> (\<forall>r t w'. m w = (r, t, w') \<longrightarrow> paid L t w w'))"

definition pays :: "(string \<Rightarrow> strmap option) \<Rightarrow> ('w, 'a) prog \<Rightarrow> bool" where
  "pays L m \<longleftrightarrow> (\<forall>w. pays_at L w m)"

lemma paysD: "pays_at L w m \<Longrightarrow> m w = (r, t, w') \<Longrightarrow> labels (view w) = L \<Longrightarrow> finite (unsettled (view w)) \<Longrightarrow> paid L t w w'"
  unfolding pays_at_def by blast

lemma pays_here: "pays L m \<Longrightarrow> pays_at L w m"
  by (simp add: pays_def)

lemma paid_trans:
  assumes "paid L s w w1" and "paid L t w1 w'" and "finite (unsettled (view w))"
  shows "paid L (s @ t) w w'"
  using assms by (auto simp: paid_def)

lemma paid_same:
  assumes "nss (view w') = nss (view w)" and "labels (view w) = L" and "spawns t = []"
  shows "paid L t w w'"
  using labels_cong [OF assms(1)] unsettled_cong [OF assms(1)] assms(2,3) by (simp add: paid_def)

text \<open>One edit, which pays for a goroutine when it settles the namespace.\<close>

lemma paid_edit:
  assumes "nss (view w) n = Some x" and "nss (view w') = (nss (view w))(n \<mapsto> x\<lparr>nv_Annotations := m\<rparr>)"
    and "map_read m CurrentClassAnnotation \<in>
      {map_read (nv_Labels x) NamespaceClassLabel, map_read (nv_Annotations x) CurrentClassAnnotation}"
    and "labels (view w) = L" and fin: "finite (unsettled (view w))"
    and "spawns t = [] \<or> (\<exists>c. spawns t = [c]) \<and> n \<in> unsettled (view w) \<and>
      map_read m CurrentClassAnnotation = map_read (nv_Labels x) NamespaceClassLabel"
  shows "paid L t w w'"
proof -
  note edit = unsettled_edit [OF assms(1-3)]
  from assms(6) show ?thesis
  proof (elim disjE conjE exE)
    assume "spawns t = []"
    with edit assms(4) card_mono [OF fin edit(2)] show ?thesis by (simp add: paid_def)
  next
    fix c
    assume "spawns t = [c]" and n: "n \<in> unsettled (view w)"
      and "map_read m CurrentClassAnnotation = map_read (nv_Labels x) NamespaceClassLabel"
    with edit(3) have "unsettled (view w') = unsettled (view w) - {n}" by blast
    with edit(1) assms(4) \<open>spawns t = [c]\<close> card_Suc_Diff1 [OF fin n] show ?thesis by (simp add: paid_def)
  qed
qed

lemma pays_plain:
  assumes "tracked m" and "safe (\<lambda>_ e. \<not> is_updateNs e \<and> spawned e = None) [] m"
  shows "pays L m"
  unfolding pays_def pays_at_def
proof (intro allI impI)
  fix w r t w'
  assume run: "m w = (r, t, w')" and "labels (view w) = L"
  from safe_list_all [OF assms(2) run] have "list_all (\<lambda>e. \<not> is_updateNs e) t" and "spawns t = []"
    by (auto simp: list_all_iff intro!: spawns_none)
  with trackedD [OF assms(1) run] \<open>labels (view w) = L\<close> show "paid L t w w'"
    by (intro paid_same) (simp_all add: effects_nss)
qed

lemma pays_at_bind:
  assumes m: "pays_at L w m"
    and f: "\<And>x t w'. m w = (Ok x, t, w') \<Longrightarrow> labels (view w) = L \<Longrightarrow> pays_at L w' (f x)"
  shows "pays_at L w (bindG m f)"
  unfolding pays_at_def
proof (intro allI impI)
  fix r t w'
  assume L: "labels (view w) = L" and fin: "finite (unsettled (view w))" and run: "bindG m f w = (r, t, w')"
  from run show "paid L t w w'"
  proof (cases rule: bind_runE)
    case (next_step x t1 w1 t2)
    note m1 = paysD [OF m next_step(1) L fin]
    from m1 fin have "labels (view w1) = L" "finite (unsettled (view w1))" by (auto simp: paid_def intro: finite_subset)
    from paysD [OF f [OF next_step(1) L] next_step(2) this] paid_trans [OF m1 _ fin] next_step(3) show ?thesis by simp
  qed (use paysD [OF m _ L fin] in auto)
qed

lemma pays_bind:
  assumes "pays L m" and "\<And>w x t w'. m w = (Ok x, t, w') \<Longrightarrow> labels (view w) = L \<Longrightarrow> pays L (f x)"
  shows "pays L (bindG m f)"
  unfolding pays_def by (intro allI pays_at_bind) (use assms in \<open>auto simp: pays_def\<close>)

lemma pays_return: "pays L (returnG x)"
  by (auto simp: pays_def pays_at_def returnG_def intro: paid_same)

lemma pays_fail: "pays L (failG e)"
  by (auto simp: pays_def pays_at_def failG_def intro: paid_same)

lemma pays_at_try: "pays_at L w m \<Longrightarrow> pays_at L w (tryG m)"
  unfolding pays_at_def try_run by blast

lemma pays_try: "pays L m \<Longrightarrow> pays L (tryG m)"
  by (simp add: pays_def pays_at_try)

lemma pays_at_wrap: "pays_at L w m \<Longrightarrow> pays_at L w (wrapG msg m)"
  unfolding pays_at_def wrap_run by blast

lemma pays_for: "(\<And>x. x \<in> set xs \<Longrightarrow> pays L (f x)) \<Longrightarrow> pays L (forG f xs)"
  by (induction xs) (auto intro!: pays_bind pays_return)

lemma pays_concatMap: "(\<And>x. x \<in> set xs \<Longrightarrow> pays L (f x)) \<Longrightarrow> pays L (concatMapG f xs)"
  by (induction xs) (auto intro!: pays_bind pays_return)

lemma pays_if: "(b \<Longrightarrow> pays L m) \<Longrightarrow> (\<not> b \<Longrightarrow> pays L n) \<Longrightarrow> pays L (if b then m else n)"
  by simp

lemma pays_case_sum:
  "(\<And>e. a = Inl e \<Longrightarrow> pays L (f e)) \<Longrightarrow> (\<And>x. a = Inr x \<Longrightarrow> pays L (g x)) \<Longrightarrow>
    pays L (case a of Inl e \<Rightarrow> f e | Inr x \<Rightarrow> g x)"
  by (cases a) auto

lemmas pays_intro = pays_bind pays_return pays_fail pays_try pays_for pays_concatMap pays_if pays_case_sum

end

section \<open>The controller pays for its goroutines\<close>

context kube_cluster
begin

text \<open>The namespaces named \<open>n\<close> are of the class \<open>c\<close>.\<close>

definition labelled :: "(string \<Rightarrow> strmap option) \<Rightarrow> string \<Rightarrow> string \<Rightarrow> bool" where
  "labelled L n c \<longleftrightarrow> (\<exists>l. L n = Some l \<and> map_read l NamespaceClassLabel = c)"

lemma labelledD: "labelled L n c \<Longrightarrow> labels (view w) = L \<Longrightarrow> nss (view w) n = Some x \<Longrightarrow>
    map_read (nv_Labels x) NamespaceClassLabel = c"
  by (auto simp: labelled_def labels_def)

text \<open>A critical section of the annotations: it edits what it read, or changes nothing.\<close>

lemma pays_critical:
  assumes "tracked m" and "m w = (r, t, w')"
    and trace: "(\<exists>e. t = [EvLock n, EvGetNs n (Inl e), EvUnlock n]) \<or>
      (\<exists>latest a. t = [EvLock n, EvGetNs n (Inr latest),
         EvUpdateNs (latest\<lparr>ns_Annotations := edit (ns_Annotations latest)\<rparr>) a, EvUnlock n])"
    and edit: "\<And>m. map_read (edit m) CurrentClassAnnotation = c"
    and L: "labelled L n c" "labels (view w) = L" and fin: "finite (unsettled (view w))"
  shows "paid L t w w'"
  using trace
proof (elim disjE exE)
  fix e
  assume "t = [EvLock n, EvGetNs n (Inl e), EvUnlock n]"
  with trackedD [OF assms(1,2)] L(2) show ?thesis by (intro paid_same) simp_all
next
  fix latest a
  assume t: "t = [EvLock n, EvGetNs n (Inr latest), EvUpdateNs (latest\<lparr>ns_Annotations := edit (ns_Annotations latest)\<rparr>) a, EvUnlock n]"
  with trackedD [OF assms(1,2)] have x: "ns_Name latest = n" "nss (view w) n = Some (nsv latest)" by simp_all
  show ?thesis
  proof (cases a)
    case (Inl e)
    with t trackedD [OF assms(1,2)] L(2) show ?thesis by (intro paid_same) simp_all
  next
    case (Inr u)
    with t trackedD [OF assms(1,2)] x have "nss (view w') = (nss (view w))(n \<mapsto> (nsv latest)\<lparr>nv_Annotations := edit (ns_Annotations latest)\<rparr>)"
      by (simp add: nsv_def)
    from paid_edit [OF x(2) this _ L(2) fin] t edit labelledD [OF L(1,2) x(2)] show ?thesis by simp
  qed
qed

lemma pays_setClassAnnotations:
  assumes "labelled L (ns_Name ns) c"
  shows "pays L (setClassAnnotations K ns c c)"
  unfolding pays_def pays_at_def
proof (intro allI impI)
  fix w r t w'
  assume "labels (view w) = L" "finite (unsettled (view w))" and run: "setClassAnnotations K ns c c w = (r, t, w')"
  with set_writer.annotate_trace [of K ns c c w] assms show "paid L t w w'"
    by (intro pays_critical [OF tracked_setClassAnnotations run, where n = "ns_Name ns" and edit = "setEdit c c" and c = c])
      (simp_all add: setEdit_read)
qed

lemma pays_updateCurrentClassAnnotation:
  assumes "labelled L (ns_Name ns) c"
  shows "pays L (updateCurrentClassAnnotation K ns c)"
  unfolding pays_def pays_at_def
proof (intro allI impI)
  fix w r t w'
  assume "labels (view w) = L" "finite (unsettled (view w))" and run: "updateCurrentClassAnnotation K ns c w = (r, t, w')"
  with switch_writer.annotate_trace [of K ns c w] assms show "paid L t w w'"
    by (intro pays_critical [OF tracked_updateCurrentClassAnnotation run, where n = "ns_Name ns" and edit = "switchEdit c" and c = c])
      (simp_all add: switchEdit_read)
qed

text \<open>The switch: the annotation that moves the namespace to its class pays for the goroutine.\<close>

lemma pays_switch:
  assumes L: "labelled L (ns_Name ns) c" and n: "ns_Name ns \<in> unsettled (view w)"
  shows "pays_at L w (bindG (updateCurrentClassAnnotation K ns c) (\<lambda>_. emitG (EvSpawn prev)))"
  unfolding pays_at_def
proof (intro allI impI)
  fix r t w'
  assume labels: "labels (view w) = L" and fin: "finite (unsettled (view w))"
    and run: "bindG (updateCurrentClassAnnotation K ns c) (\<lambda>_. emitG (EvSpawn prev)) w = (r, t, w')"
  note upd = paysD [OF pays_here [OF pays_updateCurrentClassAnnotation [OF L]] _ labels fin]
  from run show "paid L t w w'"
  proof (cases rule: bind_runE)
    case (next_step u t1 w1 t2)
    from next_step(1) have u: "updateCurrentClassAnnotation K ns c w = (Ok (), t1, w1)" by simp
    from switch_view [OF this] obtain x where x: "nss (view w) (ns_Name ns) = Some x"
      and "nss (view w1) = (nss (view w))(ns_Name ns \<mapsto> x\<lparr>nv_Annotations := switchEdit c (nv_Annotations x)\<rparr>)" by blast
    moreover have "w' = w1" "spawns t = [prev]"
      using switch_writer.annotate_ok [OF u] next_step by (auto simp: emitG_def)
    ultimately show ?thesis
      using n labelledD [OF L labels x] by (intro paid_edit [OF _ _ _ labels fin]) (auto simp: switchEdit_read)
  qed (use upd in auto)
qed

lemma pays_resources: "pays L (reconcileNamespaceClassResources K ns nc)"
  by (rule pays_plain [OF tracked_resources]) (rule safe_resources_plain; auto elim: is_read.elims applied.elims)

lemma pays_cleanup: "pays L (cleanupPreviousNamespaceClassResources K ns prev cur)"
  by (rule pays_plain [OF tracked_cleanupPrevious]) (rule safe_cleanup_plain; auto elim: is_read.elims)

lemma pays_switchStatus: "pays L (updateClassSwitchStatus K ns cur prev)"
  by (rule pays_plain [OF tracked_updateClassSwitchStatus]) (rule safe_switchStatus_plain; auto elim: is_read.elims)

end

context kube_cluster
begin

lemma pays_latest:
  assumes L: "labelled L (ns_Name latest) (nc_Name nc)" and now: "nss (view w) (ns_Name latest) = Some (nsv latest)"
  shows "pays_at L w (reconcileLatest K nc latest)"
proof -
  let ?n = "ns_Name latest" and ?c = "nc_Name nc" and ?cur = "map_read (ns_Annotations latest) CurrentClassAnnotation"
  let ?upd = "updateCurrentClassAnnotation K latest ?c" and ?res = "reconcileNamespaceClassResources K latest nc"
  let ?status = "bindG (tryG (updateClassSwitchStatus K latest ?c ?cur)) (\<lambda>_. returnG ())"
  note upd = pays_updateCurrentClassAnnotation [OF L]
  have switch: "pays_at L w (bindG (cleanupPreviousNamespaceClassResources K latest ?cur ?c) (\<lambda>_.
      bindG (bindG ?upd (\<lambda>_. emitG (EvSpawn ?cur))) (\<lambda>_. bindG ?res (\<lambda>_. ?status))))" if cur: "?cur \<noteq> ?c"
  proof (rule pays_at_bind [OF pays_here [OF pays_cleanup]])
    fix u t w1
    assume clean: "cleanupPreviousNamespaceClassResources K latest ?cur ?c w = (Ok u, t, w1)" and labels: "labels (view w) = L"
    have "nss (view w1) = nss (view w)" using cleanup_nss [OF clean] .
    then have "?n \<in> unsettled (view w1)"
      using now cur labelledD [OF L labels now] by (simp add: unsettled_def)
    from pays_switch [OF L this]
    show "pays_at L w1 (bindG (bindG ?upd (\<lambda>_. emitG (EvSpawn ?cur))) (\<lambda>_. bindG ?res (\<lambda>_. ?status)))"
      by (rule pays_at_bind) (intro pays_here pays_intro pays_resources pays_switchStatus)
  qed
  have rest: "pays_at L w (bindG (setClassAnnotations K latest ?c ?c) (\<lambda>_.
      bindG (if ?c = '''' then ?upd else returnG ()) (\<lambda>_. ?res)))" "pays_at L w (bindG ?upd (\<lambda>_. ?res))" "pays_at L w ?res"
    by (intro pays_here pays_intro pays_setClassAnnotations [OF L] upd pays_resources)+
  show ?thesis
    unfolding reconcileLatest_def Let_def using switch rest by (simp only: bind_assoc split: if_split) blast
qed

lemma pays_namespace:
  assumes "labelled L (ns_Name ns) (nc_Name nc)"
  shows "pays L (reconcileNamespaceWithClass K ns nc)"
  unfolding reconcile_eq pays_def
proof (intro allI pays_at_bind pays_at_wrap)
  fix w
  show "pays_at L w (getNs K (ns_Name ns))"
    by (rule pays_here [OF pays_plain [OF tracked_getNs]]) (intro safe_intro; simp)
next
  fix w latest t w'
  assume "wrapG ''failed to get latest namespace state'' (getNs K (ns_Name ns)) w = (Ok latest, t, w')"
  then have "k_getNs K (ns_Name ns) w = (Inr latest, w')" by (simp add: wrap_run_Ok getNs_def call_run_Ok)
  from getNs_view [OF this] assms show "pays_at L w' (reconcileLatest K nc latest)" by (intro pays_latest) auto
qed

text \<open>The finalizer takes an annotation off that is not the current class.\<close>

lemma pays_unannotate:
  assumes "nss (view w) (ns_Name ns) = Some (nsv ns)"
  shows "pays_at L w (updateNs K (ns\<lparr>ns_Annotations := map_remove (ns_Annotations ns) LastAppliedClassAnnotation\<rparr>))"
  unfolding pays_at_def
proof (intro allI impI)
  fix r t w'
  let ?new = "ns\<lparr>ns_Annotations := map_remove (ns_Annotations ns) LastAppliedClassAnnotation\<rparr>"
  assume L: "labels (view w) = L" and fin: "finite (unsettled (view w))" and run: "updateNs K ?new w = (r, t, w')"
  obtain a where t: "t = [EvUpdateNs ?new a]"
    using run by (auto simp: updateNs_def callG_def split: prod.splits)
  show "paid L t w w'"
  proof (cases a)
    case (Inl e)
    with t trackedD [OF tracked_updateNs run] L show ?thesis by (intro paid_same) simp_all
  next
    case (Inr u)
    with t trackedD [OF tracked_updateNs run] have "nss (view w') = (nss (view w))(ns_Name ns \<mapsto>
        (nsv ns)\<lparr>nv_Annotations := map_remove (ns_Annotations ns) LastAppliedClassAnnotation\<rparr>)" by (simp add: nsv_def)
    from paid_edit [OF assms this _ L fin] t show ?thesis by (simp add: map_read_remove)
  qed
qed

end

lemma try_run_Ok: "tryG m w = (Ok a, t, w') \<Longrightarrow> (\<exists>x. a = Inr x \<and> m w = (Ok x, t, w')) \<or> (\<exists>e. a = Inl e \<and> m w = (Err e, t, w'))"
  by (cases "m w"; cases "fst (m w)") (auto simp: tryG_def)

context kube_cluster
begin

lemma pays_read: "tracked m \<Longrightarrow> safe (\<lambda>_ e. is_read e) [] m \<Longrightarrow> pays L m"
  by (rule pays_plain) (auto elim: safe_mono elim!: is_read.elims)

lemma pays_cleanupNamespace: "pays L (cleanupNamespace K nc ns)"
proof -
  let ?drop = "\<lambda>u. u\<lparr>ns_Annotations := map_remove (ns_Annotations u) LastAppliedClassAnnotation\<rparr>"
  have one: "pays L (deleteObj K u)" for u
    by (rule pays_plain [OF tracked_delete]) (intro safe_intro; simp)
  have unannotate: "pays L (bindG (tryG (getNs K n)) (\<lambda>a. case a of Inl err \<Rightarrow> returnG (errs @ [err])
      | Inr u \<Rightarrow> if ns_Annotations u \<noteq> None then
          bindG (tryG (updateNs K (?drop u))) (\<lambda>b. case b of Inl err \<Rightarrow> returnG (errs @ [err]) | Inr _ \<Rightarrow> returnG errs)
        else returnG errs))" for n errs
    unfolding pays_def
  proof (intro allI pays_at_bind)
    fix w
    show "pays_at L w (tryG (getNs K n))"
      by (intro pays_here pays_try pays_read [OF tracked_getNs] safe_intro) simp
  next
    fix w a t w'
    assume "tryG (getNs K n) w = (Ok a, t, w')"
    then have got: "a = Inr u \<Longrightarrow> nss (view w') (ns_Name u) = Some (nsv u)" for u
      using getNs_view by (fastforce simp: getNs_def call_run_Ok dest!: try_run_Ok)
    show "pays_at L w' (case a of Inl err \<Rightarrow> returnG (errs @ [err])
        | Inr u \<Rightarrow> if ns_Annotations u \<noteq> None then
            bindG (tryG (updateNs K (?drop u))) (\<lambda>b. case b of Inl err \<Rightarrow> returnG (errs @ [err]) | Inr _ \<Rightarrow> returnG errs)
          else returnG errs)"
    proof (cases a)
      case (Inr u)
      have "pays_at L w' (bindG (tryG (updateNs K (?drop u))) (\<lambda>b. case b of Inl err \<Rightarrow> returnG (errs @ [err]) | Inr _ \<Rightarrow> returnG errs))"
        by (rule pays_at_bind [OF pays_at_try [OF pays_unannotate [OF got [OF Inr]]]]) (intro pays_here pays_intro)
      with Inr show ?thesis by (simp add: pays_here [OF pays_return])
    qed (simp add: pays_here [OF pays_return])
  qed
  show ?thesis
    unfolding cleanupNamespace_def deleteResources_def
    by (intro pays_intro one unannotate pays_read [OF tracked_listResourcesWithLabel] safe_listResourcesWithLabel) simp_all
qed

lemma pays_finalizer: "pays L (reconcileNamespaceClassFinalizer K nc)"
proof -
  have upd: "pays L (updateClass K c)" for c
    by (rule pays_plain [OF tracked_updateClass]) (intro safe_intro; simp)
  show ?thesis
    unfolding reconcileNamespaceClassFinalizer_def ensureFinalizerPresent_def handleFinalizerCleanup_def Let_def
      cleanupNamespaces_def removeFinalizer_eq
    by (intro pays_intro upd pays_cleanupNamespace pays_read [OF tracked_listNs] safe_intro) simp_all
qed

lemma pays_status: "pays L (updateNamespaceClassStatus K nc)"
  by (rule pays_plain [OF tracked_updateNamespaceClassStatus]) (rule safe_updateNamespaceClassStatus; simp)

lemma pays_classRequest: "pays L (reconcileClassRequest K nc)"
  unfolding reconcileClassRequest_def
proof (rule pays_bind)
  show "pays L (listNs K NamespaceClassLabel (nc_Name nc))"
    by (intro pays_read [OF tracked_listNs] safe_intro) simp
next
  fix w nsl t w'
  assume "listNs K NamespaceClassLabel (nc_Name nc) w = (Ok nsl, t, w')" and L: "labels (view w) = L"
  then have list: "k_listNs K NamespaceClassLabel (nc_Name nc) w = (Inr nsl, w')"
    by (simp add: listNs_def call_run_Ok)
  have "labelled L (ns_Name ns) (nc_Name nc)" if "ns \<in> set nsl" for ns
    using listNs_view [OF list] has_label_read [OF listNs_label [OF list that]] that L by (auto simp: labelled_def labels_def)
  then show "pays L (bindG (forG (\<lambda>ns. bindG (tryG (reconcileNamespaceWithClass K ns nc)) (\<lambda>_. returnG ())) nsl) (\<lambda>_.
     bindG (if \<not> IsZero (nc_DeletionTimestamp nc) then reconcileNamespaceClassFinalizer K nc
            else returnG \<lparr>Requeue = False\<rparr>) (\<lambda>result.
     if Requeue result then returnG result
     else bindG (updateNamespaceClassStatus K nc) (\<lambda>_. returnG \<lparr>Requeue = False\<rparr>))))"
    by (intro pays_intro pays_namespace pays_finalizer pays_status) auto
qed

lemma pays_namespaceRequest: "pays L (reconcileNamespaceRequest K n)"
  unfolding reconcileNamespaceRequest_def getNamespace_def
proof (rule pays_bind)
  show "pays L (tryG (getNs K n))"
    by (intro pays_try pays_read [OF tracked_getNs] safe_intro) simp
next
  fix w a t w'
  assume run: "tryG (getNs K n) w = (Ok a, t, w')" and L: "labels (view w) = L"
  have member: "pays L (bindG (getNamespaceClass K ns) (\<lambda>c. case c of None \<Rightarrow> returnG \<lparr>Requeue = False\<rparr>
      | Some nc \<Rightarrow> bindG (reconcileNamespaceWithClass K ns nc) (\<lambda>_. returnG \<lparr>Requeue = False\<rparr>)))" if "a = Inr ns" for ns
  proof (rule pays_bind)
    show "pays L (getNamespaceClass K ns)"
      unfolding getNamespaceClass_def Let_def by (intro pays_intro pays_read [OF tracked_getClass] safe_intro) simp
  next
    fix w1 c t1 w2
    assume cls: "getNamespaceClass K ns w1 = (Ok c, t1, w2)"
    from run that have "k_getNs K n w = (Inr ns, w')" by (auto simp: getNs_def call_run_Ok dest!: try_run_Ok)
    from getNs_view [OF this] L have label: "labelled L (ns_Name ns) (map_read (ns_Labels ns) NamespaceClassLabel)"
      by (auto simp: labelled_def labels_def)
    have "nc_Name nc = map_read (ns_Labels ns) NamespaceClassLabel" if "c = Some nc" for nc
      using cls that unfolding getNamespaceClass_def Let_def getClass_def
      by (auto elim!: bind_runE simp: returnG_def call_run_Ok byName_def dest!: getClass_name split: if_splits)
    with label show "pays L (case c of None \<Rightarrow> returnG \<lparr>Requeue = False\<rparr>
        | Some nc \<Rightarrow> bindG (reconcileNamespaceWithClass K ns nc) (\<lambda>_. returnG \<lparr>Requeue = False\<rparr>))"
      by (cases c) (auto intro!: pays_intro pays_namespace)
  qed
  then show "pays L (case a of Inl err \<Rightarrow> if \<not> IsNotFound K err then failG err else returnG \<lparr>Requeue = False\<rparr>
      | Inr ns \<Rightarrow> if ns_DeletionTimestamp ns \<noteq> None then returnG \<lparr>Requeue = False\<rparr>
        else bindG (getNamespaceClass K ns) (\<lambda>c. case c of None \<Rightarrow> returnG \<lparr>Requeue = False\<rparr>
          | Some nc \<Rightarrow> bindG (reconcileNamespaceWithClass K ns nc) (\<lambda>_. returnG \<lparr>Requeue = False\<rparr>)))"
    by (cases a) (auto intro!: pays_intro)
qed

lemma pays_Reconcile: "pays L (Reconcile K req)"
  unfolding Reconcile_def
  by (intro pays_intro pays_classRequest pays_namespaceRequest pays_read [OF tracked_getClass] safe_intro) simp

end

section \<open>The requests that goroutines make die out\<close>

lemma size_remove_one: "c \<in># M \<Longrightarrow> Suc (size (M - {#c#} + N)) = size M + size N"
  by (auto dest!: multi_member_split)

context kube_cluster
begin

lemma class_requests_view:
  assumes "class_requests K e w = (r, t, w')"
  shows "nss (view w') = nss (view w)"
proof (rule nss_frame [where m = "class_requests K e" and w = w])
  show "tracked (class_requests K e)"
    unfolding class_requests_def enqueueNamespacesOfClass_def by (intro tracked_intro)
  show "safe (\<lambda>_ e. \<not> is_updateNs e) [] (class_requests K e)"
    unfolding class_requests_def enqueueNamespacesOfClass_def by (intro safe_intro) simp
qed (rule assms)

lemma mstep_pays:
  assumes "mstep K s l s'" and "l \<noteq> Outside" and fin: "finite (unsettled (view (m_cluster s)))"
  shows "labels (view (m_cluster s')) = labels (view (m_cluster s))"
    and "unsettled (view (m_cluster s')) \<subseteq> unsettled (view (m_cluster s))"
    and "of_bool (is_woken l) + size (m_sleeping s') + card (unsettled (view (m_cluster s')))
      \<le> size (m_sleeping s) + card (unsettled (view (m_cluster s)))"
proof -
  have served: "paid (labels (view w)) t w w'" if "Reconcile K req w = (r, t, w')" "w = m_cluster s" for req w r t w'
    using paysD [OF pays_here [OF pays_Reconcile] that(1) refl] fin that(2) by simp
  have "labels (view (m_cluster s')) = labels (view (m_cluster s)) \<and>
      unsettled (view (m_cluster s')) \<subseteq> unsettled (view (m_cluster s)) \<and>
      of_bool (is_woken l) + size (m_sleeping s') + card (unsettled (view (m_cluster s')))
        \<le> size (m_sleeping s) + card (unsettled (view (m_cluster s)))"
    using assms(1)
  proof (cases rule: mstep.cases)
    case (class_event e reqs t w')
    note same = class_requests_view [OF class_event(3)]
    from labels_cong [OF same] unsettled_cong [OF same] class_event(1,2) show ?thesis by (simp add: enqueue_def)
  next
    case (serve controller req r t w')
    from served [OF serve(4) refl] serve(1,2) show ?thesis by (auto simp: paid_def)
  next
    case (wake c r t w')
    from served [OF wake(4) refl] size_remove_one [OF wake(3), of "mset (spawns t)"] wake(1,2) show ?thesis
      by (auto simp: paid_def)
  qed (use assms(2) in \<open>auto simp: enqueue_def\<close>)
  then show "labels (view (m_cluster s')) = labels (view (m_cluster s))"
    "unsettled (view (m_cluster s')) \<subseteq> unsettled (view (m_cluster s))"
    "of_bool (is_woken l) + size (m_sleeping s') + card (unsettled (view (m_cluster s')))
      \<le> size (m_sleeping s) + card (unsettled (view (m_cluster s)))" by blast+
qed

lemma msteps_pay:
  assumes "msteps K s ls s'" and "Outside \<notin> set ls" and "finite (unsettled (view (m_cluster s)))"
  shows "labels (view (m_cluster s')) = labels (view (m_cluster s)) \<and>
    unsettled (view (m_cluster s')) \<subseteq> unsettled (view (m_cluster s)) \<and>
    length (filter is_woken ls) + size (m_sleeping s') + card (unsettled (view (m_cluster s')))
      \<le> size (m_sleeping s) + card (unsettled (view (m_cluster s)))"
  using assms
proof (induction rule: msteps.induct)
  case (more s l s1 ls s2)
  then have l: "l \<noteq> Outside" and ls: "Outside \<notin> set ls" by auto
  note step = mstep_pays [OF more(1) l more.prems(2)]
  from step(2) more.prems(2) have "finite (unsettled (view (m_cluster s1)))" by (rule finite_subset)
  from more.IH [OF ls this] step show ?case by (cases "is_woken l") auto
qed simp

end

section \<open>Properties\<close>



text \<open>A namespace request that succeeded, when the namespace is there and has a class.\<close>

lemma namespace_request_run:
  assumes run: "Reconcile K (byName n) w = (Ok r, t, w')"
    and cls: "k_getClass K (byName n) w = (Inl err, w1)" "IsNotFound K err"
    and get: "k_getNs K n w1 = (Inr ns, w2)" "ns_DeletionTimestamp ns = None"
    and label: "c = map_read (ns_Labels ns) NamespaceClassLabel" "c \<noteq> ''''"
  obtains nc w3 v where "k_getClass K (byName c) w2 = (Inr nc, w3)" and "reconcileNamespaceWithClass K ns nc w3 = (Ok (), v, w')"
    and "t = [EvGetClass (byName n) (Inl err), EvGetNs n (Inr ns), EvGetClass (byName c) (Inr nc)] @ v"
proof -
  from run cls have "\<exists>s. reconcileNamespaceRequest K n w1 = (Ok r, s, w') \<and> t = EvGetClass (byName n) (Inl err) # s"
    by (auto simp: Reconcile_def getClass_def byName_def go_defs split: prod.splits)
  then obtain s where s: "reconcileNamespaceRequest K n w1 = (Ok r, s, w')" and t: "t = EvGetClass (byName n) (Inl err) # s" by blast
  have got: "tryG (getNs K n) w1 = (Ok (Inr ns), [EvGetNs n (Inr ns)], w2)" by (simp add: getNs_def go_defs get(1))
  let ?member = "\<lambda>c. case c of None \<Rightarrow> returnG \<lparr>Requeue = False\<rparr>
      | Some nc \<Rightarrow> bindG (reconcileNamespaceWithClass K ns nc) (\<lambda>_. returnG \<lparr>Requeue = False\<rparr>)"
  from s obtain u where "bindG (getNamespaceClass K ns) ?member w2 = (Ok r, u, w')" and u: "s = EvGetNs n (Inr ns) # u"
    unfolding reconcileNamespaceRequest_def getNamespace_def by (auto elim!: bind_runE simp: got get(2) split: if_splits)
  then have "bindG (getClass K (byName c)) (\<lambda>nc. bindG (reconcileNamespaceWithClass K ns nc) (\<lambda>_. returnG \<lparr>Requeue = False\<rparr>)) w2 = (Ok r, u, w')"
    using label by (simp add: getNamespaceClass_def bind_assoc)
  then show thesis
    using t u by (auto elim!: bind_runE simp: getClass_def call_run_Ok returnG_def intro: that)
qed

context kube_cluster
begin

lemma namespace_request_settles:
  assumes run: "Reconcile K (byName n) w = (Ok r, t, w')"
    and cls: "k_getClass K (byName n) w = (Inl err, w1)" "IsNotFound K err"
    and get: "k_getNs K n w1 = (Inr ns, w2)" "ns_DeletionTimestamp ns = None"
    and label: "c = map_read (ns_Labels ns) NamespaceClassLabel" "c \<noteq> ''''"
  shows "settled (view w') n c"
proof -
  from assms obtain nc w3 v where nc: "k_getClass K (byName c) w2 = (Inr nc, w3)"
    and "reconcileNamespaceWithClass K ns nc w3 = (Ok (), v, w')"
    by (rule namespace_request_run)
  moreover have "nc_Name nc = c" using getClass_name [OF nc] by (simp add: byName_def)
  moreover have "ns_Name ns = n" using getNs_name [OF get(1)] .
  ultimately show ?thesis using namespace_settles label(2) by blast
qed

lemma served_settles:
  assumes step: "mstep K s (Served (byName n) (Ok r) t) s'"
    and cls: "k_getClass K (byName n) (m_cluster s) = (Inl err, w1)" "IsNotFound K err"
    and get: "k_getNs K n w1 = (Inr ns, w2)" "ns_DeletionTimestamp ns = None"
    and label: "c = map_read (ns_Labels ns) NamespaceClassLabel" "c \<noteq> ''''"
    and rest: "msteps K s' ls s''" "Outside \<notin> set ls" and fin: "finite (unsettled (view (m_cluster s)))"
  shows "\<exists>x. nss (view (m_cluster s'')) n = Some x \<and> map_read (nv_Annotations x) CurrentClassAnnotation = c"
proof -
  note paid = mstep_pays [OF step _ fin, simplified]
  from step have run: "Reconcile K (byName n) (m_cluster s) = (Ok r, t, m_cluster s')" by (auto elim: mstepE)
  from namespace_request_settles [OF run cls get label] obtain x
    where x: "nss (view (m_cluster s')) n = Some x" "map_read (nv_Annotations x) CurrentClassAnnotation = c"
    by (auto simp: settled_def)
  from getNs_view [OF get(1)] getClass_view [OF cls(1)] have "labels (view (m_cluster s)) n = Some (ns_Labels ns)"
    by (simp add: labels_def)
  with paid(1) have l: "labels (view (m_cluster s')) n = Some (ns_Labels ns)" by simp
  with x label(1) have settled: "n \<notin> unsettled (view (m_cluster s'))" by (auto simp: unsettled_def labels_def)
  have "finite (unsettled (view (m_cluster s')))" using paid(2) fin by (rule finite_subset)
  from msteps_pay [OF rest this] settled l
  have "n \<notin> unsettled (view (m_cluster s''))" "labels (view (m_cluster s'')) n = Some (ns_Labels ns)" by auto
  then show ?thesis using label(1) by (auto simp: unsettled_def labels_def)
qed

end



end
