(* ===== verification/Convergence.thy ===== *)
theory Convergence imports Reconcile_Branches begin

text \<open>
  What a successful reconciliation achieves in a cluster whose writes take effect (\<open>kube_store\<close>): every
  resource of the class is there, with the class's owner label.
\<close>

text \<open>The key under which a resource of a class is stored in a namespace.\<close>

definition keyIn :: "string \<Rightarrow> Unstructured \<Rightarrow> objkey" where
  "keyIn n u = (Group (u_GVK u), Kind (u_GVK u), n, u_Name u)"

text \<open>An object is stored under the key and carries the owner label of the class.\<close>

definition stored :: "('w \<Rightarrow> objkey \<Rightarrow> Unstructured option) \<Rightarrow> string \<Rightarrow> objkey \<Rightarrow> 'w \<Rightarrow> bool" where
  "stored at c k w \<longleftrightarrow> (\<exists>v. at w k = Some v \<and> has_label (u_Labels v) NamespaceClassOwner c)"

definition applied_all :: "'w kube \<Rightarrow> ('w \<Rightarrow> objkey \<Rightarrow> Unstructured option) \<Rightarrow> string \<Rightarrow> string \<Rightarrow> RawExtension list \<Rightarrow> 'w \<Rightarrow> bool" where
  "applied_all K at n c rs w \<longleftrightarrow>
     (\<forall>res\<in>set rs. \<exists>u. convertRawToUnstructured K res = Inr u \<and> stored at c (keyIn n u) w)"

text \<open>An answer that says that the namespace is gone or going.\<close>

fun ns_gone :: "'w kube \<Rightarrow> event \<Rightarrow> bool" where
  "ns_gone K (EvGetNs n (Inl e)) = IsNotFound K e"
| "ns_gone K (EvGetNs n (Inr ns)) = (ns_DeletionTimestamp ns \<noteq> None)"
| "ns_gone K _ = False"

text \<open>Every course of a reconciliation that succeeds ends with the resources, and maybe the report of a switch.\<close>

lemma reconcileLatest_tail:
  fixes K :: "'w kube"
  assumes "reconcileLatest K nc latest w = (Ok (), t, w')"
  shows "\<exists>w0 t0 s. (reconcileNamespaceClassResources K latest nc w0 = (Ok (), s, w') \<or>
      bindG (reconcileNamespaceClassResources K latest nc) (\<lambda>_.
        bindG (tryG (updateClassSwitchStatus K latest (nc_Name nc) (map_read (ns_Annotations latest) CurrentClassAnnotation)))
          (\<lambda>_. returnG ())) w0 = (Ok (), s, w')) \<and> t = t0 @ s"
proof -
  have after: "\<exists>w0 t0 s. m w0 = (Ok (), s, w') \<and> u = t0 @ s" if "bindG p (\<lambda>_. m) v = (Ok (), u, w')"
    for p :: "('w, unit) prog" and m :: "('w, unit) prog" and v u
    using that by (auto elim!: bind_runE)
  let ?res = "reconcileNamespaceClassResources K latest nc"
  let ?cur = "map_read (ns_Annotations latest) CurrentClassAnnotation"
  let ?tail = "bindG ?res (\<lambda>_. bindG (tryG (updateClassSwitchStatus K latest (nc_Name nc) ?cur)) (\<lambda>_. returnG ()))"
  have "(\<exists>w0 t0 s. ?res w0 = (Ok (), s, w') \<and> t = t0 @ s) \<or> (\<exists>w0 t0 s. ?tail w0 = (Ok (), s, w') \<and> t = t0 @ s)"
  proof -
    let ?orig = "map_read (ns_Annotations latest) LastAppliedClassAnnotation" and ?c = "nc_Name nc"
    consider (first) "?orig = ''''" | (init) "?orig \<noteq> ''''" "?cur = ''''"
      | (switch) "?orig \<noteq> ''''" "?cur \<noteq> ''''" "?cur \<noteq> ?c" | (same) "?orig \<noteq> ''''" "?cur \<noteq> ''''" "?cur = ?c"
      by blast
    then show ?thesis
    proof cases
      case first
      then have "bindG (setClassAnnotations K latest ?c ?c) (\<lambda>_.
          bindG (if ?c = '''' then updateCurrentClassAnnotation K latest ?c else returnG ()) (\<lambda>_. ?res)) w = (Ok (), t, w')"
        using assms by (simp add: reconcileLatest_def Let_def)
      from after [OF this] show ?thesis by (auto dest!: after) (metis append_assoc)
    next
      case init
      then have "bindG (updateCurrentClassAnnotation K latest ?c) (\<lambda>_. ?res) w = (Ok (), t, w')"
        using assms by (simp add: reconcileLatest_def Let_def)
      from after [OF this] show ?thesis by blast
    next
      case switch
      then have "bindG (cleanupPreviousNamespaceClassResources K latest ?cur ?c) (\<lambda>_.
          bindG (updateCurrentClassAnnotation K latest ?c) (\<lambda>_. bindG (emitG (EvSpawn ?cur)) (\<lambda>_. ?tail))) w = (Ok (), t, w')"
        using assms by (simp add: reconcileLatest_def Let_def)
      from after [OF this] obtain w1 t1 s1
        where "bindG (updateCurrentClassAnnotation K latest ?c) (\<lambda>_. bindG (emitG (EvSpawn ?cur)) (\<lambda>_. ?tail)) w1 = (Ok (), s1, w')"
          and "t = t1 @ s1" by blast
      moreover from after [OF this(1)] obtain w2 t2 s2
        where "bindG (emitG (EvSpawn ?cur)) (\<lambda>_. ?tail) w2 = (Ok (), s2, w')" and "s1 = t2 @ s2" by blast
      moreover from after [OF this(1)] obtain w3 t3 s3 where "?tail w3 = (Ok (), s3, w')" and "s2 = t3 @ s3" by blast
      ultimately show ?thesis
        by (intro disjI2 exI [of _ w3] exI [of _ "t1 @ t2 @ t3"] exI [of _ s3]) simp
    next
      case same
      with assms have "?res w = (Ok (), t, w')" by (simp add: reconcileLatest_def Let_def)
      then show ?thesis by (intro disjI1 exI [of _ w] exI [of _ "[]"] exI [of _ t]) simp
    qed
  qed
  then show ?thesis by blast
qed

lemma reconcileLatest_applies:
  assumes "reconcileLatest K nc latest w = (Ok (), t, w')"
  shows "\<exists>w0 t0 t1 w1 t2. reconcileNamespaceClassResources K latest nc w0 = (Ok (), t1, w1) \<and> t = t0 @ t1 @ t2"
proof -
  from reconcileLatest_tail [OF assms] obtain w0 t0 s
    where "reconcileNamespaceClassResources K latest nc w0 = (Ok (), s, w') \<or>
      bindG (reconcileNamespaceClassResources K latest nc) (\<lambda>_.
        bindG (tryG (updateClassSwitchStatus K latest (nc_Name nc) (map_read (ns_Annotations latest) CurrentClassAnnotation)))
          (\<lambda>_. returnG ())) w0 = (Ok (), s, w')" and t: "t = t0 @ s" by blast
  then obtain t1 w1 t2 where "reconcileNamespaceClassResources K latest nc w0 = (Ok (), t1, w1)" "s = t1 @ t2"
    by (auto elim!: bind_runE)
  with t show ?thesis by blast
qed

context kube_client
begin

text \<open>A run that applies the resources is, after some reads, the loop over them.\<close>

lemma resources_run:
  assumes "reconcileNamespaceClassResources K ns nc w = (Ok (), t, w')" and "list_all (\<lambda>e. \<not> ns_gone K e) t"
    and "ns_DeletionTimestamp ns = None" and "Resources (Spec nc) \<noteq> []"
  obtains l w2 t1 t2 where "applyResources K nc l (Resources (Spec nc)) w2 = (Ok (), t2, w')"
    and "ns_Name l = ns_Name ns" and "t = t1 @ t2"
proof -
  obtain a w1 where get: "k_getNs K (ns_Name ns) w = (a, w1)" by (cases "k_getNs K (ns_Name ns) w")
  with assms obtain l where a: "a = Inr l" "ns_DeletionTimestamp l = None"
    by (cases a) (auto simp: reconcileNamespaceClassResources_def getNs_def go_defs split: if_splits)
  with get have name: "ns_Name l = ns_Name ns" by (auto dest: getNs_name)
  let ?m = "bindG (getCurrentNamespaceClassResources K l nc) (\<lambda>_. applyResources K nc l (Resources (Spec nc)))"
  obtain s where run: "?m w1 = (Ok (), s, w')" "t = EvGetNs (ns_Name ns) (Inr l) # s"
    using assms(1,3,4) get a unfolding reconcileNamespaceClassResources_def Let_def
    by (cases "?m w1") (simp add: try_getNs_run)
  from run(1) obtain t1 w2 t2 where "applyResources K nc l (Resources (Spec nc)) w2 = (Ok (), t2, w')" "s = t1 @ t2"
    by (auto elim!: bind_runE)
  with that [of l w2 t2 "EvGetNs (ns_Name ns) (Inr l) # t1"] run(2) name show thesis by simp
qed

end

context kube_store
begin

lemma frame_getNs: "k_getNs K n w = (a, w') \<Longrightarrow> at w' = at w"
  using getNs_frame [of n w] by simp

lemma frame_getObj: "k_getObj K gvk m n w = (a, w') \<Longrightarrow> at w' = at w"
  using getObj_frame [of gvk m n w] by simp

lemma frame_listObj: "k_listObj K gvk n key val w = (a, w') \<Longrightarrow> at w' = at w"
  using listObj_frame [of gvk n key val w] by simp

lemma keeps_getNs: "keeps (stored at c k) (getNs K n)"
  unfolding getNs_def by (intro keeps_call) (auto simp: stored_def dest: frame_getNs)

lemma keeps_getObj: "keeps (stored at c k) (getObj K gvk m n)"
  unfolding getObj_def by (intro keeps_call) (auto simp: stored_def dest: frame_getObj)

lemma keeps_listObj: "keeps (stored at c k) (listObj K gvk n key val)"
  unfolding listObj_def by (intro keeps_call) (auto simp: stored_def dest: frame_listObj)

lemma keeps_discover: "keeps (stored at c k) (ServerPreferredResources K)"
  unfolding ServerPreferredResources_def
  by (intro keepsI) (use discover_frame in \<open>auto simp: stored_def split: prod.splits\<close>, metis snd_conv)

text \<open>A write of an object with the owner label keeps what is stored, and stores it.\<close>

lemma keeps_create: "has_label (u_Labels u) NamespaceClassOwner c \<Longrightarrow> keeps (stored at c k) (createObj K u)"
  unfolding createObj_def
proof (intro keeps_call)
  fix w a w'
  assume "has_label (u_Labels u) NamespaceClassOwner c" "stored at c k w" "k_create K u w = (a, w')"
  then show "stored at c k w'"
    by (cases a) (auto simp: stored_def dest: create_err dest!: create_ok)
qed

lemma keeps_update: "has_label (u_Labels u) NamespaceClassOwner c \<Longrightarrow> keeps (stored at c k) (updateObj K u)"
  unfolding updateObj_def
proof (intro keeps_call)
  fix w a w'
  assume "has_label (u_Labels u) NamespaceClassOwner c" "stored at c k w" "k_updateObj K u w = (a, w')"
  then show "stored at c k w'"
    by (cases a) (auto simp: stored_def dest: updateObj_err dest!: updateObj_ok)
qed

lemma valid_create:
  "has_label (u_Labels u) NamespaceClassOwner c \<Longrightarrow> valid (\<lambda>_. True) (createObj K u) (\<lambda>_. stored at c (obj_key u))"
  unfolding createObj_def valid_def by (auto simp: call_run_Ok stored_def dest!: create_ok)

lemma valid_update:
  "has_label (u_Labels u) NamespaceClassOwner c \<Longrightarrow> valid (\<lambda>_. True) (updateObj K u) (\<lambda>_. stored at c (obj_key u))"
  unfolding updateObj_def valid_def by (auto simp: call_run_Ok stored_def dest!: updateObj_ok)

lemma keeps_applyResource: "keeps (stored at (nc_Name nc) k) (applyResourceToNamespace K ns nc res)"
proof -
  have "has_label (u_Labels (prepared u n c)) NamespaceClassOwner c" for u n c
    using prepared_owned [of n c u] by (simp only: owned_by_def)
  then show ?thesis
    unfolding applyResourceToNamespace_def applyUnstructuredResource_def updateUnstructuredResource_def prepare_eq bind_return
    by (intro keeps_intro keeps_getObj keeps_create keeps_update) simp_all
qed

lemma valid_applyResource:
  assumes "applyResourceToNamespace K ns nc res w = (Ok x, t, w')"
  shows "\<exists>u. convertRawToUnstructured K res = Inr u \<and> stored at (nc_Name nc) (keyIn (ns_Name ns) u) w'"
proof (cases "convertRawToUnstructured K res")
  case (Inl e)
  with assms show ?thesis by (simp add: applyResourceToNamespace_def go_defs)
next
  case (Inr u)
  let ?p = "prepared u (ns_Name ns) (nc_Name nc)"
  have label: "has_label (u_Labels ?p) NamespaceClassOwner (nc_Name nc)"
    using prepared_owned [of "ns_Name ns" "nc_Name nc" u] by (simp only: owned_by_def)
  have key: "obj_key ?p = keyIn (ns_Name ns) u" "obj_key (?p\<lparr>u_ResourceVersion := v\<rparr>) = keyIn (ns_Name ns) u" for v
    by (simp_all add: obj_key_def keyIn_def)
  have "valid (\<lambda>_. True) (applyUnstructuredResource K ?p) (\<lambda>_. stored at (nc_Name nc) (keyIn (ns_Name ns) u))"
    unfolding applyUnstructuredResource_def updateUnstructuredResource_def
    using valid_create [OF label] valid_update [of "?p\<lparr>u_ResourceVersion := v\<rparr>" "nc_Name nc" for v] label
    by (intro valid_bind [where R = "\<lambda>_ _. True"])
      (auto simp: key valid_def wrap_run_Ok failG_def split: sum.split)
  moreover have "\<exists>t' w1. applyUnstructuredResource K ?p w1 = (Ok x, t', w')"
    using assms Inr unfolding applyResourceToNamespace_def prepare_eq
    by (auto simp: liftE_def wrap_run_Ok yields_simp elim!: bind_runE) (auto simp: go_defs wrap_run_Ok split: prod.splits res.splits)
  ultimately show ?thesis using Inr by (auto dest: validD)
qed

lemma keeps_applyResources: "keeps (stored at (nc_Name nc) k) (applyResources K nc latest rs)"
proof (induction rs arbitrary: latest)
  case (Cons r rs)
  then show ?case
    by simp (intro keeps_intro keeps_getNs keeps_applyResource)
qed (simp add: keeps_intro)

lemma applyResources_ok:
  assumes "applyResources K nc latest rs w = (Ok (), t, w')" and "list_all (\<lambda>e. \<not> ns_gone K e) t"
  shows "applied_all K at (ns_Name latest) (nc_Name nc) rs w'"
  using assms
proof (induction rs arbitrary: latest w t)
  case Nil
  show ?case by (simp add: applied_all_def)
next
  case (Cons r rs)
  obtain a w1 where get: "k_getNs K (ns_Name latest) w = (a, w1)" by (cases "k_getNs K (ns_Name latest) w")
  with Cons.prems obtain l where a: "a = Inr l" "ns_DeletionTimestamp l = None"
    by (cases a) (auto simp: getNs_def go_defs split: if_splits)
  with get have name: "ns_Name l = ns_Name latest" by (auto dest: getNs_name)
  let ?m = "bindG (applyResourceToNamespace K l nc r) (\<lambda>_. applyResources K nc l rs)"
  obtain s where run: "?m w1 = (Ok (), s, w')" "t = EvGetNs (ns_Name latest) (Inr l) # s"
    using Cons.prems(1) get a by (cases "?m w1") (simp add: try_getNs_run)
  from run(1) obtain t1 w2 t2 where apply_r: "applyResourceToNamespace K l nc r w1 = (Ok (), t1, w2)"
    and rest: "applyResources K nc l rs w2 = (Ok (), t2, w')" "s = t1 @ t2"
    by (auto elim!: bind_runE)
  have "applied_all K at (ns_Name l) (nc_Name nc) rs w'"
    using Cons.IH [OF rest(1)] Cons.prems(2) run(2) rest(2) by simp
  moreover obtain u where "convertRawToUnstructured K r = Inr u" "stored at (nc_Name nc) (keyIn (ns_Name l) u) w2"
    using valid_applyResource [OF apply_r] by blast
  ultimately show ?case
    using keepsD [OF keeps_applyResources _ rest(1)] name by (simp add: applied_all_def)
qed

lemma resources_ok:
  assumes "reconcileNamespaceClassResources K ns nc w = (Ok (), t, w')" and "list_all (\<lambda>e. \<not> ns_gone K e) t"
    and "ns_DeletionTimestamp ns = None"
  shows "applied_all K at (ns_Name ns) (nc_Name nc) (Resources (Spec nc)) w'"
proof (cases "Resources (Spec nc) = []")
  case True
  then show ?thesis by (simp add: applied_all_def)
next
  case False
  obtain l w2 t1 t2 where run: "applyResources K nc l (Resources (Spec nc)) w2 = (Ok (), t2, w')"
    and "ns_Name l = ns_Name ns" "t = t1 @ t2"
    by (rule resources_run [OF assms False])
  with applyResources_ok [OF run] assms(2) show ?thesis by simp
qed

text \<open>The whole of a reconciliation: the resources are applied last but for the report, which stores no object.\<close>

lemma keeps_switchStatus: "keeps (stored at c k) (updateClassSwitchStatus K ns cur prev)"
proof -
  have "keeps (stored at c k) (patchStatus K base new)" for base new
    unfolding patchStatus_def
    by (intro keeps_call) (use patchStatus_frame in \<open>auto simp: stored_def\<close>, metis snd_conv)
  moreover have "keeps (stored at c k) (getClass K key)" for key
    unfolding getClass_def
    by (intro keeps_call) (use getClass_frame in \<open>auto simp: stored_def\<close>, metis snd_conv)
  moreover have "keeps (stored at c k) (nowG K)"
    by (simp add: keeps_def nowG_def)
  ultimately show ?thesis
    unfolding updateClassSwitchStatus_def applyStatusUpdate_def getFreshNamespaceClass_def Let_def
    by (intro keeps_intro)
qed

lemma switchStatus_tail:
  assumes "bindG (reconcileNamespaceClassResources K latest nc) (\<lambda>_.
      bindG (tryG (updateClassSwitchStatus K latest c prev)) (\<lambda>_. returnG ())) w = (Ok (), t, w')"
  shows "\<exists>t1 w1 t2. reconcileNamespaceClassResources K latest nc w = (Ok (), t1, w1) \<and> t = t1 @ t2 \<and>
    (\<forall>k. stored at (nc_Name nc) k w1 \<longrightarrow> stored at (nc_Name nc) k w')"
  using assms
proof (cases rule: bind_runE)
  case (next_step x t1 w1 t2)
  have "keeps (stored at (nc_Name nc) k) (bindG (tryG (updateClassSwitchStatus K latest c prev)) (\<lambda>_. returnG ()))" for k
    by (intro keeps_intro keeps_switchStatus)
  with next_step keepsD show ?thesis by fastforce
qed simp_all

text \<open>Every course of a reconciliation that succeeds ends with the resources, but for the report.\<close>

lemma reconcileLatest_ends:
  assumes "reconcileLatest K nc latest w = (Ok (), t, w')"
  shows "\<exists>w0 t0 t1 w1 t2. reconcileNamespaceClassResources K latest nc w0 = (Ok (), t1, w1) \<and> t = t0 @ t1 @ t2 \<and>
    (\<forall>k. stored at (nc_Name nc) k w1 \<longrightarrow> stored at (nc_Name nc) k w')"
proof -
  let ?res = "reconcileNamespaceClassResources K latest nc"
  let ?cur = "map_read (ns_Annotations latest) CurrentClassAnnotation"
  let ?tail = "bindG ?res (\<lambda>_. bindG (tryG (updateClassSwitchStatus K latest (nc_Name nc) ?cur)) (\<lambda>_. returnG ()))"
  from reconcileLatest_tail [OF assms] have "(\<exists>w0 t0 s. ?res w0 = (Ok (), s, w') \<and> t = t0 @ s) \<or>
      (\<exists>w0 t0 s. ?tail w0 = (Ok (), s, w') \<and> t = t0 @ s)" by blast
  then show ?thesis
  proof (elim disjE exE conjE)
    fix w0 t0 s
    assume "?res w0 = (Ok (), s, w')" "t = t0 @ s"
    then show ?thesis by (intro exI [of _ w0] exI [of _ t0] exI [of _ s] exI [of _ w'] exI [of _ "[]"]) simp
  next
    fix w0 t0 s
    assume "?tail w0 = (Ok (), s, w')" and t: "t = t0 @ s"
    from switchStatus_tail [OF this(1)] t show ?thesis by (metis append_assoc)
  qed
qed

lemma reconcile_ok:
  assumes "reconcileNamespaceWithClass K ns nc w = (Ok (), t, w')" and "list_all (\<lambda>e. \<not> ns_gone K e) t"
  shows "applied_all K at (ns_Name ns) (nc_Name nc) (Resources (Spec nc)) w'"
proof -
  obtain a w0 where get: "k_getNs K (ns_Name ns) w = (a, w0)" by (cases "k_getNs K (ns_Name ns) w")
  with assms(1) obtain latest where a: "a = Inr latest"
    by (cases a) (auto simp: reconcile_eq getNs_def go_defs)
  from assms(1) obtain s where run: "reconcileLatest K nc latest w0 = (Ok (), s, w')"
    and t: "t = EvGetNs (ns_Name ns) (Inr latest) # s"
    by (cases "reconcileLatest K nc latest w0") (simp add: reconcile_run [OF get [unfolded a]])
  from reconcileLatest_ends [OF run] obtain w1 t0 t1 w2 t2
    where res: "reconcileNamespaceClassResources K latest nc w1 = (Ok (), t1, w2)" and s: "s = t0 @ t1 @ t2"
      and keep: "\<forall>k. stored at (nc_Name nc) k w2 \<longrightarrow> stored at (nc_Name nc) k w'" by blast
  from get a have "ns_Name latest = ns_Name ns" by (auto dest: getNs_name)
  with resources_ok [OF res] assms(2) t s have "applied_all K at (ns_Name ns) (nc_Name nc) (Resources (Spec nc)) w2"
    by simp
  with keep show ?thesis unfolding applied_all_def by blast
qed

end

text \<open>
  Convergence.  In a cluster whose writes take effect, a reconciliation that returns without an error,
  and whose reads never found the namespace missing or terminating, leaves every resource of the
  class stored in the namespace under its group, kind and name with the owner label of the class;
  in particular all of them converted.  (The success itself is not assumed away: the witness runs it.)
\<close>

theorem reconcile_converges:
  assumes "kube_store K at" and "reconcileNamespaceWithClass K ns nc w = (Ok (), t, w')"
    and "list_all (\<lambda>e. \<not> ns_gone K e) t"
  shows "\<forall>res\<in>set (Resources (Spec nc)). \<exists>u v. convertRawToUnstructured K res = Inr u \<and>
    at w' (keyIn (ns_Name ns) u) = Some v \<and> has_label (u_Labels v) NamespaceClassOwner (nc_Name nc)"
  using kube_store.reconcile_ok [OF assms] by (simp add: applied_all_def stored_def)

lemma reconcile_converges_witness:
  "\<exists>u v. convertRawToUnstructured mem_kube \<lparr>Raw = ''/v1/ConfigMap/public-config'', Object = None\<rparr> = Inr u \<and>
     mem_at (state_of (reconcileNamespaceWithClass mem_kube sample_switching
         (sample_class ''public-network'' [''/v1/ConfigMap/public-config''])) switching_cluster)
       (keyIn (ns_Name sample_switching) u) = Some v \<and>
     has_label (u_Labels v) NamespaceClassOwner (nc_Name (sample_class ''public-network'' [''/v1/ConfigMap/public-config'']))"
proof -
  let ?run = "reconcileNamespaceWithClass mem_kube sample_switching
      (sample_class ''public-network'' [''/v1/ConfigMap/public-config'']) switching_cluster"
  have "fst ?run = Ok ()" by code_simp
  then have "?run = (Ok (), fst (snd ?run), snd (snd ?run))" by (metis prod.collapse)
  moreover have "list_all (\<lambda>e. \<not> ns_gone mem_kube e) (fst (snd ?run))" by code_simp
  ultimately show ?thesis
    by (rule reconcile_converges [OF mem.kube_store_axioms, THEN bspec]) (simp add: sample_class_def)
qed

end
