(* ===== verification/Drift_Repair.thy ===== *)
theory Drift_Repair imports Request_Progress Convergence begin

text \<open>
  The loop from a drift to its repair: a change of an object of a class reaches the queue of the watch controller
  of its type, and the request it puts there, once it succeeds, has the objects of the class stored again.
\<close>

lemma object_requests_owned:
  assumes "has_label (u_Labels u) NamespaceClassOwner c" and "c \<noteq> ''''" and "u_Namespace u \<noteq> ''''"
  shows "object_requests (DeleteEvent u) = [byName (u_Namespace u)]"
    and "byName (u_Namespace u) \<in> set (object_requests (UpdateEvent u v))"
  using assms by (auto simp: object_requests_def enqueueForOwningNamespaceClass_def dest: has_label_read)

text \<open>The events of a drift: the object was deleted, or changed to \<open>v\<close>.\<close>

definition drift :: "Unstructured \<Rightarrow> Unstructured watch_event \<Rightarrow> bool" where
  "drift u e \<longleftrightarrow> e = DeleteEvent u \<or> (\<exists>v. e = UpdateEvent u v \<and> u_GVK v = u_GVK u)"

lemma drift_request:
  assumes "drift u e" and "has_label (u_Labels u) NamespaceClassOwner c" and "c \<noteq> ''''" and "u_Namespace u \<noteq> ''''"
  shows "byName (u_Namespace u) \<in> set (object_requests e)"
  using assms(1) object_requests_owned [OF assms(2-4)] by (auto simp: drift_def)

text \<open>A request stays in its queue until it is served.\<close>

lemma waits_step:
  assumes "mstep K s l s'" and "(controller, req) \<in> m_queue s" and "\<And>r t. l \<noteq> Served req r t"
  shows "(controller, req) \<in> m_queue s'"
  using assms by (cases rule: mstep.cases) (auto simp: enqueue_def)

lemma waits:
  assumes "msteps K s ls s'" and "(controller, req) \<in> m_queue s" and "\<And>r t. Served req r t \<notin> set ls"
  shows "(controller, req) \<in> m_queue s'"
  using assms by (induction rule: msteps.induct) (auto dest: waits_step)

context kube_store
begin

lemma namespace_request_repairs:
  assumes run: "Reconcile K (byName n) w = (Ok r, t, w')"
    and cls: "k_getClass K (byName n) w = (Inl err, w1)" "IsNotFound K err"
    and get: "k_getNs K n w1 = (Inr ns, w2)" "ns_DeletionTimestamp ns = None"
    and label: "c = map_read (ns_Labels ns) NamespaceClassLabel" "c \<noteq> ''''"
    and here: "list_all (\<lambda>e. \<not> ns_gone K e) t"
  shows "\<exists>nc. EvGetClass (byName c) (Inr nc) \<in> set t \<and> applied_all K at n c (Resources (Spec nc)) w'"
proof -
  obtain nc w3 v where nc: "k_getClass K (byName c) w2 = (Inr nc, w3)"
    and rec: "reconcileNamespaceWithClass K ns nc w3 = (Ok (), v, w')"
    and t: "t = [EvGetClass (byName n) (Inl err), EvGetNs n (Inr ns), EvGetClass (byName c) (Inr nc)] @ v"
    by (rule namespace_request_run [OF run cls get label])
  have names: "nc_Name nc = c" "ns_Name ns = n"
    using getClass_name [OF nc] getNs_name [OF get(1)] by (simp_all add: byName_def)
  have "list_all (\<lambda>e. \<not> ns_gone K e) v" using here t by simp
  from reconcile_ok [OF rec this] names t show ?thesis by auto
qed

end

section \<open>Properties\<close>

text \<open>
  C11: drift is repaired.  When an object with a class's owner label, of a watched type, is deleted or changed in the
  namespace \<open>n\<close>, its watch controller gets a request for \<open>n\<close>, which stays in the queue until it is served.  In a cluster whose
  writes take effect, when that request succeeds (the namespace is there and never seen to go, has a class label, and no class
  has its name), every resource of the class it read is stored in the namespace with the class's owner label.
\<close>

theorem drift_is_repaired:
  assumes "kube_store K at" and "drift u e" and "u_GVK u \<in> m_watched s" and "u_Namespace u = n" and "n \<noteq> ''''"
    and "has_label (u_Labels u) NamespaceClassOwner owner" and "owner \<noteq> ''''"
    and "s' = enqueue (controllerName (u_GVK u)) (object_requests e) s"
    and "msteps K s' ls s1" and "\<And>r t. Served (byName n) r t \<notin> set ls"
    and "mstep K s1 (Served (byName n) (Ok r) t) s2"
    and "k_getClass K (byName n) (m_cluster s1) = (Inl err, w1)" and "IsNotFound K err"
    and "k_getNs K n w1 = (Inr ns, w2)" and "ns_DeletionTimestamp ns = None"
    and "c = map_read (ns_Labels ns) NamespaceClassLabel" and "c \<noteq> ''''"
    and "list_all (\<lambda>e. \<not> ns_gone K e) t"
  shows "mstep K s Noticed s' \<and> (controllerName (u_GVK u), byName n) \<in> m_queue s1 \<and>
    (\<exists>nc. EvGetClass (byName c) (Inr nc) \<in> set t \<and> (\<forall>res\<in>set (Resources (Spec nc)). \<exists>v x.
       convertRawToUnstructured K res = Inr v \<and> at (m_cluster s2) (keyIn n v) = Some x \<and>
       has_label (u_Labels x) NamespaceClassOwner c))"
proof (intro conjI)
  have "\<forall>v\<in>set (objects_of e). u_GVK v = u_GVK u" using assms(2) by (auto simp: drift_def)
  then show "mstep K s Noticed s'" unfolding assms(8) by (rule mstep.object_event [OF assms(3)])
  have "(controllerName (u_GVK u), byName n) \<in> m_queue s'"
    using drift_request [OF assms(2,6,7)] assms(4,5,8) by (simp add: enqueue_def)
  then show "(controllerName (u_GVK u), byName n) \<in> m_queue s1" using assms(10) by (rule waits [OF assms(9)])
  from assms(11) have run: "Reconcile K (byName n) (m_cluster s1) = (Ok r, t, m_cluster s2)" by (auto elim: mstepE)
  from kube_store.namespace_request_repairs [OF assms(1) run assms(12-18)]
  show "\<exists>nc. EvGetClass (byName c) (Inr nc) \<in> set t \<and> (\<forall>res\<in>set (Resources (Spec nc)). \<exists>v x.
       convertRawToUnstructured K res = Inr v \<and> at (m_cluster s2) (keyIn n v) = Some x \<and>
       has_label (u_Labels x) NamespaceClassOwner c)"
    by (simp add: applied_all_def stored_def)
qed

text \<open>
  An object of \<open>public-network\<close> is deleted, the namespace being in that class; the watch controller of its type serves the
  request.
\<close>

definition repaired_namespace :: Namespace where
  "repaired_namespace = sample_namespace\<lparr>ns_Annotations :=
     Some [LastAppliedClassAnnotation \<mapsto> ''public-network'', CurrentClassAnnotation \<mapsto> ''public-network'']\<rparr>"

definition drifted_cluster :: cluster where
  "drifted_cluster = sample_cluster\<lparr>cl_Namespaces := [repaired_namespace]\<rparr>"

definition deleted_object :: Unstructured where
  "deleted_object = sample_object\<lparr>u_Name := ''public-config'', u_Labels := Some [NamespaceClassOwner \<mapsto> ''public-network'']\<rparr>"

lemma drift_is_repaired_witness:
  "let (r, t, w') = Reconcile mem_kube (byName ''web-portal'') drifted_cluster in
   \<exists>nc. EvGetClass (byName ''public-network'') (Inr nc) \<in> set t \<and> (\<forall>res\<in>set (Resources (Spec nc)). \<exists>v x.
     convertRawToUnstructured mem_kube res = Inr v \<and> mem_at w' (keyIn ''web-portal'' v) = Some x \<and>
     has_label (u_Labels x) NamespaceClassOwner ''public-network'')"
proof -
  let ?run = "Reconcile mem_kube (byName ''web-portal'') drifted_cluster"
  let ?s = "\<lparr>m_cluster = drifted_cluster, m_watched = {u_GVK deleted_object}, m_queue = {}, m_sleeping = {#}\<rparr>"
  let ?s' = "enqueue (controllerName (u_GVK deleted_object)) (object_requests (DeleteEvent deleted_object)) ?s"
  have ok: "fst ?run = Ok \<lparr>Requeue = False\<rparr>" by code_simp
  have here: "list_all (\<lambda>e. \<not> ns_gone mem_kube e) (fst (snd ?run))" by code_simp
  have ran: "?run = (Ok \<lparr>Requeue = False\<rparr>, fst (snd ?run), snd (snd ?run))" by (metis ok prod.collapse)
  have owned: "has_label (u_Labels deleted_object) NamespaceClassOwner ''public-network''" "u_Namespace deleted_object = ''web-portal''"
    by (simp_all add: deleted_object_def sample_object_def has_label_def)
  have drift: "drift deleted_object (DeleteEvent deleted_object)" by (simp add: drift_def)
  have queued: "(controllerName (u_GVK deleted_object), byName ''web-portal'') \<in> m_queue ?s'"
    using drift_request [OF drift owned(1)] owned(2) by (simp add: enqueue_def)
  have cls: "k_getClass mem_kube (byName ''web-portal'') (m_cluster ?s') = (Inl not_found, drifted_cluster)" "IsNotFound mem_kube not_found"
    and get: "k_getNs mem_kube ''web-portal'' drifted_cluster = (Inr repaired_namespace, drifted_cluster)"
      "ns_DeletionTimestamp repaired_namespace = None" "''public-network'' = map_read (ns_Labels repaired_namespace) NamespaceClassLabel"
    by (simp_all add: mem_kube_def mem_getClass_def mem_getNs_def find_or_def byName_def drifted_cluster_def repaired_namespace_def
        sample_defs zero_NamespaceClass_def map_read_def enqueue_def)
  have "Reconcile mem_kube (byName ''web-portal'') (m_cluster ?s') = (Ok \<lparr>Requeue = False\<rparr>, fst (snd ?run), snd (snd ?run))"
    using ran by (simp add: enqueue_def)
  from mstep.serve [OF queued this] obtain q where
    served: "mstep mem_kube ?s' (Served (byName ''web-portal'') (Ok \<lparr>Requeue = False\<rparr>) (fst (snd ?run)))
      \<lparr>m_cluster = snd (snd ?run), m_watched = {u_GVK deleted_object}, m_queue = q, m_sleeping = mset (spawns (fst (snd ?run)))\<rparr>"
    by (auto simp: enqueue_def)
  have "u_GVK deleted_object \<in> m_watched ?s" "''web-portal'' \<noteq> ''''" "''public-network'' \<noteq> ''''" by simp_all
  from drift_is_repaired [OF mem.kube_store_axioms drift this(1) owned(2) this(2) owned(1) this(3) refl msteps.finish _ served cls get this(3) here]
  show ?thesis by (simp add: split_def)
qed

end
