(* ===== verification/Interaction.thy ===== *)
theory Interaction imports Kube_Api begin

text \<open>
  A run of the controller as a dialogue.  In \<open>Kube_Api\<close> a program runs from start to end against one
  outside state.  Here the same program is run against a script of answers, so that it can be stopped
  before each call and go on with whatever the outside answers then: the outside may be changed by
  others between two calls.

  The judgement \<open>interactive K m m'\<close> says that \<open>m\<close> (over \<open>K\<close>) and \<open>m'\<close> (over the script) are the same
  dialogue: \<open>m'\<close> uses one answer per call, does not look ahead, takes every answer a client may give, and
  given the answers of \<open>K\<close> it does what \<open>m\<close> does.  Its rules follow the statements of \<open>Go_Prelude\<close> and the
  calls of \<open>Kube_Api\<close>.
\<close>

named_theorems interactive_intro \<open>introduction rules of the judgement interactive\<close>

section \<open>Calls and answers\<close>

text \<open>The events that wait for an answer from outside, and the call of an event without its answer.\<close>

fun is_call :: "event \<Rightarrow> bool" where
  "is_call (EvLock n) = False"
| "is_call (EvUnlock n) = False"
| "is_call (EvSpawn c) = False"
| "is_call _ = True"

definition no_answer :: go_error where
  "no_answer = EExternal ''no answer''"

fun ask :: "event \<Rightarrow> event" where
  "ask (EvGetClass nn a) = EvGetClass nn (Inl no_answer)"
| "ask (EvGetNs n a) = EvGetNs n (Inl no_answer)"
| "ask (EvGetObj gvk m n a) = EvGetObj gvk m n (Inl no_answer)"
| "ask (EvListNs k v a) = EvListNs k v (Inl no_answer)"
| "ask (EvListObj gvk n k v a) = EvListObj gvk n k v (Inl no_answer)"
| "ask (EvDiscover rls err) = EvDiscover [] (Some no_answer)"
| "ask (EvCreate u a) = EvCreate u (Inl no_answer)"
| "ask (EvUpdateObj u a) = EvUpdateObj u (Inl no_answer)"
| "ask (EvDelete u a) = EvDelete u (Inl no_answer)"
| "ask (EvUpdateNs ns a) = EvUpdateNs ns (Inl no_answer)"
| "ask (EvUpdateClass nc a) = EvUpdateClass nc (Inl no_answer)"
| "ask (EvPatchStatus b nc a) = EvPatchStatus b nc (Inl no_answer)"
| "ask (EvLock n) = EvLock n"
| "ask (EvUnlock n) = EvUnlock n"
| "ask (EvSpawn c) = EvSpawn c"
| "ask (EvWatch n gvk a) = EvWatch n gvk (Inl no_answer)"
| "ask (EvManage n a) = EvManage n (Inl no_answer)"

text \<open>The answers a client may give (the laws of \<open>kube_client\<close>, for one event).\<close>

fun lawful :: "event \<Rightarrow> bool" where
  "lawful (EvGetClass nn (Inr c)) = (nc_Name c = nn_Name nn)"
| "lawful (EvGetNs n (Inr ns)) = (ns_Name ns = n)"
| "lawful (EvListNs k v (Inr nss)) = list_all (\<lambda>ns. has_label (ns_Labels ns) k v) nss"
| "lawful (EvListObj gvk n k v (Inr us)) = list_all (\<lambda>u. u_Namespace u = n \<and> has_label (u_Labels u) k v) us"
| "lawful _ = True"

text \<open>What \<open>K\<close> answers to the call of an event, and the state it leaves.\<close>

fun serve :: "'w kube \<Rightarrow> event \<Rightarrow> 'w \<Rightarrow> event \<times> 'w" where
  "serve K (EvGetClass nn _) w = (case k_getClass K nn w of (a, w') \<Rightarrow> (EvGetClass nn a, w'))"
| "serve K (EvGetNs n _) w = (case k_getNs K n w of (a, w') \<Rightarrow> (EvGetNs n a, w'))"
| "serve K (EvGetObj gvk m n _) w = (case k_getObj K gvk m n w of (a, w') \<Rightarrow> (EvGetObj gvk m n a, w'))"
| "serve K (EvListNs k v _) w = (case k_listNs K k v w of (a, w') \<Rightarrow> (EvListNs k v a, w'))"
| "serve K (EvListObj gvk n k v _) w = (case k_listObj K gvk n k v w of (a, w') \<Rightarrow> (EvListObj gvk n k v a, w'))"
| "serve K (EvDiscover _ _) w = (case k_discover K w of ((rls, err), w') \<Rightarrow> (EvDiscover rls err, w'))"
| "serve K (EvCreate u _) w = (case k_create K u w of (a, w') \<Rightarrow> (EvCreate u a, w'))"
| "serve K (EvUpdateObj u _) w = (case k_updateObj K u w of (a, w') \<Rightarrow> (EvUpdateObj u a, w'))"
| "serve K (EvDelete u _) w = (case k_delete K u w of (a, w') \<Rightarrow> (EvDelete u a, w'))"
| "serve K (EvUpdateNs ns _) w = (case k_updateNs K ns w of (a, w') \<Rightarrow> (EvUpdateNs ns a, w'))"
| "serve K (EvUpdateClass nc _) w = (case k_updateClass K nc w of (a, w') \<Rightarrow> (EvUpdateClass nc a, w'))"
| "serve K (EvPatchStatus b nc _) w = (case k_patchStatus K b nc w of (a, w') \<Rightarrow> (EvPatchStatus b nc a, w'))"
| "serve K (EvWatch n gvk _) w = (case k_watch K n gvk w of (a, w') \<Rightarrow> (EvWatch n gvk a, w'))"
| "serve K (EvManage n _) w = (case k_manage K n w of (a, w') \<Rightarrow> (EvManage n a, w'))"
| "serve K e w = (e, w)"

lemma is_call_ask [simp]: "is_call (ask e) = is_call e"
  by (cases e) simp_all

lemma is_call_cong: "ask e = ask e' \<Longrightarrow> is_call e = is_call e'"
  by (metis is_call_ask)

lemma ask_serve [simp]: "ask (fst (serve K e w)) = ask e"
  by (cases e) (simp_all split: prod.splits)

lemma serve_ask: "ask e = ask e' \<Longrightarrow> serve K e w = serve K e' w"
  by (cases e; cases e') simp_all

lemma ask_noncall: "\<not> is_call e \<Longrightarrow> ask e = ask e' \<Longrightarrow> e' = e"
  by (cases e; cases e') simp_all

section \<open>The script\<close>

record script =
  answers :: "nat \<Rightarrow> event"
  clock :: "nat \<Rightarrow> Time"

definition advance :: "nat \<Rightarrow> script \<Rightarrow> script" where
  "advance n s = \<lparr>answers = (\<lambda>i. answers s (n + i)), clock = (\<lambda>i. clock s (n + i))\<rparr>"

lemma advance_simps [simp]:
  "advance 0 s = s" "advance m (advance n s) = advance (n + m) s"
  "answers (advance n s) i = answers s (n + i)" "clock (advance n s) i = clock s (n + i)"
  by (simp_all add: advance_def add.assoc)


definition pop :: "(event \<Rightarrow> 'a) \<Rightarrow> script \<Rightarrow> 'a \<times> script" where
  "pop f s = (f (answers s 0), advance 1 s)"

definition checked :: "(go_error + 'a \<Rightarrow> event) \<Rightarrow> go_error + 'a \<Rightarrow> go_error + 'a" where
  "checked ev a = (if lawful (ev a) then a else Inl no_answer)"

text \<open>
  The script as a client: the next answer, if it is one to this call that a client may give, and an error
  otherwise.  The library functions are those of \<open>K\<close>.
\<close>

definition script_kube :: "'w kube \<Rightarrow> script kube" where
  "script_kube K =
     \<lparr>k_getClass = (\<lambda>nn. pop (\<lambda>e. case e of EvGetClass _ a \<Rightarrow> checked (EvGetClass nn) a | _ \<Rightarrow> Inl no_answer)),
      k_getNs = (\<lambda>n. pop (\<lambda>e. case e of EvGetNs _ a \<Rightarrow> checked (EvGetNs n) a | _ \<Rightarrow> Inl no_answer)),
      k_getObj = (\<lambda>gvk m n. pop (\<lambda>e. case e of EvGetObj _ _ _ a \<Rightarrow> a | _ \<Rightarrow> Inl no_answer)),
      k_listNs = (\<lambda>k v. pop (\<lambda>e. case e of EvListNs _ _ a \<Rightarrow> checked (EvListNs k v) a | _ \<Rightarrow> Inl no_answer)),
      k_listObj = (\<lambda>gvk n k v.
        pop (\<lambda>e. case e of EvListObj _ _ _ _ a \<Rightarrow> checked (EvListObj gvk n k v) a | _ \<Rightarrow> Inl no_answer)),
      k_create = (\<lambda>u. pop (\<lambda>e. case e of EvCreate _ a \<Rightarrow> a | _ \<Rightarrow> Inl no_answer)),
      k_updateObj = (\<lambda>u. pop (\<lambda>e. case e of EvUpdateObj _ a \<Rightarrow> a | _ \<Rightarrow> Inl no_answer)),
      k_delete = (\<lambda>u. pop (\<lambda>e. case e of EvDelete _ a \<Rightarrow> a | _ \<Rightarrow> Inl no_answer)),
      k_updateNs = (\<lambda>ns. pop (\<lambda>e. case e of EvUpdateNs _ a \<Rightarrow> a | _ \<Rightarrow> Inl no_answer)),
      k_updateClass = (\<lambda>nc. pop (\<lambda>e. case e of EvUpdateClass _ a \<Rightarrow> a | _ \<Rightarrow> Inl no_answer)),
      k_patchStatus = (\<lambda>b nc. pop (\<lambda>e. case e of EvPatchStatus _ _ a \<Rightarrow> a | _ \<Rightarrow> Inl no_answer)),
      k_discover = pop (\<lambda>e. case e of EvDiscover rls err \<Rightarrow> (rls, err) | _ \<Rightarrow> ([], Some no_answer)),
      k_watch = (\<lambda>n gvk. pop (\<lambda>e. case e of EvWatch _ _ a \<Rightarrow> a | _ \<Rightarrow> Inl no_answer)),
      k_manage = (\<lambda>n. pop (\<lambda>e. case e of EvManage _ a \<Rightarrow> a | _ \<Rightarrow> Inl no_answer)),
      k_now = (\<lambda>s. clock s 0),
      IsNotFound = IsNotFound K, ParseGroupVersion = ParseGroupVersion K, Unmarshal = Unmarshal K,
      ToUnstructured = ToUnstructured K, SetStatusCondition = SetStatusCondition K\<rparr>"

lemma checked_Inr: "checked ev a = Inr x \<longleftrightarrow> a = Inr x \<and> lawful (ev (Inr x))"
  by (auto simp: checked_def)

lemma script_library [simp]:
  "IsNotFound (script_kube K) = IsNotFound K" "ParseGroupVersion (script_kube K) = ParseGroupVersion K"
  "Unmarshal (script_kube K) = Unmarshal K" "ToUnstructured (script_kube K) = ToUnstructured K"
  "SetStatusCondition (script_kube K) = SetStatusCondition K"
  by (simp_all add: script_kube_def)

interpretation script: kube_client "script_kube K" for K :: "'w kube"
  by unfold_locales
    (auto simp: script_kube_def pop_def checked_Inr list_all_iff split: event.splits)

section \<open>The judgement\<close>

definition ncalls :: "event list \<Rightarrow> nat" where
  "ncalls t = length (filter is_call t)"

lemma ncalls_simps [simp]:
  "ncalls [] = 0" "ncalls (e # t) = (if is_call e then Suc (ncalls t) else ncalls t)"
  "ncalls (t @ u) = ncalls t + ncalls u"
  by (simp_all add: ncalls_def)

definition agree :: "nat \<Rightarrow> script \<Rightarrow> script \<Rightarrow> bool" where
  "agree n s s1 \<longleftrightarrow> clock s1 = clock s \<and> (\<forall>i<n. answers s1 i = answers s i)"

definition takes :: "script \<Rightarrow> event list \<Rightarrow> event \<Rightarrow> event \<Rightarrow> bool" where
  "takes s h e e' \<longleftrightarrow> ask e' = ask e \<and>
     (ask (answers s (ncalls h)) = ask e \<longrightarrow> lawful (answers s (ncalls h)) \<longrightarrow> e' = answers s (ncalls h))"

lemma takes_noncall: "\<not> is_call e \<Longrightarrow> takes s h e e"
  unfolding takes_def using ask_noncall [of e] by metis

lemma takes_advance: "takes (advance (ncalls h) s) us e e' \<longleftrightarrow> takes s (h @ us) e e'"
  by (simp add: takes_def)

text \<open>
  \<open>causal m\<close>: a run uses up one answer per call, depends on no other, and makes no event before the answers
  it depends on; the next answer is taken as it is when it is one a client may give to the call.
\<close>

definition causal :: "(script, 'a) prog \<Rightarrow> bool" where
  "causal m \<longleftrightarrow> (\<forall>s r t s'. m s = (r, t, s') \<longrightarrow>
     s' = advance (ncalls t) s \<and>
     (\<forall>s1. agree (ncalls t) s s1 \<longrightarrow> m s1 = (r, t, advance (ncalls t) s1)) \<and>
     (\<forall>h e rest s1. t = h @ e # rest \<longrightarrow> agree (ncalls h) s s1 \<longrightarrow>
       (\<exists>e' rest'. trace_of m s1 = h @ e' # rest' \<and> takes s1 h e e')))"

text \<open>
  \<open>performs K t w w'\<close>: the calls of \<open>t\<close>, made one after the other from \<open>w\<close>, get the answers recorded in
  \<open>t\<close> and lead to \<open>w'\<close>.  \<open>ticks K t w\<close>: the clock before each of them, and at the end.
\<close>

primrec performs :: "'w kube \<Rightarrow> event list \<Rightarrow> 'w \<Rightarrow> 'w \<Rightarrow> bool" where
  "performs K [] w w' \<longleftrightarrow> w' = w"
| "performs K (e # t) w w' \<longleftrightarrow> fst (serve K e w) = e \<and> performs K t (snd (serve K e w)) w'"

primrec ticks :: "'w kube \<Rightarrow> event list \<Rightarrow> 'w \<Rightarrow> Time list" where
  "ticks K [] w = [k_now K w]"
| "ticks K (e # t) w = (if is_call e then k_now K w # ticks K t (snd (serve K e w)) else ticks K t (snd (serve K e w)))"

definition begins :: "script \<Rightarrow> event list \<Rightarrow> Time list \<Rightarrow> bool" where
  "begins s cs ts \<longleftrightarrow> (\<forall>i<length cs. answers s i = cs ! i) \<and> (\<forall>i<length ts. clock s i = ts ! i)"

definition follows :: "'w kube \<Rightarrow> ('w, 'a) prog \<Rightarrow> (script, 'a) prog \<Rightarrow> bool" where
  "follows K m m' \<longleftrightarrow> (\<forall>w r t w'. m w = (r, t, w') \<longrightarrow> performs K t w w' \<and>
     (\<forall>s. begins s (filter is_call t) (ticks K t w) \<longrightarrow> m' s = (r, t, advance (ncalls t) s)))"

definition interactive :: "'w kube \<Rightarrow> ('w, 'a) prog \<Rightarrow> (script, 'a) prog \<Rightarrow> bool" where
  "interactive K m m' \<longleftrightarrow> causal m' \<and> follows K m m'"

lemma performs_append: "performs K (t @ u) w w' \<longleftrightarrow> (\<exists>w1. performs K t w w1 \<and> performs K u w1 w')"
  by (induction t arbitrary: w) auto

lemma ticks_hd: "hd (ticks K t w) = k_now K w \<and> ticks K t w \<noteq> []"
proof (induction t arbitrary: w)
  case (Cons e t)
  then show ?case by (cases e) (auto split: prod.splits)
qed simp


section \<open>Causality\<close>

lemma causalI:
  assumes "\<And>s r t s'. m s = (r, t, s') \<Longrightarrow> s' = advance (ncalls t) s"
    and "\<And>s r t s' s1. m s = (r, t, s') \<Longrightarrow> agree (ncalls t) s s1 \<Longrightarrow> m s1 = (r, t, advance (ncalls t) s1)"
    and "\<And>s r h e rest s' s1. m s = (r, h @ e # rest, s') \<Longrightarrow> agree (ncalls h) s s1 \<Longrightarrow>
      \<exists>e' rest'. trace_of m s1 = h @ e' # rest' \<and> takes s1 h e e'"
  shows "causal m"
  unfolding causal_def using assms by blast

lemma causalD:
  assumes "causal m" and "m s = (r, t, s')"
  shows "s' = advance (ncalls t) s"
    and "agree (ncalls t) s s1 \<Longrightarrow> m s1 = (r, t, advance (ncalls t) s1)"
    and "t = h @ e # rest \<Longrightarrow> agree (ncalls h) s s1 \<Longrightarrow>
      \<exists>e' rest'. trace_of m s1 = h @ e' # rest' \<and> takes s1 h e e'"
  using assms unfolding causal_def by blast+

lemma agree_advance: "agree (m + n) s s1 \<Longrightarrow> agree m s s1 \<and> agree n (advance m s) (advance m s1)"
  by (auto simp: agree_def advance_def)

lemma causal_silent:
  assumes "\<And>s. \<exists>r. m s = (r, [], s) \<and> (\<forall>s1. clock s1 = clock s \<longrightarrow> m s1 = (r, [], s1))"
  shows "causal m"
proof (rule causalI, goal_cases)
  case (1 s r t s')
  then show ?case using assms [of s] by auto
next
  case (2 s r t s' s1)
  then show ?case using assms [of s] by (auto simp: agree_def)
next
  case (3 s r h e rest s' s1)
  then show ?case using assms [of s] by auto
qed

lemma causal_return: "causal (returnG x)" and causal_fail: "causal (failG e)" and causal_panic: "causal (panicG p)"
  by (rule causal_silent; simp add: go_defs)+

lemma causal_now: "causal (nowG (script_kube K))"
  by (rule causal_silent) (simp add: nowG_def script_kube_def)

lemma causal_emit: "\<not> is_call e \<Longrightarrow> causal (emitG e)"
  by (rule causalI) (auto simp: emitG_def Cons_eq_append_conv takes_noncall)

lemma causal_bind:
  assumes "causal m" and f: "\<And>x. causal (f x)"
  shows "causal (bindG m f)"
proof (rule causalI, goal_cases)
  case (1 s r t s')
  from 1 show ?case
    by (cases rule: bind_runE) (auto dest!: causalD(1) [OF assms(1)] causalD(1) [OF f])
next
  case (2 s r t s' s1)
  from 2(1) show ?case
  proof (cases rule: bind_runE)
    case (next_step x t1 w1 t2)
    from next_step(3) 2(2) have "agree (ncalls t1) s s1" "agree (ncalls t2) w1 (advance (ncalls t1) s1)"
      by (auto dest: agree_advance simp: causalD(1) [OF assms(1) next_step(1)])
    with next_step show ?thesis
      by (simp add: bindG_def causalD(2) [OF assms(1)] causalD(2) [OF f])
  qed (use 2(2) in \<open>simp_all add: bindG_def causalD(2) [OF assms(1)]\<close>)
next
  case (3 s r h e rest s' s1)
  from 3(1) show ?case
  proof (cases rule: bind_runE)
    case (next_step x t1 w1 t2)
    from next_step(3) consider
        (first) us where "t1 = h @ e # us" | (second) us where "h = t1 @ us" "t2 = us @ e # rest"
      by (auto simp: append_eq_append_conv2 Cons_eq_append_conv append_eq_Cons_conv)
    then show ?thesis
    proof cases
      case first
      from causalD(3) [OF assms(1) next_step(1) first 3(2)] obtain e' rest'
        where "trace_of m s1 = h @ e' # rest'" "takes s1 h e e'" by blast
      then show ?thesis by (cases "m s1") (auto simp: bindG_def split: prod.split res.split)
    next
      case second
      from second(1) 3(2) have agree: "agree (ncalls t1) s s1" "agree (ncalls us) w1 (advance (ncalls t1) s1)"
        by (auto dest: agree_advance simp: causalD(1) [OF assms(1) next_step(1)])
      from causalD(3) [OF f next_step(2) second(2) agree(2)] obtain e' rest'
        where "trace_of (f x) (advance (ncalls t1) s1) = us @ e' # rest'" "takes s1 h e e'"
        unfolding takes_advance second(1) by blast
      then show ?thesis
        using second(1) causalD(2) [OF assms(1) next_step(1) agree(1)] by (auto simp: bindG_def split: prod.split)
    qed
  next
    case (error err)
    from causalD(3) [OF assms(1) error(1) refl 3(2)] show ?thesis
      by (cases "m s1") (auto simp: bindG_def split: prod.split res.split)
  next
    case (panic p)
    from causalD(3) [OF assms(1) panic(1) refl 3(2)] show ?thesis
      by (cases "m s1") (auto simp: bindG_def split: prod.split res.split)
  qed
qed

text \<open>A statement that only looks at the outcome of a run.\<close>

lemma causal_outcome:
  assumes "causal m" and "\<And>s. g s = (case m s of (r, t, s') \<Rightarrow> (F r, t, s'))"
  shows "causal (g :: (script, 'b) prog)"
proof (rule causalI, goal_cases)
  case (1 s r t s')
  then show ?case using assms by (auto split: prod.splits dest: causalD(1))
next
  case (2 s r t s' s1)
  then show ?case using assms(2) by (auto split: prod.splits simp: causalD(2) [OF assms(1)])
next
  case (3 s r h e rest s' s1)
  then obtain r' where "m s = (r', h @ e # rest, s')" using assms(2) by (auto split: prod.splits)
  from causalD(3) [OF assms(1) this refl 3(2)] show ?case using assms(2) by (auto split: prod.splits)
qed

lemma causal_try: "causal m \<Longrightarrow> causal (tryG m)"
  by (erule causal_outcome [where F = "\<lambda>r. case r of Ok x \<Rightarrow> Ok (Inr x) | Err e \<Rightarrow> Ok (Inl e) | Panic p \<Rightarrow> Panic p"])
    (auto simp: tryG_def split: prod.split res.split)

lemma causal_wrap: "causal m \<Longrightarrow> causal (wrapG msg m)"
  by (erule causal_outcome [where F = "\<lambda>r. case r of Ok x \<Rightarrow> Ok x | Err e \<Rightarrow> Err (EWrap msg e) | Panic p \<Rightarrow> Panic p"])
    (auto simp: wrapG_def split: prod.split res.split)

lemma causal_defer:
  assumes "causal m" and "\<not> is_call d"
  shows "causal (deferG d m)"
proof (rule causalI, goal_cases)
  case (1 s r t s')
  then show ?case using assms by (auto simp: defer_run dest: causalD(1))
next
  case (2 s r t s' s1)
  then show ?case using assms(2) by (auto simp: defer_run causalD(2) [OF assms(1)])
next
  case (3 s r h e rest s' s1)
  then obtain t where run: "m s = (r, t, s')" and eq: "h @ e # rest = t @ [d]" by (auto simp: defer_run)
  from eq consider (inside) us where "t = h @ e # us" | (last) "h = t" "e = d"
    by (auto simp: append_eq_append_conv2 Cons_eq_append_conv append_eq_Cons_conv)
  then show ?case
  proof cases
    case inside
    from causalD(3) [OF assms(1) run this 3(2)] show ?thesis by (auto simp: deferG_def split: prod.splits)
  next
    case last
    with causalD(2) [OF assms(1) run] 3(2) assms(2) show ?thesis by (simp add: deferG_def takes_noncall)
  qed
qed

text \<open>A call that logs the answer it takes from the script.\<close>

lemma causal_call:
  assumes run: "\<And>s. m s = (g (answers s 0), [ev (answers s 0)], advance 1 s)"
    and call: "\<And>e. is_call (ev e)" and form: "\<And>a b. ask (ev a) = ask (ev b)"
    and logs: "\<And>a b. ask a = ask (ev b) \<Longrightarrow> lawful a \<Longrightarrow> ev a = a"
  shows "causal m"
proof (rule causalI, goal_cases)
  case (1 s r t s')
  then show ?case using call by (auto simp: run)
next
  case (2 s r t s' s1)
  then show ?case using call by (auto simp: run agree_def)
next
  case (3 s r h e rest s' s1)
  then have "h = []" "e = ev (answers s 0)" using call by (auto simp: Cons_eq_append_conv run)
  moreover have "takes s1 [] (ev (answers s 0)) (ev (answers s1 0))"
    unfolding takes_def ncalls_simps using form logs by blast
  ultimately show ?case by (auto simp: run)
qed

section \<open>Agreement with a run against \<open>K\<close>\<close>

lemma begins_simps:
  "begins s (c # cs) (x # xs) \<longleftrightarrow> answers s 0 = c \<and> clock s 0 = x \<and> begins (advance 1 s) cs xs"
  by (auto simp: begins_def nth_Cons' less_Suc_eq_0_disj split: if_splits)

lemma begins_append:
  assumes "performs K t w w1" and "begins s (filter is_call (t @ u)) (ticks K (t @ u) w)"
  shows "begins s (filter is_call t) (ticks K t w) \<and> begins (advance (ncalls t) s) (filter is_call u) (ticks K u w1)"
  using assms
proof (induction t arbitrary: w s)
  case Nil
  then have "begins s (filter is_call u) (ticks K u w)" by simp
  with ticks_hd [of K u w] have "clock s 0 = k_now K w"
    unfolding begins_def by (metis gr0I hd_conv_nth length_0_conv)
  with Nil show ?case by (simp add: begins_def)
next
  case (Cons e t)
  then show ?case
    using Cons.IH [of "snd (serve K e w)" "advance (Suc 0) s"] by (auto simp: begins_simps split: if_splits)
qed

lemma followsI:
  assumes "\<And>w r t w'. m w = (r, t, w') \<Longrightarrow> performs K t w w'"
    and "\<And>w r t w' s. m w = (r, t, w') \<Longrightarrow> begins s (filter is_call t) (ticks K t w) \<Longrightarrow> m' s = (r, t, advance (ncalls t) s)"
  shows "follows K m m'"
  unfolding follows_def using assms by blast

lemma followsD:
  assumes "follows K m m'" and "m w = (r, t, w')"
  shows "performs K t w w'"
    and "begins s (filter is_call t) (ticks K t w) \<Longrightarrow> m' s = (r, t, advance (ncalls t) s)"
  using assms unfolding follows_def by blast+

lemma follows_silent:
  assumes "\<And>w. \<exists>r. m w = (r, [], w) \<and> (\<forall>s. clock s 0 = k_now K w \<longrightarrow> m' s = (r, [], s))"
  shows "follows K m m'"
proof (rule followsI, goal_cases)
  case (1 w r t w')
  then show ?case using assms [of w] by auto
next
  case (2 w r t w' s)
  then show ?case using assms [of w] by (auto simp: begins_def)
qed

lemma follows_return: "follows K (returnG x) (returnG x)" and follows_fail: "follows K (failG e) (failG e)"
  and follows_panic: "follows K (panicG p) (panicG p)" and follows_now: "follows K (nowG K) (nowG (script_kube K))"
  by (rule follows_silent; simp add: go_defs nowG_def script_kube_def)+

lemma serve_noncall: "\<not> is_call e \<Longrightarrow> serve K e w = (e, w)"
  by (cases e) simp_all

lemma follows_emit: "\<not> is_call e \<Longrightarrow> follows K (emitG e) (emitG e)"
  by (rule followsI) (auto simp: emitG_def serve_noncall)

lemma follows_bind:
  assumes "follows K m m'" and f: "\<And>x. follows K (f x) (f' x)"
  shows "follows K (bindG m f) (bindG m' f')"
proof (rule followsI, goal_cases)
  case (1 w r t w')
  then show ?case
    by (cases rule: bind_runE) (auto simp: performs_append dest!: followsD(1) [OF assms(1)] followsD(1) [OF f])
next
  case (2 w r t w' s)
  from 2(1) show ?case
  proof (cases rule: bind_runE)
    case (next_step x t1 w1 t2)
    from begins_append [OF followsD(1) [OF assms(1) next_step(1)] 2(2) [unfolded next_step(3)]]
    show ?thesis
      using followsD(2) [OF assms(1) next_step(1)] followsD(2) [OF f next_step(2)] next_step(3)
      by (simp add: bindG_def)
  qed (use 2(2) in \<open>simp_all add: bindG_def followsD(2) [OF assms(1)]\<close>)
qed

lemma follows_try: "follows K m m' \<Longrightarrow> follows K (tryG m) (tryG m')"
  by (rule followsI) (auto simp: try_run dest: followsD)

lemma follows_wrap: "follows K m m' \<Longrightarrow> follows K (wrapG msg m) (wrapG msg m')"
  by (rule followsI) (auto simp: wrap_run dest: followsD)

lemma performs_noncall: "\<not> is_call d \<Longrightarrow> performs K (t @ [d]) w w' \<longleftrightarrow> performs K t w w'"
  by (simp add: performs_append serve_noncall) 

lemma ticks_noncall: "\<not> is_call d \<Longrightarrow> performs K t w w' \<Longrightarrow> ticks K (t @ [d]) w = ticks K t w"
  by (induction t arbitrary: w) (auto simp: serve_noncall)

lemma follows_defer:
  assumes "follows K m m'" and d: "\<not> is_call d"
  shows "follows K (deferG d m) (deferG d m')"
proof (rule followsI, goal_cases)
  case (1 w r t w')
  then show ?case using d by (auto simp: defer_run performs_noncall dest: followsD(1) [OF assms(1)])
next
  case (2 w r t w' s)
  then obtain t' where t: "t = t' @ [d]" and run: "m w = (r, t', w')" by (auto simp: defer_run)
  from 2(2) have "begins s (filter is_call t') (ticks K t' w)"
    using d ticks_noncall [OF d followsD(1) [OF assms(1) run]] by (simp add: t)
  from followsD(2) [OF assms(1) run this] show ?case using d by (simp add: t deferG_def)
qed

lemma follows_call:
  assumes serve: "\<And>a w. serve K (ev a) w = (case op w of (b, w') \<Rightarrow> (ev b, w'))"
    and call: "\<And>a. is_call (ev a)" and logs: "\<And>a w w'. op w = (a, w') \<Longrightarrow> f (ev a) = a"
  shows "follows K (callG ev op) (callG ev (pop f))"
proof (rule followsI, goal_cases)
  case (1 w r t w')
  then show ?case by (auto simp: call_run serve)
next
  case (2 w r t w' s)
  then show ?case using call logs by (auto simp: call_run pop_def begins_simps)
qed

section \<open>The rules\<close>

lemma interactive_return [interactive_intro]: "interactive K (returnG x) (returnG x)"
  and interactive_fail [interactive_intro]: "interactive K (failG e) (failG e)"
  and interactive_panic [interactive_intro]: "interactive K (panicG p) (panicG p)"
  and interactive_now [interactive_intro]: "interactive K (nowG K) (nowG (script_kube K))"
  by (simp_all add: interactive_def causal_return causal_fail causal_panic causal_now
      follows_return follows_fail follows_panic follows_now)

lemma interactive_emit [interactive_intro]: "\<not> is_call e \<Longrightarrow> interactive K (emitG e) (emitG e)"
  by (simp add: interactive_def causal_emit follows_emit)

lemma interactive_bind [interactive_intro]:
  "interactive K m m' \<Longrightarrow> (\<And>x. interactive K (f x) (f' x)) \<Longrightarrow> interactive K (bindG m f) (bindG m' f')"
  by (simp add: interactive_def causal_bind follows_bind)

lemma interactive_try [interactive_intro]: "interactive K m m' \<Longrightarrow> interactive K (tryG m) (tryG m')"
  by (simp add: interactive_def causal_try follows_try)

lemma interactive_wrap [interactive_intro]: "interactive K m m' \<Longrightarrow> interactive K (wrapG msg m) (wrapG msg m')"
  by (simp add: interactive_def causal_wrap follows_wrap)

lemma interactive_defer [interactive_intro]:
  "\<not> is_call d \<Longrightarrow> interactive K m m' \<Longrightarrow> interactive K (deferG d m) (deferG d m')"
  by (simp add: interactive_def causal_defer follows_defer)

lemma interactive_lift [interactive_intro]: "interactive K (liftE a) (liftE a)"
  by (cases a) (simp_all add: liftE_def interactive_intro)

lemma interactive_mapWrite [interactive_intro]: "interactive K (mapWriteG m k v) (mapWriteG m k v)"
  by (cases m) (simp_all add: mapWriteG_def interactive_intro)

lemma interactive_index [interactive_intro]: "interactive K (indexG xs i) (indexG xs i)"
  by (simp add: indexG_def interactive_intro)

lemma interactive_for [interactive_intro]:
  "(\<And>x. interactive K (f x) (f' x)) \<Longrightarrow> interactive K (forG f xs) (forG f' xs)"
  by (induction xs) (simp_all add: interactive_intro)

lemma interactive_concatMap [interactive_intro]:
  "(\<And>x. interactive K (f x) (f' x)) \<Longrightarrow> interactive K (concatMapG f xs) (concatMapG f' xs)"
  by (induction xs) (simp_all add: interactive_intro)

lemma interactive_if [interactive_intro]:
  "interactive K m m' \<Longrightarrow> interactive K n n' \<Longrightarrow> interactive K (if b then m else n) (if b then m' else n')"
  by simp

lemma interactive_case_sum [interactive_intro]:
  "(\<And>e. interactive K (f e) (f' e)) \<Longrightarrow> (\<And>x. interactive K (g x) (g' x)) \<Longrightarrow>
    interactive K (case a of Inl e \<Rightarrow> f e | Inr x \<Rightarrow> g x) (case a of Inl e \<Rightarrow> f' e | Inr x \<Rightarrow> g' x)"
  by (cases a) simp_all

lemma interactive_case_option [interactive_intro]:
  "interactive K m m' \<Longrightarrow> (\<And>x. interactive K (g x) (g' x)) \<Longrightarrow>
    interactive K (case a of None \<Rightarrow> m | Some x \<Rightarrow> g x) (case a of None \<Rightarrow> m' | Some x \<Rightarrow> g' x)"
  by (cases a) simp_all

lemma interactive_case_prod [interactive_intro]:
  "(\<And>x y. interactive K (g x y) (g' x y)) \<Longrightarrow>
    interactive K (case a of (x, y) \<Rightarrow> g x y) (case a of (x, y) \<Rightarrow> g' x y)"
  by (cases a) simp_all

text \<open>A call: what the script takes from an answer (\<open>f\<close>) is what the event records.\<close>

lemma interactive_call:
  assumes serve: "\<And>a w. serve K (ev a) w = (case op w of (b, w') \<Rightarrow> (ev b, w'))"
    and call: "\<And>a. is_call (ev a)" and lawful: "\<And>a w w'. op w = (a, w') \<Longrightarrow> lawful (ev a)"
    and logs: "\<And>a. lawful (ev a) \<Longrightarrow> f (ev a) = a" and form: "\<And>a e'. ask e' = ask (ev a) \<Longrightarrow> \<exists>b. e' = ev b"
    and asks: "\<And>a b. ask (ev a) = ask (ev b)"
  shows "interactive K (callG ev op) (callG ev (pop f))"
  unfolding interactive_def
proof
  show "causal (callG ev (pop f))"
  proof (rule causal_call)
    fix e e'
    assume "ask e' = ask (ev (f e))" and "lawful e'"
    then show "ev (f e') = e'" using form logs by metis
  qed (auto simp: callG_def pop_def call intro: asks)
  show "follows K (callG ev op) (callG ev (pop f))"
    using serve call logs lawful by (intro follows_call) blast+
qed

lemma ask_form:
  "ask e' = ask (EvGetClass nn a1) \<Longrightarrow> \<exists>b. e' = EvGetClass nn b"
  "ask e' = ask (EvGetNs n a2) \<Longrightarrow> \<exists>b. e' = EvGetNs n b"
  "ask e' = ask (EvGetObj gvk m n a3) \<Longrightarrow> \<exists>b. e' = EvGetObj gvk m n b"
  "ask e' = ask (EvListNs k v a4) \<Longrightarrow> \<exists>b. e' = EvListNs k v b"
  "ask e' = ask (EvListObj gvk n k v a5) \<Longrightarrow> \<exists>b. e' = EvListObj gvk n k v b"
  "ask e' = ask (EvCreate u a6) \<Longrightarrow> \<exists>b. e' = EvCreate u b"
  "ask e' = ask (EvUpdateObj u a6) \<Longrightarrow> \<exists>b. e' = EvUpdateObj u b"
  "ask e' = ask (EvDelete u a6) \<Longrightarrow> \<exists>b. e' = EvDelete u b"
  "ask e' = ask (EvUpdateNs ns a6) \<Longrightarrow> \<exists>b. e' = EvUpdateNs ns b"
  "ask e' = ask (EvUpdateClass nc a6) \<Longrightarrow> \<exists>b. e' = EvUpdateClass nc b"
  "ask e' = ask (EvPatchStatus base nc a6) \<Longrightarrow> \<exists>b. e' = EvPatchStatus base nc b"
  by (cases e'; simp)+

lemma interactive_updates [interactive_intro]:
  "interactive K (createObj K u) (createObj (script_kube K) u)"
  "interactive K (updateObj K u) (updateObj (script_kube K) u)"
  "interactive K (deleteObj K u) (deleteObj (script_kube K) u)"
  "interactive K (updateNs K ns) (updateNs (script_kube K) ns)"
  "interactive K (updateClass K nc) (updateClass (script_kube K) nc)"
  "interactive K (patchStatus K base nc) (patchStatus (script_kube K) base nc)"
  "interactive K (getObj K gvk m n) (getObj (script_kube K) gvk m n)"
  unfolding createObj_def updateObj_def deleteObj_def updateNs_def updateClass_def patchStatus_def getObj_def script_kube_def kube.simps
  by (rule interactive_call; simp add: ask_form [simplified])+

lemma interactive_discover [interactive_intro]:
  "interactive K (ServerPreferredResources K) (ServerPreferredResources (script_kube K))"
  unfolding interactive_def
proof
  show "causal (ServerPreferredResources (script_kube K))"
  proof (rule causal_call)
    fix s
    show "ServerPreferredResources (script_kube K) s =
      ((\<lambda>e. case e of EvDiscover rls err \<Rightarrow> Ok (rls, err) | _ \<Rightarrow> Ok ([], Some no_answer)) (answers s 0),
       [(\<lambda>e. case e of EvDiscover rls err \<Rightarrow> EvDiscover rls err | _ \<Rightarrow> EvDiscover [] (Some no_answer)) (answers s 0)], advance 1 s)"
      by (cases "answers s 0") (simp_all add: ServerPreferredResources_def script_kube_def pop_def)
  next
    fix e
    show "is_call (case e of EvDiscover rls err \<Rightarrow> EvDiscover rls err | _ \<Rightarrow> EvDiscover [] (Some no_answer))"
      by (cases e) simp_all
  next
    fix e e'
    show "ask (case e of EvDiscover rls err \<Rightarrow> EvDiscover rls err | _ \<Rightarrow> EvDiscover [] (Some no_answer)) =
      ask (case e' of EvDiscover rls err \<Rightarrow> EvDiscover rls err | _ \<Rightarrow> EvDiscover [] (Some no_answer))"
      by (cases e; cases e') simp_all
  next
    fix e e'
    assume "ask e' = ask (case e of EvDiscover rls err \<Rightarrow> EvDiscover rls err | _ \<Rightarrow> EvDiscover [] (Some no_answer))"
    then show "(case e' of EvDiscover rls err \<Rightarrow> EvDiscover rls err | _ \<Rightarrow> EvDiscover [] (Some no_answer)) = e'"
      by (cases e; cases e') simp_all
  qed
  show "follows K (ServerPreferredResources K) (ServerPreferredResources (script_kube K))"
    by (rule followsI)
      (auto simp: ServerPreferredResources_def script_kube_def pop_def begins_simps split: prod.splits)
qed

context kube_client
begin

lemma lawful_serve: "lawful (fst (serve K e w))"
proof (cases e)
  case (EvListNs k v a)
  then show ?thesis
    by (cases "fst (k_listNs K k v w)"; cases "k_listNs K k v w") (auto simp: list_all_iff dest: listNs_label)
next
  case (EvListObj gvk n k v a)
  then show ?thesis
    by (cases "fst (k_listObj K gvk n k v w)"; cases "k_listObj K gvk n k v w")
      (auto simp: list_all_iff dest: listObj_ns listObj_label)
next
  case (EvGetClass nn a)
  then show ?thesis
    by (cases "fst (k_getClass K nn w)"; cases "k_getClass K nn w") (auto dest: getClass_name)
next
  case (EvGetNs n a)
  then show ?thesis
    by (cases "fst (k_getNs K n w)"; cases "k_getNs K n w") (auto dest: getNs_name)
qed (simp_all split: prod.split)

lemma lawful_reads:
  "k_getClass K nn w = (a1, w') \<Longrightarrow> lawful (EvGetClass nn a1)"
  "k_getNs K n w = (a2, w') \<Longrightarrow> lawful (EvGetNs n a2)"
  "k_listNs K k v w = (a3, w') \<Longrightarrow> lawful (EvListNs k v a3)"
  "k_listObj K gvk n k v w = (a4, w') \<Longrightarrow> lawful (EvListObj gvk n k v a4)"
  using lawful_serve [of "EvGetClass nn a1" w] lawful_serve [of "EvGetNs n a2" w]
    lawful_serve [of "EvListNs k v a3" w] lawful_serve [of "EvListObj gvk n k v a4" w]
  by simp_all

lemma interactive_reads [interactive_intro]:
  "interactive K (getClass K nn) (getClass (script_kube K) nn)"
  "interactive K (getNs K n) (getNs (script_kube K) n)"
  "interactive K (listNs K k v) (listNs (script_kube K) k v)"
  "interactive K (listObj K gvk n k v) (listObj (script_kube K) gvk n k v)"
  unfolding getClass_def getNs_def listNs_def listObj_def script_kube_def kube.simps
  by (rule interactive_call; simp add: ask_form [simplified] checked_def lawful_reads)+

end

end
