(* ===== verification/Controller_Interaction.thy ===== *)
theory Controller_Interaction imports Class_Controller Interaction begin

text \<open>
  Every operation of the controller is a dialogue in the sense of \<open>Interaction\<close>: it can be stopped before each
  call.  The lemmas follow the theories of the components, from discovery to \<open>Reconcile\<close>.
\<close>

section \<open>What is computed without a call\<close>

lemma script_convert [simp]: "convertRawToUnstructured (script_kube K) = convertRawToUnstructured K"
  unfolding convertRawToUnstructured_def script_library by (rule refl)

lemma script_preferred [simp]: "preferredVersions (script_kube K) grp kind rls = preferredVersions K grp kind rls"
  by (induction rls) (simp_all split: sum.split)

lemma script_resourceMap [simp]: "resourceMap (script_kube K) rs m = resourceMap K rs m"
  by (induction rs arbitrary: m) (simp_all split: sum.split)

lemma script_ready [simp]: "updateReadyCondition (script_kube K) = updateReadyCondition K"
  by (simp add: fun_eq_iff updateReadyCondition_def)

lemma interactive_getServerPreferredResources [interactive_intro]:
  "interactive K (getServerPreferredResources K) (getServerPreferredResources (script_kube K))"
  unfolding getServerPreferredResources_def
  by (intro interactive_intro) (auto intro!: interactive_intro split: go_error.split)

lemma interactive_getPreferredVersion [interactive_intro]:
  "interactive K (getPreferredVersionForResource K grp kind) (getPreferredVersionForResource (script_kube K) grp kind)"
  unfolding getPreferredVersionForResource_def script_preferred
  by (intro interactive_intro) (auto intro!: interactive_intro split: go_error.split)

context kube_client
begin

section \<open>Listing\<close>

lemma interactive_listResourcesWithLabel [interactive_intro]:
  "interactive K (listResourcesWithLabel K n key val) (listResourcesWithLabel (script_kube K) n key val)"
  unfolding listResourcesWithLabel_def labelledInLists_def labelledInGV_def listResourcesOfType_def script_library
  by (intro interactive_intro)

lemma interactive_getCurrentResources [interactive_intro]:
  "interactive K (getCurrentNamespaceClassResources K ns nc) (getCurrentNamespaceClassResources (script_kube K) ns nc)"
  unfolding getCurrentNamespaceClassResources_def managedInLists_def findManagedResourcesForGV_def
    listManagedResourcesOfKind_def script_library
  by (intro interactive_intro)

section \<open>Objects\<close>

lemma interactive_applyResource [interactive_intro]:
  "interactive K (applyResourceToNamespace K ns nc res) (applyResourceToNamespace (script_kube K) ns nc res)"
  unfolding applyResourceToNamespace_def applyUnstructuredResource_def updateUnstructuredResource_def
    prepareResourceForNamespace_def Let_def script_library script_convert
  by (intro interactive_intro)

lemma interactive_cleanupResource [interactive_intro]:
  "interactive K (cleanupResource K ns keep res) (cleanupResource (script_kube K) ns keep res)"
  unfolding cleanupResource_def deleteResourceByKindAndName_def Let_def script_library
  by (intro interactive_intro)

lemma interactive_cleanupAll [interactive_intro]:
  "interactive K (cleanupAllNamespaceClassResources K ns c) (cleanupAllNamespaceClassResources (script_kube K) ns c)"
  unfolding cleanupAllNamespaceClassResources_def by (intro interactive_intro)

lemma interactive_cleanupPrevious [interactive_intro]:
  "interactive K (cleanupPreviousNamespaceClassResources K ns prev cur)
     (cleanupPreviousNamespaceClassResources (script_kube K) ns prev cur)"
  unfolding cleanupPreviousNamespaceClassResources_def getResourcesWithOwner_def Let_def script_library script_resourceMap
  by (intro interactive_intro)

section \<open>Annotations, status and finalizer\<close>

lemma interactive_lock [interactive_intro]:
  "interactive K m m' \<Longrightarrow> interactive K (withNamespaceLock n m) (withNamespaceLock n m')"
  unfolding withNamespaceLock_def by (intro interactive_intro) simp_all

lemma interactive_setClassAnnotations [interactive_intro]:
  "interactive K (setClassAnnotations K ns orig cur) (setClassAnnotations (script_kube K) ns orig cur)"
  unfolding setClassAnnotations_def Let_def by (intro interactive_intro)

lemma interactive_updateCurrentClassAnnotation [interactive_intro]:
  "interactive K (updateCurrentClassAnnotation K ns cur) (updateCurrentClassAnnotation (script_kube K) ns cur)"
  unfolding updateCurrentClassAnnotation_def Let_def by (intro interactive_intro)

lemma interactive_applyStatusUpdate [interactive_intro]:
  "interactive K (applyStatusUpdate K nc sts) (applyStatusUpdate (script_kube K) nc sts)"
  unfolding applyStatusUpdate_def Let_def script_ready by (intro interactive_intro)

lemma interactive_updateNamespaceClassStatus [interactive_intro]:
  "interactive K (updateNamespaceClassStatus K nc) (updateNamespaceClassStatus (script_kube K) nc)"
  unfolding updateNamespaceClassStatus_def getFreshNamespaceClass_def getNamespacesForClass_def
  by (intro interactive_intro)

lemma interactive_updateClassSwitchStatus [interactive_intro]:
  "interactive K (updateClassSwitchStatus K ns cur prev) (updateClassSwitchStatus (script_kube K) ns cur prev)"
  unfolding updateClassSwitchStatus_def getFreshNamespaceClass_def Let_def
  by (intro interactive_intro)

lemma interactive_cleanupNamespace [interactive_intro]:
  "interactive K (cleanupNamespace K nc ns) (cleanupNamespace (script_kube K) nc ns)"
  unfolding cleanupNamespace_def deleteResources_def by (intro interactive_intro)

lemma interactive_finalizer [interactive_intro]:
  "interactive K (reconcileNamespaceClassFinalizer K nc) (reconcileNamespaceClassFinalizer (script_kube K) nc)"
  unfolding reconcileNamespaceClassFinalizer_def ensureFinalizerPresent_def handleFinalizerCleanup_def Let_def
    cleanupNamespaces_def removeFinalizer_def slices_Delete_def
  by (intro interactive_intro)

section \<open>The reconciler\<close>

lemma interactive_applyResources [interactive_intro]:
  "interactive K (applyResources K nc latest rs) (applyResources (script_kube K) nc latest rs)"
proof (induction rs arbitrary: latest)
  case (Cons r rs)
  then show ?case unfolding applyResources.simps script_library by (intro interactive_intro)
qed (simp add: interactive_return)

lemma interactive_resources [interactive_intro]:
  "interactive K (reconcileNamespaceClassResources K ns nc) (reconcileNamespaceClassResources (script_kube K) ns nc)"
  unfolding reconcileNamespaceClassResources_def Let_def script_library by (intro interactive_intro)

lemma interactive_trigger [interactive_intro]: "interactive K (triggerReconcile c) (triggerReconcile c)"
  unfolding triggerReconcile_def by (intro interactive_intro) simp

lemma interactive_namespace [interactive_intro]:
  "interactive K (reconcileNamespaceWithClass K ns nc) (reconcileNamespaceWithClass (script_kube K) ns nc)"
  unfolding reconcileNamespaceWithClass_def Let_def by (intro interactive_intro)

lemma interactive_Reconcile [interactive_intro]:
  "interactive K (Reconcile K req) (Reconcile (script_kube K) req)"
  unfolding Reconcile_def reconcileClassRequest_def reconcileNamespaceRequest_def getNamespace_def getNamespaceClass_def
    Let_def script_library
  by (intro interactive_intro)

end

end
