(* ===== verification/Rollout.thy ===== *)
theory Rollout imports Drift_Repair Controller_Interaction begin

text \<open>
  What a request for a class achieves: the change of a class reaches every namespace that uses it.  The reconciliations of
  the namespaces do not disturb each other, as each touches the objects of its own namespace only; that is shown once, for
  every key of an object, from the calls in the trace of a run (\<open>performs\<close>).
\<close>

section \<open>Objects that a run leaves alone\<close>

text \<open>The contract of a store, with what the calls that write no object, and deletions, leave alone.\<close>

locale kube_objects = kube_store K at for K :: "'w kube" and at +
  assumes delete_frame: "k \<noteq> obj_key u \<Longrightarrow> at (snd (k_delete K u w)) k = at w k"
    and listNs_frame: "at (snd (k_listNs K key val w)) = at w"
    and updateNs_frame: "at (snd (k_updateNs K ns w)) = at w"
    and updateClass_frame: "at (snd (k_updateClass K nc w)) = at w"

text \<open>The object that an event writes or deletes, if it does.\<close>

fun touched :: "event \<Rightarrow> Unstructured option" where
  "touched (EvCreate u a) = Some u"
| "touched (EvUpdateObj u a) = Some u"
| "touched (EvDelete u a) = Some u"
| "touched _ = None"

fun sets_up :: "event \<Rightarrow> bool" where
  "sets_up (EvWatch n gvk a) = True"
| "sets_up (EvManage n a) = True"
| "sets_up _ = False"

definition leaves :: "objkey \<Rightarrow> event \<Rightarrow> bool" where
  "leaves k e \<longleftrightarrow> \<not> sets_up e \<and> (\<forall>u. touched e = Some u \<longrightarrow> obj_key u \<noteq> k)"

lemma read_leaves: "is_read e \<Longrightarrow> leaves k e"
  by (cases e) (auto simp: leaves_def)

context kube_objects
begin

lemma create_frame: "k \<noteq> obj_key u \<Longrightarrow> at (snd (k_create K u w)) k = at w k"
proof (cases "k_create K u w")
  case (Pair a w')
  then show "k \<noteq> obj_key u \<Longrightarrow> ?thesis" by (cases a) (auto dest: create_err dest!: create_ok)
qed

lemma updateObj_frame: "k \<noteq> obj_key u \<Longrightarrow> at (snd (k_updateObj K u w)) k = at w k"
proof (cases "k_updateObj K u w")
  case (Pair a w')
  then show "k \<noteq> obj_key u \<Longrightarrow> ?thesis" by (cases a) (auto dest: updateObj_err dest!: updateObj_ok)
qed

lemmas frames = getClass_frame getNs_frame getObj_frame listNs_frame listObj_frame discover_frame updateNs_frame
  updateClass_frame patchStatus_frame create_frame updateObj_frame delete_frame

lemma serve_leaves: "leaves k e \<Longrightarrow> at (snd (serve K e w)) k = at w k"
  by (cases e) (simp_all add: leaves_def split_beta frames)

lemma performs_leaves: "performs K t w w' \<Longrightarrow> list_all (leaves k) t \<Longrightarrow> at w' k = at w k"
  by (induction t arbitrary: w) (auto simp: serve_leaves)

lemma run_leaves: "interactive K m m' \<Longrightarrow> m w = (r, t, w') \<Longrightarrow> list_all (leaves k) t \<Longrightarrow> at w' k = at w k"
  unfolding interactive_def by (blast dest: followsD(1) intro: performs_leaves)

end

lemma performs_lawful: "kube_client K \<Longrightarrow> performs K t w w' \<Longrightarrow> list_all lawful t"
  by (induction t arbitrary: w) (auto, metis kube_client.lawful_serve)

lemma all_hist_split: "all_hist P h (s @ e # t) \<Longrightarrow> P (h @ s) e"
  by simp

section \<open>A reconciliation leaves the objects of other namespaces alone\<close>

lemma contract_touched:
  assumes "kube_client K" and "list_all lawful h" and "namespace_contract K n c h e" and "touched e = Some u"
  shows "u_Namespace u = n"
proof (cases e)
  case (EvDelete v a)
  with assms(3,4) obtain latest prev where latest: "EvGetNs n (Inr latest) \<in> set h"
    and del: "dropped K h (ns_Name latest) prev c u \<or> orphaned K h (ns_Name latest) prev u" by auto
  from latest assms(2) have "ns_Name latest = n" by (auto simp: list_all_iff)
  with del assms(2) show ?thesis
    by (auto simp: dropped_def orphaned_def listed_def list_all_iff)
qed (use assms in \<open>auto dest!: live_write_owned [OF assms(1)] simp: owned_by_def\<close>)

context kube_objects
begin

lemma reconcile_leaves:
  assumes run: "reconcileNamespaceWithClass K ns nc w = (r, t, w')" and other: "n \<noteq> ns_Name ns"
  shows "at w' (g, kd, n, nm) = at w (g, kd, n, nm)"
proof (rule run_leaves [OF interactive_namespace run])
  have "follows K (reconcileNamespaceWithClass K ns nc) (reconcileNamespaceWithClass (script_kube K) ns nc)"
    using interactive_namespace [of ns nc] by (simp add: interactive_def)
  from performs_lawful [OF kube_client_axioms followsD(1) [OF this run]] have lawful: "list_all lawful t" .
  have contract: "all_hist (namespace_contract K (ns_Name ns) (nc_Name nc)) [] t"
    using safe_run [OF safe_reconcileNamespaceWithClass run] by blast
  show "list_all (leaves (g, kd, n, nm)) t"
    unfolding list_all_iff
  proof
    fix e
    assume "e \<in> set t"
    then obtain h v where t: "t = h @ e # v" by (auto dest: split_list)
    with contract have e: "namespace_contract K (ns_Name ns) (nc_Name nc) h e" by simp
    from lawful t have "list_all lawful h" by simp
    from contract_touched [OF kube_client_axioms this e] other have "\<forall>u. touched e = Some u \<longrightarrow> obj_key u \<noteq> (g, kd, n, nm)"
      by (auto simp: obj_key_def)
    moreover have "\<not> sets_up e" using e by (cases e) auto
    ultimately show "leaves (g, kd, n, nm) e" by (simp add: leaves_def)
  qed
qed

lemma visits_leave:
  "visits K nc nsl w = (t, w') \<Longrightarrow> n \<notin> ns_Name ` set nsl \<Longrightarrow> at w' (g, kd, n, nm) = at w (g, kd, n, nm)"
proof (induction nsl arbitrary: w t)
  case (Cons ns nsl)
  obtain r t1 w1 where run: "reconcileNamespaceWithClass K ns nc w = (r, t1, w1)"
    by (cases "reconcileNamespaceWithClass K ns nc w")
  with Cons.prems have "at w1 (g, kd, n, nm) = at w (g, kd, n, nm)" by (intro reconcile_leaves [OF run]) auto
  with Cons run show ?case by (auto split: prod.splits)
qed simp

end

section \<open>All namespaces of a class\<close>

text \<open>The reconciliation of each namespace of a class request, with its outcome.\<close>

primrec visit_runs :: "'w kube \<Rightarrow> NamespaceClass \<Rightarrow> Namespace list \<Rightarrow> 'w \<Rightarrow> (Namespace \<times> unit res \<times> event list) list" where
  "visit_runs K nc [] w = []"
| "visit_runs K nc (ns # nsl) w =
     (case reconcileNamespaceWithClass K ns nc w of (r, t, w') \<Rightarrow> (ns, r, t) # visit_runs K nc nsl w')"

lemma visit_runs_trace: "fst (visits K nc nsl w) = concat (map (\<lambda>(ns, r, t). t) (visit_runs K nc nsl w))"
  by (induction nsl arbitrary: w) (auto split: prod.split, metis fst_conv)

lemma visit_runs_fst: "map fst (visit_runs K nc nsl w) = nsl"
  by (induction nsl arbitrary: w) (auto split: prod.split)

context kube_objects
begin

lemma applied_all_cong:
  "applied_all K at n c rs w \<Longrightarrow> (\<And>g kd nm. at w' (g, kd, n, nm) = at w (g, kd, n, nm)) \<Longrightarrow> applied_all K at n c rs w'"
  by (simp add: applied_all_def stored_def keyIn_def)

lemma visits_apply:
  assumes "visits K nc nsl w = (t, w')" and "distinct (map ns_Name nsl)"
    and "(ns, Ok (), v) \<in> set (visit_runs K nc nsl w)" and "list_all (\<lambda>e. \<not> ns_gone K e) v"
  shows "applied_all K at (ns_Name ns) (nc_Name nc) (Resources (Spec nc)) w'"
  using assms(1-3)
proof (induction nsl arbitrary: w t)
  case (Cons m nsl)
  obtain r t1 w1 where run: "reconcileNamespaceWithClass K m nc w = (r, t1, w1)"
    by (cases "reconcileNamespaceWithClass K m nc w")
  obtain t2 where rest: "visits K nc nsl w1 = (t2, w')" using Cons.prems(1) run by (auto split: prod.splits)
  from Cons.prems(3) run consider "m = ns" "r = Ok ()" "t1 = v" | "(ns, Ok (), v) \<in> set (visit_runs K nc nsl w1)" by auto
  then show ?case
  proof cases
    case 1
    with run have "applied_all K at (ns_Name ns) (nc_Name nc) (Resources (Spec nc)) w1"
      by (intro reconcile_ok [OF _ assms(4)]) simp
    then show ?thesis
      by (rule applied_all_cong) (rule visits_leave [OF rest], use Cons.prems(2) 1 in auto)
  next
    case 2
    with Cons.IH [OF rest] Cons.prems(2) show ?thesis by simp
  qed
qed simp

lemma report_leaves: "updateNamespaceClassStatus K nc w = (r, t, w') \<Longrightarrow> at w' k = at w k"
proof (rule run_leaves [OF interactive_updateNamespaceClassStatus])
  assume run: "updateNamespaceClassStatus K nc w = (r, t, w')"
  have "safe (\<lambda>_. leaves k) [] (updateNamespaceClassStatus K nc)"
    by (intro safe_updateNamespaceClassStatus) (simp_all add: leaves_def)
  from safe_list_all [OF this run] show "list_all (leaves k) t" .
qed

end

section \<open>A request for a class\<close>

lemma class_request_run:
  assumes run: "Reconcile K req w = (Ok r, t, w')" and cls: "k_getClass K req w = (Inr nc, w1)"
    and live: "IsZero (nc_DeletionTimestamp nc)" and list: "k_listNs K NamespaceClassLabel (nc_Name nc) w1 = (Inr nsl, w2)"
  obtains v w3 v' where "visits K nc nsl w2 = (v, w3)" and "updateNamespaceClassStatus K nc w3 = (Ok (), v', w')"
    and "t = EvGetClass req (Inr nc) # EvListNs NamespaceClassLabel (nc_Name nc) (Inr nsl) # v @ v'"
proof -
  obtain v w3 where v: "visits K nc nsl w2 = (v, w3)" by (cases "visits K nc nsl w2")
  let ?report = "bindG (updateNamespaceClassStatus K nc) (\<lambda>_. returnG \<lparr>Requeue = False\<rparr>)"
  obtain r' v' w4 where report: "?report w3 = (r', v', w4)" by (cases "?report w3")
  have "reconcileClassRequest K nc w1 = (r', EvListNs NamespaceClassLabel (nc_Name nc) (Inr nsl) # v @ v', w4)"
    using class_request_visits_all [of K nc w1] live by (simp add: list v report)
  with run have eqs: "r' = Ok r" "w4 = w'"
      "t = EvGetClass req (Inr nc) # EvListNs NamespaceClassLabel (nc_Name nc) (Inr nsl) # v @ v'"
    by (auto simp: Reconcile_def getClass_def cls go_defs)
  from report eqs(1,2) have "updateNamespaceClassStatus K nc w3 = (Ok (), v', w')"
    by (auto elim!: bind_runE simp: returnG_def)
  with that v eqs(3) show thesis by blast
qed

lemma class_requests_self:
  "class_requests K (UpdateEvent old new) w = (Ok reqs, t, w') \<Longrightarrow> byName (nc_Name new) \<in> set reqs"
  by (auto simp: class_requests_def returnG_def elim!: bind_runE)

context kube_objects
begin

lemma class_request_applies:
  assumes run: "Reconcile K req w = (Ok r, t, w')" and cls: "k_getClass K req w = (Inr nc, w1)"
    and live: "IsZero (nc_DeletionTimestamp nc)" and list: "k_listNs K NamespaceClassLabel (nc_Name nc) w1 = (Inr nsl, w2)"
    and names: "distinct (map ns_Name nsl)"
  shows "(ns, Ok (), v) \<in> set (visit_runs K nc nsl w2) \<Longrightarrow> list_all (\<lambda>e. \<not> ns_gone K e) v \<Longrightarrow>
      applied_all K at (ns_Name ns) (nc_Name nc) (Resources (Spec nc)) w'"
    and "n \<notin> ns_Name ` set nsl \<Longrightarrow> at w' (g, kd, n, nm) = at w (g, kd, n, nm)"
proof -
  obtain u w3 u' where visits: "visits K nc nsl w2 = (u, w3)" and report: "updateNamespaceClassStatus K nc w3 = (Ok (), u', w')"
    by (rule class_request_run [OF run cls live list])
  note same = report_leaves [OF report]
  show "applied_all K at (ns_Name ns) (nc_Name nc) (Resources (Spec nc)) w'"
    if "(ns, Ok (), v) \<in> set (visit_runs K nc nsl w2)" "list_all (\<lambda>e. \<not> ns_gone K e) v"
    by (rule applied_all_cong [OF visits_apply [OF visits names that] same])
  show "at w' (g, kd, n, nm) = at w (g, kd, n, nm)" if "n \<notin> ns_Name ` set nsl"
    using same visits_leave [OF visits that] getClass_frame [of req w] listNs_frame [of NamespaceClassLabel "nc_Name nc" w1]
    by (simp add: cls list)
qed

end

interpretation mem_objects: kube_objects mem_kube mem_at
proof
  fix k u and w :: cluster
  assume "k \<noteq> obj_key u"
  then show "mem_at (snd (k_delete mem_kube u w)) k = mem_at w k"
    by (simp add: mem_kube_def mem_delete_def mem_at_def has_key_def find_key_filter [unfolded has_key_def])
qed (simp_all add: mem_kube_def mem_listNs_def mem_updateNs_def mem_updateClass_def mem_at_def fun_eq_iff)

section \<open>Properties\<close>


text \<open>
  A second namespace of the class \<open>public-network\<close>, without annotations yet; a third one uses another class.  The class has
  got a second resource.
\<close>

definition second_namespace :: Namespace where
  "second_namespace = sample_namespace\<lparr>ns_Name := ''api''\<rparr>"

definition grown_class :: NamespaceClass where
  "grown_class = sample_class ''public-network'' [''/v1/ConfigMap/public-config'', ''/v1/Secret/public-key'']"

definition rollout_cluster :: cluster where
  "rollout_cluster = drifted_cluster\<lparr>cl_Namespaces := [repaired_namespace, second_namespace,
     sample_namespace\<lparr>ns_Name := ''db'', ns_Labels := None\<rparr>], cl_Classes := [grown_class], cl_Objects := [deleted_object]\<rparr>"

definition rollout_start :: "cluster manager" where
  "rollout_start = \<lparr>m_cluster = rollout_cluster, m_watched = {}, m_queue = {}, m_sleeping = {#}\<rparr>"

definition is_ok :: "'a res \<Rightarrow> bool" where
  "is_ok r = (case r of Ok x \<Rightarrow> True | _ \<Rightarrow> False)"

lemma is_ok_unit: "is_ok r \<longleftrightarrow> r = Ok ()"
  by (cases r) (simp_all add: is_ok_def)

lemma rollout_ok:
  "is_ok (result_of (Reconcile mem_kube (byName ''public-network'')) rollout_cluster)"
  "list_all (\<lambda>(ns, r, v). is_ok r \<and> list_all (\<lambda>e. \<not> ns_gone mem_kube e) v)
     (visit_runs mem_kube grown_class [repaired_namespace, second_namespace] rollout_cluster)"
  by code_simp+

lemma rollout_reads:
  "k_getClass mem_kube (byName ''public-network'') rollout_cluster = (Inr grown_class, rollout_cluster)"
  "k_listNs mem_kube NamespaceClassLabel ''public-network'' rollout_cluster = (Inr [repaired_namespace, second_namespace], rollout_cluster)"
  by (simp_all add: mem_kube_def mem_getClass_def mem_listNs_def find_or_def byName_def rollout_cluster_def grown_class_def
      repaired_namespace_def second_namespace_def sample_defs zero_NamespaceClass_def has_label_def)


end
