(* ===== verification/Reconcile_Safety.thy ===== *)
theory Reconcile_Safety imports Reconcile_Branches begin

text \<open>
  What holds of every event of every request: the contract of \<open>Reconcile\<close> and what follows from it
  for the objects it writes, the objects it deletes and the finalizer; the requests that
  write nothing; and two runs worth knowing, a class that reports itself ready after a failure and a
  class that is deleted.
\<close>

section \<open>The contract\<close>

text \<open>
  C1: the contract of \<open>Reconcile\<close>.  It never panics, and each call it makes is allowed by the history
  before it: an object is written only right after its namespace was read as not being deleted, and
  only with the owner label of the class at hand; an object is deleted only for a recorded switch of
  class or for a class under deletion; annotations are written back as read but for the class
  annotations; a class is updated only to take the finalizer off while it is being deleted; a status
  patch changes nothing but the status of the class just read.
\<close>

theorem Reconcile_contract: "safe (request_contract K req) [] (Reconcile K req)"
  by (rule Reconcile_safe)

text \<open>
  C12: what a request can end in.  Whatever the API server, discovery and the library functions answer, and whatever the
  request, \<open>Reconcile\<close> ends with a result that asks for no requeue or with an error; it never panics (no write to a
  nil map, no index out of range), and the requeue of \<open>ensureFinalizerPresent\<close> is out of reach.
\<close>

theorem Reconcile_outcome:
  "case result_of (Reconcile K req) w of Ok r \<Rightarrow> \<not> Requeue r | Err e \<Rightarrow> True | Panic p \<Rightarrow> False"
proof (cases "Reconcile K req w")
  case (fields r t w')
  have quiet: "\<not> Requeue x" if "reconcileClassRequest K nc v = (Ok x, s, v')" for nc x v s v'
    using that unfolding reconcileClassRequest_def
    by (auto elim!: bind_runE simp: returnG_def reconcileNamespaceClassFinalizer_def dest: handleFinalizerCleanup_requeue split: if_splits)
  have idle: "\<not> Requeue x" if "reconcileNamespaceRequest K n v = (Ok x, s, v')" for n x v s v'
    using that unfolding reconcileNamespaceRequest_def
    by (auto elim!: bind_runE simp: returnG_def failG_def split: sum.splits option.splits if_splits)
  have "\<not> Requeue x" if "r = Ok x" for x
    using fields that unfolding Reconcile_def
    by (auto elim!: bind_runE simp: failG_def dest: quiet idle split: sum.splits if_splits)
  moreover have "r \<noteq> Panic p" for p using Reconcile_safe [of K req] fields by (auto dest: safe_run)
  ultimately show ?thesis using fields by (cases r) auto
qed

section \<open>The objects written\<close>

text \<open>A namespace as some read of the history answered it.\<close>

definition seenNs :: "event list \<Rightarrow> Namespace \<Rightarrow> bool" where
  "seenNs h ns \<longleftrightarrow> (\<exists>m. EvGetNs m (Inr ns) \<in> set h) \<or>
     (\<exists>k v nss. EvListNs k v (Inr nss) \<in> set h \<and> ns \<in> set nss)"

lemma read_not_applied: "is_read e \<Longrightarrow> applied e = None"
  by (cases e) auto

lemma contract_applied:
  "namespace_contract K n c h e \<Longrightarrow> applied e = Some u \<Longrightarrow> live_write K n c h e"
  by (cases e) auto

lemma finalizer_not_applied: "finalizer_contract K nc h e \<Longrightarrow> applied e = None"
  by (cases e) auto

lemma report_not_applied: "report_contract K nc h e \<Longrightarrow> applied e = None"
  by (cases e) auto

lemma request_applied:
  assumes "kube_client K" and "request_contract K req h e" and "applied e = Some u"
  shows "\<exists>seen. seenNs h seen \<and> live_write K (ns_Name seen) (map_read (ns_Labels seen) NamespaceClassLabel) h e"
  using assms(2)
proof (cases rule: request_contractE)
  case (member nc nss ns)
  with assms(1) have "map_read (ns_Labels ns) NamespaceClassLabel = nc_Name nc" by (simp add: has_label_read)
  with member assms(3) show ?thesis
    unfolding seenNs_def by (intro exI [of _ ns]) (auto intro: contract_applied)
next
  case (own err ns nc)
  with assms(1,3) show ?thesis
    unfolding seenNs_def by (intro exI [of _ ns]) (auto intro: contract_applied)
qed (use assms(3) read_not_applied finalizer_not_applied report_not_applied in \<open>fastforce+\<close>)

lemma confined_run:
  assumes "kube_client K"
  shows "all_hist (\<lambda>h e. case applied e of
       None \<Rightarrow> True
     | Some u \<Rightarrow> \<exists>seen now. seenNs h seen \<and> owned_by (ns_Name seen) (map_read (ns_Labels seen) NamespaceClassLabel) u \<and>
         lastRead (ns_Name seen) h = Some now \<and> ns_DeletionTimestamp now = None)
     [] (trace_of (Reconcile K req) w)"
proof (rule all_hist_mono [OF safe_hist [OF Reconcile_safe]])
  fix h e
  assume contract: "request_contract K req h e"
  show "case applied e of None \<Rightarrow> True
     | Some u \<Rightarrow> \<exists>seen now. seenNs h seen \<and> owned_by (ns_Name seen) (map_read (ns_Labels seen) NamespaceClassLabel) u \<and>
         lastRead (ns_Name seen) h = Some now \<and> ns_DeletionTimestamp now = None"
  proof (cases "applied e")
    case (Some u)
    from request_applied [OF assms contract Some] obtain seen where seen: "seenNs h seen"
      and live: "live_write K (ns_Name seen) (map_read (ns_Labels seen) NamespaceClassLabel) h e" by blast
    from live_write_live [OF assms live] obtain now
      where "lastRead (ns_Name seen) h = Some now" "ns_DeletionTimestamp now = None" by blast
    with seen live_write_owned [OF assms live] Some show ?thesis
      by (simp, intro exI [of _ seen]) simp
  qed simp
qed

text \<open>
  Confinement.  With a client that answers as documented, every object a request creates or updates
  goes to a namespace that the latest read before it found not to be deleted, and carries the owner
  label of the class that a read of that namespace showed in its class label.  Nothing is ever
  written to a terminating namespace or for a class the namespace was not labelled with.
\<close>

theorem Reconcile_confined:
  assumes "kube_client K"
  shows "all_hist (\<lambda>h e. case applied e of
       None \<Rightarrow> True
     | Some u \<Rightarrow> \<exists>seen now. seenNs h seen \<and> owned_by (ns_Name seen) (map_read (ns_Labels seen) NamespaceClassLabel) u \<and>
         lastRead (ns_Name seen) h = Some now \<and> ns_DeletionTimestamp now = None)
     [] (trace_of (Reconcile K req) w)"
  using assms by (rule confined_run)

lemma Reconcile_confined_witness:
  "all_hist (\<lambda>h e. case applied e of
       None \<Rightarrow> True
     | Some u \<Rightarrow> \<exists>seen now. seenNs h seen \<and> owned_by (ns_Name seen) (map_read (ns_Labels seen) NamespaceClassLabel) u \<and>
         lastRead (ns_Name seen) h = Some now \<and> ns_DeletionTimestamp now = None)
     [] (trace_of (Reconcile mem_kube (byName ''web-portal'')) sample_cluster) \<and>
   \<not> list_all (\<lambda>e. applied e = None) (trace_of (Reconcile mem_kube (byName ''web-portal'')) sample_cluster)"
  by (rule conjI [OF Reconcile_confined [OF mem.kube_client_axioms]]) code_simp

section \<open>The objects deleted\<close>

text \<open>
  C2: no request deletes an object without a reason: either the namespace was read with annotations
  that record a change of class, and the object is one of the old class that the new class does not
  have (or that was found under the label of an old class that is gone); or the request is for a
  class that is being deleted, and the object was listed under its label in a namespace that uses it.
\<close>

theorem Reconcile_deletes_justified:
  "all_hist (\<lambda>h e. case e of
       EvDelete u a \<Rightarrow>
         (\<exists>n latest c prev. EvGetNs n (Inr latest) \<in> set h \<and> switching latest c prev \<and>
            (dropped K h (ns_Name latest) prev c u \<or> orphaned K h (ns_Name latest) prev u)) \<or>
         (\<exists>nc nss ns. EvGetClass req (Inr nc) \<in> set h \<and> \<not> IsZero (nc_DeletionTimestamp nc) \<and>
            EvListNs NamespaceClassLabel (nc_Name nc) (Inr nss) \<in> set h \<and> ns \<in> set nss \<and>
            ns_DeletionTimestamp ns = None \<and> listed h (ns_Name ns) (nc_Name nc) u)
     | _ \<Rightarrow> True) [] (trace_of (Reconcile K req) w)"
proof (rule all_hist_mono [OF safe_hist [OF Reconcile_safe]])
  fix h e
  assume contract: "request_contract K req h e"
  show "case e of
       EvDelete u a \<Rightarrow>
         (\<exists>n latest c prev. EvGetNs n (Inr latest) \<in> set h \<and> switching latest c prev \<and>
            (dropped K h (ns_Name latest) prev c u \<or> orphaned K h (ns_Name latest) prev u)) \<or>
         (\<exists>nc nss ns. EvGetClass req (Inr nc) \<in> set h \<and> \<not> IsZero (nc_DeletionTimestamp nc) \<and>
            EvListNs NamespaceClassLabel (nc_Name nc) (Inr nss) \<in> set h \<and> ns \<in> set nss \<and>
            ns_DeletionTimestamp ns = None \<and> listed h (ns_Name ns) (nc_Name nc) u)
     | _ \<Rightarrow> True"
  proof (cases e)
    case (EvDelete u a)
    from contract show ?thesis
      unfolding EvDelete by (cases rule: request_contractE) (simp, fastforce, fastforce, simp, fastforce)
  qed simp_all
qed

section \<open>The finalizer\<close>

text \<open>
  C36: no request adds the finalizer.  Every update of a class is the removal of (one copy of) the finalizer
  from a class that has it and that was read as being deleted; \<open>ensureFinalizerPresent\<close> is never
  reached from \<open>Reconcile\<close>.
\<close>

theorem Reconcile_never_adds_finalizer:
  "all_hist (\<lambda>h e. case e of
       EvUpdateClass new a \<Rightarrow> (\<exists>nc. EvGetClass req (Inr nc) \<in> set h \<and> \<not> IsZero (nc_DeletionTimestamp nc) \<and>
         NamespaceClassFinalizer \<in> set (nc_Finalizers nc) \<and>
         new = nc\<lparr>nc_Finalizers := remove1 NamespaceClassFinalizer (nc_Finalizers nc)\<rparr>)
     | _ \<Rightarrow> True) [] (trace_of (Reconcile K req) w)"
proof (rule all_hist_mono [OF safe_hist [OF Reconcile_safe]])
  fix h e
  assume contract: "request_contract K req h e"
  show "case e of
       EvUpdateClass new a \<Rightarrow> (\<exists>nc. EvGetClass req (Inr nc) \<in> set h \<and> \<not> IsZero (nc_DeletionTimestamp nc) \<and>
         NamespaceClassFinalizer \<in> set (nc_Finalizers nc) \<and>
         new = nc\<lparr>nc_Finalizers := remove1 NamespaceClassFinalizer (nc_Finalizers nc)\<rparr>)
     | _ \<Rightarrow> True"
  proof (cases e)
    case (EvUpdateClass new a)
    from contract show ?thesis
      unfolding EvUpdateClass by (cases rule: request_contractE) (simp, simp, fastforce, simp, simp)
  qed simp_all
qed

section \<open>Requests that change nothing\<close>

text \<open>
  C37: a request for a namespace that does not exist, is terminating, or carries no class label is a
  success after the two reads: no write, no annotation, no cleanup.  In particular a namespace whose
  class label was removed keeps the objects and annotations of its class.
\<close>

theorem Reconcile_idle_namespace:
  assumes "k_getClass K req w = (Inl err, w1)" and "IsNotFound K err"
    and "k_getNs K (nn_Name req) w1 = (a, w2)"
    and "case a of Inl e \<Rightarrow> IsNotFound K e
         | Inr ns \<Rightarrow> ns_DeletionTimestamp ns \<noteq> None \<or> map_read (ns_Labels ns) NamespaceClassLabel = ''''"
  shows "Reconcile K req w =
    (Ok \<lparr>Requeue = False\<rparr>, [EvGetClass req (Inl err), EvGetNs (nn_Name req) a], w2)"
proof -
  have "Reconcile K req w =
      (case reconcileNamespaceRequest K (nn_Name req) w1 of (r, t, w') \<Rightarrow> (r, EvGetClass req (Inl err) # t, w'))"
    using assms(1,2) by (simp add: Reconcile_def getClass_def go_defs)
  moreover have "reconcileNamespaceRequest K (nn_Name req) w1 = (Ok \<lparr>Requeue = False\<rparr>, [EvGetNs (nn_Name req) a], w2)"
    using assms(3,4)
    by (cases a) (auto simp: reconcileNamespaceRequest_def getNamespace_def getNs_def getNamespaceClass_def go_defs)
  ultimately show ?thesis by simp
qed

lemma Reconcile_idle_namespace_witness:
  "Reconcile mem_kube (byName ''web-portal'') (switching_cluster\<lparr>cl_Namespaces := [sample_switching\<lparr>ns_Labels := None\<rparr>]\<rparr>) =
    (Ok \<lparr>Requeue = False\<rparr>,
     [EvGetClass (byName ''web-portal'') (Inl not_found), EvGetNs ''web-portal'' (Inr (sample_switching\<lparr>ns_Labels := None\<rparr>))],
     switching_cluster\<lparr>cl_Namespaces := [sample_switching\<lparr>ns_Labels := None\<rparr>]\<rparr>)"
proof -
  let ?w = "switching_cluster\<lparr>cl_Namespaces := [sample_switching\<lparr>ns_Labels := None\<rparr>]\<rparr>"
  have "k_getClass mem_kube (byName ''web-portal'') ?w = (Inl not_found, ?w)"
    "IsNotFound mem_kube not_found"
    "k_getNs mem_kube (nn_Name (byName ''web-portal'')) ?w = (Inr (sample_switching\<lparr>ns_Labels := None\<rparr>), ?w)"
    by (simp_all add: mem_kube_def mem_getClass_def mem_getNs_def find_or_def byName_def sample_defs zero_NamespaceClass_def)
  from Reconcile_idle_namespace [OF this] show ?thesis by (simp add: byName_def map_read_def)
qed

section \<open>Two runs\<close>

text \<open>A class that does not convert, and a class under deletion.\<close>

definition broken_cluster :: cluster where
  "broken_cluster = sample_cluster\<lparr>cl_Classes := [sample_class ''public-network'' [''not json'']]\<rparr>"

definition deleting_class :: NamespaceClass where
  "deleting_class = sample_class ''public-network'' [''/v1/ConfigMap/public-config'']
     \<lparr>nc_DeletionTimestamp := Some 5, nc_Finalizers := [NamespaceClassFinalizer]\<rparr>"

definition deleting_cluster :: cluster where
  "deleting_cluster = sample_cluster\<lparr>cl_Classes := [deleting_class]\<rparr>"

text \<open>
  The status of a class says \<open>Ready=True, All resources applied successfully\<close> also when no resource
  could be applied: in a run for a class whose only resource does not convert, no object is written,
  the request succeeds, and the ready condition and an entry \<open>Applied\<close> for the namespace are there.
\<close>

theorem Ready_despite_failure:
  "(case Reconcile mem_kube (byName ''public-network'') broken_cluster of (r, t, w') \<Rightarrow>
      r = Ok \<lparr>Requeue = False\<rparr> \<and> list_all (\<lambda>e. applied e = None) t \<and> cl_Objects w' = [] \<and>
      map (\<lambda>c. Conditions (Status c)) (cl_Classes w') = [[readyCondition 7]] \<and>
      map (\<lambda>c. map (\<lambda>st. (st_Name st, st_ResourceStatus st)) (Namespaces (Status c))) (cl_Classes w') =
        [[(''web-portal'', ''Applied'')]])"
  by code_simp

text \<open>
  Deleting a class.  The request first applies the class's resources once more, then deletes them,
  takes the annotation and the finalizer off, and then fails: the class is gone by then, and the
  status update reads it again.
\<close>

theorem deleting_class_run:
  "(case Reconcile mem_kube (byName ''public-network'') deleting_cluster of (r, t, w') \<Rightarrow>
      r = Err (EWrap ''failed to get fresh copy of NamespaceClass'' not_found) \<and>
      map (\<lambda>e. (applied e \<noteq> None, is_delete e)) (filter (\<lambda>e. applied e \<noteq> None \<or> is_delete e) t) =
        [(True, False), (False, True)] \<and>
      cl_Objects w' = [] \<and> cl_Classes w' = [] \<and>
      map (\<lambda>ns. map_read (ns_Annotations ns) LastAppliedClassAnnotation) (cl_Namespaces w') = [''''] \<and>
      map (\<lambda>ns. map_read (ns_Annotations ns) CurrentClassAnnotation) (cl_Namespaces w') = [''public-network''])"
  by code_simp

end
