(* ===== verification/Lock_Discipline.thy ===== *)
theory Lock_Discipline imports Reconcile_Safety begin

text \<open>
  The mutexes of the namespaces, in one request: what happens between \<open>Lock\<close> and \<open>Unlock\<close>, that every lock is
  released, and which updates of a namespace are made without its lock.
\<close>

section \<open>Locks of a trace\<close>

text \<open>
  \<open>lockRun s t\<close>: the lock that is held (if any) after the events \<open>t\<close>, from \<open>s\<close>; \<open>None\<close> when the
  events take a lock while one is held, or release one that is not held.
\<close>

fun lockRun :: "string option \<Rightarrow> event list \<Rightarrow> string option option" where
  "lockRun s [] = Some s"
| "lockRun s (EvLock n # t) = (if s = None then lockRun (Some n) t else None)"
| "lockRun s (EvUnlock n # t) = (if s = Some n then lockRun None t else None)"
| "lockRun s (_ # t) = lockRun s t"

fun is_lock :: "event \<Rightarrow> bool" where
  "is_lock (EvLock n) = True"
| "is_lock (EvUnlock n) = True"
| "is_lock _ = False"

fun is_updateNs :: "event \<Rightarrow> bool" where
  "is_updateNs (EvUpdateNs ns a) = True"
| "is_updateNs _ = False"

text \<open>
  What a section under the lock of \<open>n\<close> may have done: nothing yet, read \<open>n\<close>, or read it and written back what it
  read with other annotations.
\<close>

fun in_order :: "string \<Rightarrow> event list \<Rightarrow> bool" where
  "in_order n [] = True"
| "in_order n [EvGetNs m a] = (m = n)"
| "in_order n [EvGetNs m (Inr x), EvUpdateNs y a] = (m = n \<and> y\<lparr>ns_Annotations := ns_Annotations x\<rparr> = x)"
| "in_order n _ = False"

text \<open>
  \<open>sectionRun P s t\<close>: the section (its name and its events so far) that the events \<open>t\<close> end in, from \<open>s\<close>; \<open>None\<close>
  when they break the discipline: a lock is taken or released out of turn, a section is not in order, or an event outside
  a section is not one of \<open>P\<close>.
\<close>

fun sectionRun ::
  "(event \<Rightarrow> bool) \<Rightarrow> (string \<times> event list) option \<Rightarrow> event list \<Rightarrow> (string \<times> event list) option option" where
  "sectionRun P s [] = Some s"
| "sectionRun P None (e # t) =
     (case e of EvLock n \<Rightarrow> sectionRun P (Some (n, [])) t | EvUnlock n \<Rightarrow> None
      | _ \<Rightarrow> if P e then sectionRun P None t else None)"
| "sectionRun P (Some (n, es)) (e # t) =
     (case e of EvLock m \<Rightarrow> None | EvUnlock m \<Rightarrow> if m = n then sectionRun P None t else None
      | _ \<Rightarrow> if in_order n (es @ [e]) then sectionRun P (Some (n, es @ [e])) t else None)"

lemma sectionRun_append:
  "sectionRun P s (t @ u) = (case sectionRun P s t of None \<Rightarrow> None | Some s' \<Rightarrow> sectionRun P s' u)"
proof (induction t arbitrary: s)
  case (Cons e t)
  then show ?case by (cases s; cases e) (auto split: prod.split)
qed simp

lemma sectionRun_free: "list_all (\<lambda>e. \<not> is_lock e \<and> P e) t \<Longrightarrow> sectionRun P None t = Some None"
proof (induction t)
  case (Cons e t)
  then show ?case by (cases e) simp_all
qed simp

lemma sectionRun_lockRun: "sectionRun P s t = Some s' \<Longrightarrow> lockRun (map_option fst s) t = Some (map_option fst s')"
proof (induction t arbitrary: s)
  case (Cons e t)
  then show ?case by (cases s; cases e) (fastforce split: if_splits prod.splits)+
qed simp

lemma sectionRun_mono: "sectionRun P s t = Some s' \<Longrightarrow> (\<And>e. P e \<Longrightarrow> Q e) \<Longrightarrow> sectionRun Q s t = Some s'"
proof (induction t arbitrary: s)
  case (Cons e t)
  then show ?case by (cases s; cases e) (auto split: if_splits prod.splits)
qed simp

section \<open>The judgement\<close>

definition sectioned :: "(event \<Rightarrow> bool) \<Rightarrow> ('w, 'a) prog \<Rightarrow> bool" where
  "sectioned P m \<longleftrightarrow> (\<forall>w. sectionRun P None (trace_of m w) = Some None)"

lemma sectioned_quiet: "safe (\<lambda>_ e. \<not> is_lock e \<and> P e) [] m \<Longrightarrow> sectioned P m"
  unfolding sectioned_def by (blast intro: sectionRun_free safe_trace_all)

lemma sectioned_run: "sectioned P m \<Longrightarrow> m w = (r, t, w') \<Longrightarrow> sectionRun P None t = Some None"
  unfolding sectioned_def by (metis prod.sel)

lemma sectioned_bind:
  assumes "sectioned P m" and "\<And>x t. yields m x t \<Longrightarrow> sectioned P (f x)"
  shows "sectioned P (bindG m f)"
  unfolding sectioned_def
proof
  fix w
  obtain r t w' where run: "bindG m f w = (r, t, w')" by (cases "bindG m f w")
  then have "sectionRun P None t = Some None"
  proof (cases rule: bind_runE)
    case (next_step x s1 w1 s2)
    from next_step(1) have "sectioned P (f x)" by (intro assms(2) yieldsI)
    from sectioned_run [OF assms(1) next_step(1)] sectioned_run [OF this next_step(2)]
    show ?thesis by (simp add: next_step(3) sectionRun_append)
  qed (use sectioned_run [OF assms(1)] in blast)+
  with run show "sectionRun P None (trace_of (bindG m f) w) = Some None" by simp
qed

lemma sectioned_try: "sectioned P m \<Longrightarrow> sectioned P (tryG m)"
  unfolding sectioned_def tryG_def by (auto split: prod.splits res.splits) (metis prod.sel)+

lemma sectioned_for: "(\<And>x. sectioned P (f x)) \<Longrightarrow> sectioned P (forG f xs)"
  by (induction xs) (auto intro: sectioned_bind sectioned_quiet safe_return)

lemma sectioned_if: "sectioned P m \<Longrightarrow> sectioned P n \<Longrightarrow> sectioned P (if b then m else n)"
  by simp

lemma sectioned_mono: "sectioned P m \<Longrightarrow> (\<And>e. P e \<Longrightarrow> Q e) \<Longrightarrow> sectioned Q m"
  unfolding sectioned_def by (blast intro: sectionRun_mono)

text \<open>The annotation writers are one section each.\<close>

context annotation_writer
begin

lemma annotate_sectioned: "sectioned P (annotate ns)"
  unfolding sectioned_def
proof
  fix w
  show "sectionRun P None (trace_of (annotate ns) w) = Some None"
    using annotate_trace [of ns w] by (elim disjE exE) simp_all
qed

end

section \<open>A request\<close>

text \<open>Events that need no lock; with \<open>d\<close> also the update of a namespace.\<close>

definition unguarded :: "bool \<Rightarrow> event \<Rightarrow> bool" where
  "unguarded d e \<longleftrightarrow> d \<or> \<not> is_updateNs e"

lemma read_unguarded: "is_read e \<Longrightarrow> \<not> is_lock e \<and> unguarded d e"
  by (cases e) (auto simp: unguarded_def)

lemma applied_unguarded: "applied e = Some u \<Longrightarrow> \<not> is_lock e \<and> unguarded d e"
  by (cases e) (auto simp: unguarded_def)

lemma unguarded_simps [simp]:
  "unguarded d (EvDelete u a)" "unguarded d (EvPatchStatus b nc a)" "unguarded d (EvSpawn c)"
  "unguarded d (EvUpdateClass nc a)" "unguarded True e"
  "unguarded d (EvGetNs n a2)" "unguarded d (EvGetClass nn c')" "unguarded d (EvListNs k v e')"
  by (simp_all add: unguarded_def)

lemma sectioned_namespace: "sectioned (unguarded d) (reconcileNamespaceWithClass K ns nc)"
proof -
  have quiet: "sectioned (unguarded d) (reconcileNamespaceClassResources K latest nc)"
    "sectioned (unguarded d) (cleanupPreviousNamespaceClassResources K latest prev c)"
    "sectioned (unguarded d) (tryG (updateClassSwitchStatus K latest c prev))"
    "sectioned (unguarded d) (emitG (EvSpawn prev))" "sectioned (unguarded d) (returnG ())" for latest prev c
    by (rule sectioned_quiet, intro safe_plain; auto simp: read_unguarded applied_unguarded)+
  have "sectioned (unguarded d) (reconcileLatest K nc latest)" for latest
    unfolding reconcileLatest_def Let_def
    by (intro sectioned_if sectioned_bind set_writer.annotate_sectioned switch_writer.annotate_sectioned quiet)
  moreover have "sectioned (unguarded d) (wrapG ''failed to get latest namespace state'' (getNs K (ns_Name ns)))"
    by (intro sectioned_quiet safe_wrap safe_getNs) simp
  ultimately show ?thesis unfolding reconcile_eq by (intro sectioned_bind)
qed

lemma sectioned_class: "sectioned (unguarded (\<not> IsZero (nc_DeletionTimestamp nc))) (reconcileClassRequest K nc)"
proof -
  obtain d where d: "d = (\<not> IsZero (nc_DeletionTimestamp nc))" by blast
  let ?P = "unguarded d"
  have member: "sectioned ?P (bindG (tryG (reconcileNamespaceWithClass K ns nc)) (\<lambda>_. returnG ()))" for ns
    by (intro sectioned_bind sectioned_try sectioned_namespace sectioned_quiet safe_return)
  have final: "sectioned ?P (reconcileNamespaceClassFinalizer K nc)" if "\<not> IsZero (nc_DeletionTimestamp nc)"
    by (intro sectioned_quiet safe_reconcileNamespaceClassFinalizer_deleting [OF that] safe_handleFinalizerCleanup)
      (use d that in \<open>auto simp: read_unguarded\<close>)
  have report: "sectioned ?P (updateNamespaceClassStatus K nc)"
    by (intro sectioned_quiet safe_updateNamespaceClassStatus) auto
  have result: "sectioned ?P (if \<not> IsZero (nc_DeletionTimestamp nc) then reconcileNamespaceClassFinalizer K nc
      else returnG \<lparr>Requeue = False\<rparr>)"
    using final by (simp add: sectioned_quiet safe_return)
  have list: "sectioned ?P (listNs K NamespaceClassLabel (nc_Name nc))"
    by (intro sectioned_quiet safe_listNs) simp
  show ?thesis
    unfolding reconcileClassRequest_def
    by (intro member [unfolded d] result [unfolded d] report [unfolded d] list [unfolded d] sectioned_bind sectioned_for
        sectioned_if sectioned_quiet [OF safe_return])
qed

lemma sectioned_namespace_request: "sectioned (unguarded d) (reconcileNamespaceRequest K n)"
  unfolding reconcileNamespaceRequest_def getNamespace_def getNamespaceClass_def
  by (auto intro!: sectioned_bind sectioned_namespace sectioned_quiet [OF safe_return] sectioned_quiet [OF safe_fail]
      sectioned_try sectioned_quiet [OF safe_getNs] sectioned_quiet [OF safe_getClass]
      split: sum.split option.split simp: Let_def)

text \<open>A request that found its class under deletion: the first call of a request reads the class.\<close>

fun deletes :: "event list \<Rightarrow> bool" where
  "deletes (EvGetClass nn (Inr nc) # t) = (\<not> IsZero (nc_DeletionTimestamp nc))"
| "deletes _ = False"

lemma deletes_append: "h \<noteq> [] \<Longrightarrow> deletes (h @ t) = deletes h"
  by (cases h rule: deletes.cases) simp_all

lemma Reconcile_sectioned:
  assumes "Reconcile K req w = (r, t, w')"
  shows "sectionRun (unguarded (deletes t)) None t = Some None"
proof -
  obtain a w1 where a: "k_getClass K req w = (a, w1)" by (cases "k_getClass K req w")
  let ?rest = "case a of Inr nc \<Rightarrow> reconcileClassRequest K nc
     | Inl err \<Rightarrow> if \<not> IsNotFound K err then failG err else reconcileNamespaceRequest K (nn_Name req)"
  obtain r1 t1 w2 where rest: "?rest w1 = (r1, t1, w2)" by (cases "?rest w1")
  have run: "t = EvGetClass req a # t1"
    using a rest assms by (cases a) (auto simp: Reconcile_def getClass_def bindG_def tryG_def callG_def)
  have "sectioned (unguarded (deletes t)) ?rest"
  proof (cases a)
    case (Inr nc)
    with sectioned_class [where nc = nc] show ?thesis by (simp add: run)
  next
    case (Inl err)
    then show ?thesis by (auto intro: sectioned_namespace_request sectioned_quiet [OF safe_fail])
  qed
  from sectioned_run [OF this rest] show ?thesis by (simp add: run)
qed

text \<open>
  C8: the lock discipline.  Whatever fails, a request is a sequence of events outside locks and of sections, each under
  the lock of one namespace and left with the lock released: it reads that namespace and writes it back with other
  annotations, and nothing else.  Outside the sections no namespace is updated, unless the class of the
  request is under deletion: the finalizer updates namespaces without their lock.
\<close>

theorem Reconcile_lock_discipline:
  "let t = trace_of (Reconcile K req) w in sectionRun (unguarded (deletes t)) None t = Some None"
  by (cases "Reconcile K req w") (simp add: Reconcile_sectioned)

text \<open>
  Whatever fails, a request holds at most one namespace lock at a time and has released every
  lock it took when it ends, so no namespace stays locked.
\<close>

theorem Reconcile_locks_released: "lockRun None (trace_of (Reconcile K req) w) = Some None"
proof -
  have "sectionRun (unguarded (deletes (trace_of (Reconcile K req) w))) None (trace_of (Reconcile K req) w) = Some None"
    by (cases "Reconcile K req w") (simp add: Reconcile_sectioned)
  from sectionRun_lockRun [OF this] show ?thesis by simp
qed

end
