(* ===== verification/Concurrent_Requests.thy ===== *)
theory Concurrent_Requests imports Controller_Interaction Lock_Discipline begin

text \<open>
  Requests that run at the same time.  The main controller, the watch controllers and the goroutines of
  \<open>triggerReconcile\<close> all call \<open>Reconcile\<close> of one \<open>NamespaceClassReconciler\<close>; its only state is the map of
  namespace mutexes.  Here any number of requests run the code of \<open>Class_Controller\<close> call by call, in any
  interleaving, with each other and with whatever else changes the cluster.
\<close>

section \<open>The state\<close>

text \<open>
  A request under way: its name, the wall clock it will see before each of its calls, and its events so far.
  What it does next is what \<open>Reconcile\<close> does after these events.
\<close>

record ongoing =
  og_req :: NamespacedName
  og_clock :: "nat \<Rightarrow> Time"
  og_done :: "event list"

definition script_of :: "(nat \<Rightarrow> Time) \<Rightarrow> event list \<Rightarrow> script" where
  "script_of c h = \<lparr>answers = (\<lambda>i. if i < ncalls h then filter is_call h ! i else EvLock []), clock = c\<rparr>"

definition course :: "'w kube \<Rightarrow> ongoing \<Rightarrow> event list" where
  "course K og = trace_of (Reconcile (script_kube K) (og_req og)) (script_of (og_clock og) (og_done og))"

definition next_event :: "'w kube \<Rightarrow> ongoing \<Rightarrow> event option" where
  "next_event K og =
     (let t = course K og in if length (og_done og) < length t then Some (t ! length (og_done og)) else None)"

text \<open>What a request that has no event left has returned.\<close>

definition outcome :: "'w kube \<Rightarrow> ongoing \<Rightarrow> Result res" where
  "outcome K og = result_of (Reconcile (script_kube K) (og_req og)) (script_of (og_clock og) (og_done og))"

text \<open>
  \<open>p_holder\<close> is \<open>namespaceMutex\<close>: the index of the request that holds the mutex of a name; a name that
  \<open>LoadOrStore\<close> has not seen has a free mutex.
\<close>

record 'w pool =
  p_world :: 'w
  p_holder :: "string \<rightharpoonup> nat"
  p_runs :: "ongoing list"

definition with_event :: "event \<Rightarrow> ongoing \<Rightarrow> ongoing" where
  "with_event e og = og\<lparr>og_done := og_done og @ [e]\<rparr>"

definition log_event :: "nat \<Rightarrow> event \<Rightarrow> 'w pool \<Rightarrow> 'w pool" where
  "log_event i e s = s\<lparr>p_runs := (p_runs s)[i := with_event e (p_runs s ! i)]\<rparr>"

lemma log_event_all:
  "list_all Q (p_runs s) \<Longrightarrow> p_runs t = p_runs s \<Longrightarrow> Q (with_event e (p_runs s ! i)) \<Longrightarrow> list_all Q (p_runs (log_event i e t))"
  by (auto simp: log_event_def list_all_iff dest!: subsetD [OF set_update_subset_insert])

lemma length_log_event [simp]: "length (p_runs (log_event i e s)) = length (p_runs s)"
  by (simp add: log_event_def)

section \<open>The steps\<close>

text \<open>
  \<open>E\<close> is what anyone else may do to the cluster.  A request begins at any time: the work queues, and for
  \<open>EvSpawn\<close> the sleeping goroutine, decide when.  \<open>Lock\<close> waits for a free mutex; the program never releases
  a mutex it does not hold (shown below), so \<open>Unlock\<close> needs no guard.
\<close>

datatype c_label = Begun NamespacedName | Did nat event | Elsewhere

inductive cstep :: "'w kube \<Rightarrow> ('w \<Rightarrow> 'w \<Rightarrow> bool) \<Rightarrow> 'w pool \<Rightarrow> c_label \<Rightarrow> 'w pool \<Rightarrow> bool" for K E where
  request: "cstep K E s (Begun req) (s\<lparr>p_runs := p_runs s @ [\<lparr>og_req = req, og_clock = c, og_done = []\<rparr>]\<rparr>)"
| elsewhere: "E (p_world s) w' \<Longrightarrow> cstep K E s Elsewhere (s\<lparr>p_world := w'\<rparr>)"
| api_call: "i < length (p_runs s) \<Longrightarrow> next_event K (p_runs s ! i) = Some e \<Longrightarrow> is_call e \<Longrightarrow>
    serve K e (p_world s) = (e', w') \<Longrightarrow> cstep K E s (Did i e') (log_event i e' (s\<lparr>p_world := w'\<rparr>))"
| acquire: "i < length (p_runs s) \<Longrightarrow> next_event K (p_runs s ! i) = Some (EvLock n) \<Longrightarrow> p_holder s n = None \<Longrightarrow>
    cstep K E s (Did i (EvLock n)) (log_event i (EvLock n) (s\<lparr>p_holder := (p_holder s)(n \<mapsto> i)\<rparr>))"
| release: "i < length (p_runs s) \<Longrightarrow> next_event K (p_runs s ! i) = Some (EvUnlock n) \<Longrightarrow>
    cstep K E s (Did i (EvUnlock n)) (log_event i (EvUnlock n) (s\<lparr>p_holder := (p_holder s)(n := None)\<rparr>))"
| spawn: "i < length (p_runs s) \<Longrightarrow> next_event K (p_runs s ! i) = Some (EvSpawn c) \<Longrightarrow>
    cstep K E s (Did i (EvSpawn c)) (log_event i (EvSpawn c) s)"

inductive csteps :: "'w kube \<Rightarrow> ('w \<Rightarrow> 'w \<Rightarrow> bool) \<Rightarrow> 'w pool \<Rightarrow> c_label list \<Rightarrow> 'w pool \<Rightarrow> bool" for K E where
  stay: "csteps K E s [] s"
| move: "csteps K E s ls s' \<Longrightarrow> cstep K E s' l s'' \<Longrightarrow> csteps K E s (ls @ [l]) s''"

definition empty_pool :: "'w \<Rightarrow> 'w pool" where
  "empty_pool w = \<lparr>p_world = w, p_holder = Map.empty, p_runs = []\<rparr>"

section \<open>A request stays on the course of the code\<close>

definition on_course :: "'w kube \<Rightarrow> ongoing \<Rightarrow> bool" where
  "on_course K og \<longleftrightarrow> (\<exists>rest. course K og = og_done og @ rest)"

lemma next_Some: "on_course K og \<Longrightarrow> next_event K og = Some e \<longleftrightarrow> (\<exists>rest. course K og = og_done og @ e # rest)"
  by (auto simp: on_course_def next_event_def Let_def neq_Nil_conv)

lemma next_None: "on_course K og \<Longrightarrow> next_event K og = None \<longleftrightarrow> course K og = og_done og"
  by (auto simp: on_course_def next_event_def Let_def)

lemma on_course_new: "on_course K \<lparr>og_req = req, og_clock = c, og_done = []\<rparr>"
  by (simp add: on_course_def)

lemma script_of_agree: "agree (ncalls h) (script_of c h) (script_of c (h @ t))"
  by (simp add: agree_def script_of_def nth_append ncalls_def)

lemma script_of_next: "is_call e \<Longrightarrow> answers (script_of c (h @ [e])) (ncalls h) = e"
  by (simp add: script_of_def ncalls_def)

context kube_client
begin

lemma causal_Reconcile: "causal (Reconcile (script_kube K) req)"
  using interactive_Reconcile unfolding interactive_def by blast

lemma on_course_extend:
  assumes "on_course K og" and "next_event K og = Some e" and "ask e' = ask e" and "lawful e'"
  shows "on_course K (with_event e' og)"
proof -
  let ?h = "og_done og" and ?m = "Reconcile (script_kube K) (og_req og)"
  let ?s = "script_of (og_clock og) ?h" and ?s1 = "script_of (og_clock og) (?h @ [e'])"
  from assms obtain rest where "trace_of ?m ?s = ?h @ e # rest" by (auto simp: next_Some course_def)
  then obtain r s' where run: "?m ?s = (r, ?h @ e # rest, s')" by (cases "?m ?s") auto
  from causalD(3) [OF causal_Reconcile run refl script_of_agree] obtain e2 rest'
    where trace: "trace_of ?m ?s1 = ?h @ e2 # rest'" and takes: "takes ?s1 ?h e e2" by blast
  have "e2 = e'"
  proof (cases "is_call e'")
    case True
    with takes assms(3,4) show ?thesis by (simp add: takes_def script_of_next)
  next
    case False
    with takes assms(3) show ?thesis by (metis takes_def ask_noncall)
  qed
  with trace show ?thesis by (simp add: on_course_def course_def with_event_def)
qed

lemma on_course_steps:
  "csteps K E s ls s' \<Longrightarrow> list_all (on_course K) (p_runs s) \<Longrightarrow> list_all (on_course K) (p_runs s')"
proof (induction rule: csteps.induct)
  case (move s ls s' l s'')
  have keep: "list_all (on_course K) (p_runs (log_event i e' (t :: 'w pool)))"
    if "p_runs t = p_runs s'" "i < length (p_runs s')" "next_event K (p_runs s' ! i) = Some e" "ask e' = ask e" "lawful e'"
    for i e e' t
    using that move.IH [OF move.prems]
    by (intro log_event_all [where s = s'] on_course_extend [of "p_runs s' ! i" e e']) (simp_all add: list_all_length)
  from move.hyps(2) show ?case
  proof (cases rule: cstep.cases)
    case (api_call i e e' w')
    then have "ask e' = ask e" "lawful e'" using lawful_serve [of e "p_world s'"] ask_serve [of K e "p_world s'"] by simp_all
    with api_call show ?thesis by (auto intro: keep)
  qed (use move.IH [OF move.prems] in \<open>auto simp: on_course_new intro: keep\<close>)
qed simp


lemma reached_on_course:
  "csteps K E (empty_pool w) ls s \<Longrightarrow> i < length (p_runs s) \<Longrightarrow> on_course K (p_runs s ! i)"
  using on_course_steps [of E "empty_pool w" ls s] by (simp add: empty_pool_def list_all_length)

text \<open>What holds of every event of every request alone holds of every event of a request among others.\<close>

lemma course_transfer:
  assumes "on_course K og" and "\<And>s. all_hist P [] (trace_of (Reconcile (script_kube K) (og_req og)) s)"
  shows "all_hist P [] (og_done og)"
proof -
  from assms(1) obtain rest where "course K og = og_done og @ rest" by (auto simp: on_course_def)
  with assms(2) [of "script_of (og_clock og) (og_done og)"] show ?thesis by (simp add: course_def)
qed

end

section \<open>Sections\<close>

definition section_of :: "ongoing \<Rightarrow> (string \<times> event list) option option" where
  "section_of og = sectionRun (\<lambda>_. True) None (og_done og)"

text \<open>\<open>holds n og\<close>: the request is between \<open>Lock\<close> and \<open>Unlock\<close> of the mutex of \<open>n\<close>.\<close>

definition holds :: "string \<Rightarrow> ongoing \<Rightarrow> bool" where
  "holds n og \<longleftrightarrow> (\<exists>es. section_of og = Some (Some (n, es)))"

lemma holds_unique: "holds n og \<Longrightarrow> holds m og \<Longrightarrow> m = n"
  by (auto simp: holds_def)

lemma section_of_extend:
  "section_of (with_event e og) = (case section_of og of None \<Rightarrow> None | Some s \<Rightarrow> sectionRun (\<lambda>_. True) s [e])"
  by (simp add: section_of_def with_event_def sectionRun_append)

lemma section_course:
  assumes "on_course K og"
  obtains s where "section_of og = Some s" and "course K og = og_done og \<Longrightarrow> s = None"
    and "\<And>e. next_event K og = Some e \<Longrightarrow> \<exists>s1 t. sectionRun (unguarded (deletes (og_done og))) s [e] = Some s1 \<and>
      sectionRun (\<lambda>_. True) s1 t = Some None"
proof -
  let ?P = "unguarded (deletes (course K og))"
  have whole: "sectionRun ?P None (course K og) = Some None"
    unfolding course_def by (rule Reconcile_sectioned) (simp add: prod_eq_iff)
  from assms obtain rest where rest: "course K og = og_done og @ rest" by (auto simp: on_course_def)
  with whole obtain s where s: "sectionRun ?P None (og_done og) = Some s"
    and after: "sectionRun ?P s rest = Some None"
    by (auto simp: sectionRun_append split: option.splits)
  from s have "section_of og = Some s" unfolding section_of_def by (rule sectionRun_mono) simp
  moreover have "s = None" if "course K og = og_done og" using that rest after by simp
  moreover have "\<exists>s1 t. sectionRun (unguarded (deletes (og_done og))) s [e] = Some s1 \<and>
      sectionRun (\<lambda>_. True) s1 t = Some None" if "next_event K og = Some e" for e
  proof -
    from that assms rest obtain t where t: "rest = e # t" by (auto simp: next_Some)
    with after obtain s1 where s1: "sectionRun ?P s [e] = Some s1" "sectionRun ?P s1 t = Some None"
      using sectionRun_append [of ?P s "[e]" t] by (auto split: option.splits)
    have "sectionRun (unguarded (deletes (og_done og))) s [e] = Some s1"
    proof (cases "og_done og = []")
      case True
      with rest t s have "course K og = e # t" "s = None" by simp_all
      with s1(1) True show ?thesis by (cases e) (auto simp: unguarded_def split: if_splits)
    next
      case False
      with s1(1) rest show ?thesis by (simp add: deletes_append)
    qed
    moreover have "sectionRun (\<lambda>_. True) s1 t = Some None" using s1(2) by (rule sectionRun_mono) simp
    ultimately show ?thesis by blast
  qed
  ultimately show ?thesis using that by blast
qed


lemma section_of_course: "on_course K og \<Longrightarrow> section_of og \<noteq> None"
  by (rule section_course) auto

lemma holds_lockRun:
  assumes "on_course K og"
  shows "holds n og \<longleftrightarrow> lockRun None (og_done og) = Some (Some n)"
proof -
  obtain s where s: "section_of og = Some s" using section_of_course [OF assms] by blast
  from sectionRun_lockRun [OF this [unfolded section_of_def]] have "lockRun None (og_done og) = Some (map_option fst s)" by simp
  with s show ?thesis by (cases s) (auto simp: holds_def)
qed

lemma holds_extend:
  assumes "section_of (with_event e og) \<noteq> None"
  shows "holds m (with_event e og) \<longleftrightarrow> (case e of EvLock n \<Rightarrow> m = n | EvUnlock n \<Rightarrow> False | _ \<Rightarrow> holds m og)"
    and "e = EvLock n \<Longrightarrow> \<not> holds m og" and "e = EvUnlock n \<Longrightarrow> holds n og"
proof -
  from assms obtain s s1 where sections: "section_of og = Some s" "sectionRun (\<lambda>_. True) s [e] = Some s1"
    "section_of (with_event e og) = Some s1"
    by (auto simp: section_of_extend split: option.splits)
  show "holds m (with_event e og) \<longleftrightarrow> (case e of EvLock n \<Rightarrow> m = n | EvUnlock n \<Rightarrow> False | _ \<Rightarrow> holds m og)"
    using sections by (cases s; cases e) (auto simp: holds_def split: if_splits prod.splits)
  show "e = EvLock n \<Longrightarrow> \<not> holds m og"
    using sections by (cases s) (auto simp: holds_def)
  show "e = EvUnlock n \<Longrightarrow> holds n og"
    using sections by (cases s) (auto simp: holds_def split: if_splits)
qed

definition locks_agree :: "'w pool \<Rightarrow> bool" where
  "locks_agree s \<longleftrightarrow> (\<forall>n i. p_holder s n = Some i \<longleftrightarrow> i < length (p_runs s) \<and> holds n (p_runs s ! i))"

lemma locks_agreeD: "locks_agree s \<Longrightarrow> p_holder s n = Some i \<longleftrightarrow> i < length (p_runs s) \<and> holds n (p_runs s ! i)"
  by (simp add: locks_agree_def)

lemma locks_agree_log:
  assumes "locks_agree s" and "section_of (with_event e (p_runs s ! i)) \<noteq> None" and "i < length (p_runs s)"
    and "p_runs t = p_runs s"
    and "\<And>n k. p_holder t n = Some k \<longleftrightarrow>
      (if k = i then (case e of EvLock m \<Rightarrow> n = m | EvUnlock m \<Rightarrow> False | _ \<Rightarrow> p_holder s n = Some i) else p_holder s n = Some k)"
  shows "locks_agree (log_event i e t)"
  unfolding locks_agree_def
proof (intro allI)
  fix n k
  show "p_holder (log_event i e t) n = Some k \<longleftrightarrow>
      k < length (p_runs (log_event i e t)) \<and> holds n (p_runs (log_event i e t) ! k)"
    using assms(3,4) assms(5) [of n k] locks_agreeD [OF assms(1), of n k] locks_agreeD [OF assms(1), of n i] holds_extend(1) [OF assms(2), of n]
    by (cases "k = i") (auto simp: log_event_def split: event.split)
qed

lemma no_lock_cases: "\<not> is_lock e \<Longrightarrow> (case e of EvLock n \<Rightarrow> f n | EvUnlock n \<Rightarrow> g n | _ \<Rightarrow> x) = x"
  by (cases e) simp_all

lemma call_no_lock: "is_call e \<Longrightarrow> \<not> is_lock e"
  by (cases e) simp_all

context kube_client
begin

lemma locks_agree_steps:
  assumes "csteps K E s ls s'" and "list_all (on_course K) (p_runs s)" and "locks_agree s"
  shows "locks_agree s'"
  using assms
proof (induction rule: csteps.induct)
  case (move s ls s' l s'')
  note agree = move.IH [OF move.prems]
  from on_course_steps [OF csteps.move [OF move.hyps] move.prems(1)]
  have courses: "list_all (on_course K) (p_runs s'')" .
  have defined: "section_of (with_event e (p_runs s' ! i)) \<noteq> None"
    if "s'' = log_event i e t" "p_runs t = p_runs s'" "i < length (p_runs s')" for i e t
  proof -
    from courses [unfolded list_all_length, rule_format, of i] that have "on_course K (with_event e (p_runs s' ! i))"
      by (simp add: log_event_def)
    then show ?thesis by (rule section_of_course)
  qed
  from move.hyps(2) show ?case
  proof (cases rule: cstep.cases)
    case (request req c)
    then show ?thesis
      using agree by (auto simp: locks_agree_def nth_append holds_def section_of_def less_Suc_eq)
  next
    case (elsewhere w')
    then show ?thesis using agree by (simp add: locks_agree_def)
  next
    case (api_call i e e' w')
    then have "is_call e'" using ask_serve [of K e "p_world s'"] is_call_cong [of e' e] by simp
    have "section_of (with_event e' (p_runs s' ! i)) \<noteq> None" using api_call(3) by (intro defined [OF api_call(2)]) simp_all
    with api_call agree show ?thesis
      by (auto intro!: locks_agree_log simp: no_lock_cases [OF call_no_lock [OF \<open>is_call e'\<close>]] split: if_splits)
  next
    case (acquire i n)
    have "section_of (with_event (EvLock n) (p_runs s' ! i)) \<noteq> None" using acquire(3) by (intro defined [OF acquire(2)]) simp_all
    note sect = this
    have "p_holder s' m \<noteq> Some i" for m
      using holds_extend(2) [OF sect refl] locks_agreeD [OF agree] by blast
    with acquire agree sect show ?thesis
      by (auto intro!: locks_agree_log split: if_splits)
  next
    case (release i n)
    have "section_of (with_event (EvUnlock n) (p_runs s' ! i)) \<noteq> None" using release(3) by (intro defined [OF release(2)]) simp_all
    note sect = this
    have "p_holder s' m = Some i \<longleftrightarrow> m = n" for m
      using holds_extend(3) [OF sect refl] locks_agreeD [OF agree] release(3) holds_unique by blast
    note held = this
    show ?thesis
      unfolding release(2)
    proof (rule locks_agree_log [OF agree sect release(3)])
      fix m k
      show "p_holder (s'\<lparr>p_holder := (p_holder s')(n := None)\<rparr>) m = Some k \<longleftrightarrow>
          (if k = i then (case EvUnlock n of EvLock q \<Rightarrow> m = q | EvUnlock q \<Rightarrow> False | _ \<Rightarrow> p_holder s' m = Some i)
           else p_holder s' m = Some k)"
        using held [of m] held [of n] by (cases "k = i"; cases "m = n") simp_all
    qed simp
  next
    case (spawn i c)
    have "section_of (with_event (EvSpawn c) (p_runs s' ! i)) \<noteq> None" using spawn(3) by (intro defined [OF spawn(2)]) simp_all
    with spawn agree show ?thesis by (auto intro!: locks_agree_log split: if_splits)
  qed
qed simp

lemma reached_agree: "csteps K E (empty_pool w) ls s \<Longrightarrow> locks_agree s"
  by (erule locks_agree_steps) (simp_all add: empty_pool_def locks_agree_def)


text \<open>Every answer in the log of a request is one a client may give.\<close>

lemma lawful_steps:
  "csteps K E s ls s' \<Longrightarrow> list_all (\<lambda>og. list_all lawful (og_done og)) (p_runs s) \<Longrightarrow>
    list_all (\<lambda>og. list_all lawful (og_done og)) (p_runs s')"
proof (induction rule: csteps.induct)
  case (move s ls s' l s'')
  have keep: "list_all (\<lambda>og. list_all lawful (og_done og)) (p_runs (log_event i e (t :: 'w pool)))"
    if "p_runs t = p_runs s'" "i < length (p_runs s')" "lawful e" for i e t
    using that move.IH [OF move.prems]
    by (intro log_event_all [where s = s']) (simp_all add: with_event_def, metis list_all_length)
  from move.hyps(2) show ?case
  proof (cases rule: cstep.cases)
    case (api_call i e e' w')
    then have "lawful e'" using lawful_serve [of e "p_world s'"] by simp
    with api_call show ?thesis by (auto intro: keep)
  qed (use move.IH [OF move.prems] in \<open>auto intro: keep\<close>)
qed simp

lemma reached_lawful:
  "csteps K E (empty_pool w) ls s \<Longrightarrow> i < length (p_runs s) \<Longrightarrow> list_all lawful (og_done (p_runs s ! i))"
  using lawful_steps [of E "empty_pool w" ls s] by (simp add: empty_pool_def list_all_length)

lemma request_contract_script: "request_contract (script_kube K) = request_contract K"
proof -
  have client: "kube_client (script_kube K)" "kube_client K" by (rule script.kube_client_axioms) (rule kube_client_axioms)
  have "in_class (script_kube K) = in_class K"
    by (simp add: fun_eq_iff in_class_def)
  then have del: "dropped (script_kube K) = dropped K" "orphaned (script_kube K) = orphaned K"
    by (simp_all add: fun_eq_iff dropped_def orphaned_def)
  have live: "live_write (script_kube K) = live_write K" using client by (simp add: fun_eq_iff live_write_def)
  have patch: "status_patch (script_kube K) = status_patch K" by (simp add: fun_eq_iff status_patch_def)
  have ns: "namespace_contract (script_kube K) n c h e = namespace_contract K n c h e" for n c h e
    by (cases e) (simp_all add: del live patch)
  have fin: "finalizer_contract (script_kube K) nc h e = finalizer_contract K nc h e" for nc h e
    by (cases e) simp_all
  have report: "report_contract (script_kube K) nc h e = report_contract K nc h e" for nc h e
    by (cases e) (simp_all add: patch)
  show ?thesis using client by (simp add: fun_eq_iff request_contract_def class_contract_def ns fin report)
qed

end

section \<open>The log\<close>

text \<open>The events of one request among the labels of a run.\<close>

fun event_of :: "nat \<Rightarrow> c_label \<Rightarrow> event option" where
  "event_of i (Did k e) = (if k = i then Some e else None)"
| "event_of i _ = None"

definition events_of :: "nat \<Rightarrow> c_label list \<Rightarrow> event list" where
  "events_of i ls = List.map_filter (event_of i) ls"

lemma events_of_snoc [simp]: "events_of i (ls @ [l]) = events_of i ls @ (case event_of i l of None \<Rightarrow> [] | Some e \<Rightarrow> [e])"
  by (simp add: events_of_def List.map_filter_def split: option.split)

lemma reached_log:
  "csteps K E s ls s' \<Longrightarrow> p_runs s = [] \<Longrightarrow>
    map og_done (p_runs s') = map (\<lambda>i. events_of i ls) [0..<length (p_runs s')] \<and> (\<forall>i\<ge>length (p_runs s'). events_of i ls = [])"
proof (induction rule: csteps.induct)
  case (stay s)
  then show ?case by (simp add: events_of_def List.map_filter_def)
next
  case (move s ls s' l s'')
  note log = move.IH [OF move.prems]
  have grow: "map og_done (p_runs (log_event i e t)) = map (\<lambda>k. events_of k (ls @ [Did i e])) [0..<length (p_runs s')]"
    if "p_runs t = p_runs s'" "i < length (p_runs s')" for i e and t :: "'a pool"
  proof (rule nth_equalityI)
    fix k
    assume "k < length (map og_done (p_runs (log_event i e t)))"
    with that have k: "k < length (p_runs s')" by (simp add: log_event_def)
    from log have "map og_done (p_runs s') ! k = map (\<lambda>i. events_of i ls) [0..<length (p_runs s')] ! k" by simp
    with k have "og_done (p_runs s' ! k) = events_of k ls" by simp
    with that k show "map og_done (p_runs (log_event i e t)) ! k = map (\<lambda>k. events_of k (ls @ [Did i e])) [0..<length (p_runs s')] ! k"
      by (simp add: log_event_def nth_list_update with_event_def)
  qed (simp add: that log_event_def)
  from move.hyps(2) show ?case
    by (cases rule: cstep.cases) (use log in \<open>auto simp: grow\<close>)
qed

section \<open>Running it\<close>

text \<open>
  An executable scheduler: a request begins (on a clock that stands still), or the request with the given index makes its next
  event if it can.
\<close>

datatype turn = Begin NamespacedName | Turn nat

fun play :: "'w kube \<Rightarrow> turn \<Rightarrow> 'w pool \<Rightarrow> (c_label \<times> 'w pool) option" where
  "play K (Begin req) s = Some (Begun req, s\<lparr>p_runs := p_runs s @ [\<lparr>og_req = req, og_clock = (\<lambda>_. 0), og_done = []\<rparr>]\<rparr>)"
| "play K (Turn i) s =
     (if length (p_runs s) \<le> i then None
      else (case next_event K (p_runs s ! i) of
              None \<Rightarrow> None
            | Some e \<Rightarrow>
                (case e of
                   EvLock n \<Rightarrow>
                     if p_holder s n = None then Some (Did i e, log_event i e (s\<lparr>p_holder := (p_holder s)(n \<mapsto> i)\<rparr>)) else None
                 | EvUnlock n \<Rightarrow> Some (Did i e, log_event i e (s\<lparr>p_holder := (p_holder s)(n := None)\<rparr>))
                 | EvSpawn c \<Rightarrow> Some (Did i e, log_event i e s)
                 | _ \<Rightarrow> (case serve K e (p_world s) of (e', w') \<Rightarrow> Some (Did i e', log_event i e' (s\<lparr>p_world := w'\<rparr>))))))"

primrec plays :: "'w kube \<Rightarrow> turn list \<Rightarrow> 'w pool \<Rightarrow> (c_label list \<times> 'w pool) option" where
  "plays K [] s = Some ([], s)"
| "plays K (t # ts) s =
     (case play K t s of
        None \<Rightarrow> None
      | Some (l, s') \<Rightarrow> (case plays K ts s' of None \<Rightarrow> None | Some (ls, s'') \<Rightarrow> Some (l # ls, s'')))"

lemma csteps_trans: "csteps K E s1 ks s2 \<Longrightarrow> csteps K E s ls s1 \<Longrightarrow> csteps K E s (ls @ ks) s2"
proof (induction rule: csteps.induct)
  case (move s1 ks s2 l s3)
  then show ?case using csteps.move [of K E s "ls @ ks" s2 l s3] by simp
qed simp

lemma csteps_one: "cstep K E s l s' \<Longrightarrow> csteps K E s [l] s'"
  using csteps.move [OF csteps.stay] by fastforce


lemma play_sound: "play K t s = Some (l, s') \<Longrightarrow> cstep K E s l s'"
proof (cases t)
  case (Begin req)
  then show "play K t s = Some (l, s') \<Longrightarrow> ?thesis" by (auto intro: request)
next
  case (Turn i)
  assume run: "play K t s = Some (l, s')"
  with Turn obtain e where i: "i < length (p_runs s)" and e: "next_event K (p_runs s ! i) = Some e"
    by (auto split: if_splits option.splits)
  show ?thesis
  proof (cases "is_call e")
    case True
    then have "l = Did i (fst (serve K e (p_world s)))"
      "s' = log_event i (fst (serve K e (p_world s))) (s\<lparr>p_world := snd (serve K e (p_world s))\<rparr>)"
      using run Turn i e by (cases e; auto split: prod.splits)+
    with api_call [OF i e True prod.collapse [symmetric], of E] show ?thesis by simp
  next
    case False
    with run Turn i e acquire [OF i] release [OF i] spawn [OF i] show ?thesis
      by (cases e) (auto split: if_splits)
  qed
qed

lemma plays_sound: "plays K ts s = Some (ls, s') \<Longrightarrow> csteps K E s ls s'"
proof (induction ts arbitrary: s ls)
  case (Cons t ts)
  then obtain l s1 ks where "play K t s = Some (l, s1)" "plays K ts s1 = Some (ks, s')" "ls = l # ks"
    by (auto split: option.splits prod.splits)
  with csteps_trans [OF Cons.IH csteps_one [OF play_sound]] show ?case by fastforce
qed (simp add: stay)

text \<open>A class under deletion without resources, and two requests: one for the namespace, one for the class.\<close>

definition race_cluster :: cluster where
  "race_cluster = sample_cluster\<lparr>cl_Classes := [deleting_class\<lparr>Spec := \<lparr>Resources = []\<rparr>\<rparr>], cl_Discovery := []\<rparr>"

definition race_turns :: "turn list" where
  "race_turns = Begin (byName ''web-portal'') # replicate 4 (Turn 0) @
     Begin (byName ''public-network'') # replicate 11 (Turn 1) @ [Turn 0, Turn 0, Turn 1, Turn 0]"

text \<open>
  A run in which the finalizer of a class and a request for a namespace of the class meet: the request reads the namespace under
  the mutex, the finalizer takes its annotation away without it, and the request writes the annotation back.
\<close>

fun updated :: "(c_label \<times> 'w pool) option \<Rightarrow> (nat \<times> Namespace \<times> 'w pool) option" where
  "updated (Some (Did k (EvUpdateNs ns (Inr u)), s)) = Some (k, ns, s)"
| "updated _ = None"

lemma updated_Some: "updated x = Some (k, ns, s) \<longleftrightarrow> x = Some (Did k (EvUpdateNs ns (Inr ())), s)"
  by (cases x rule: updated.cases) auto

fun lock_of :: "event option \<Rightarrow> string option" where
  "lock_of (Some (EvLock n)) = Some n"
| "lock_of _ = None"

lemma lock_of_Some: "lock_of x = Some n \<longleftrightarrow> x = Some (EvLock n)"
  by (cases x rule: lock_of.cases) auto

lemma race_run:
  "case plays mem_kube (take 19 race_turns) (empty_pool race_cluster) of
     None \<Rightarrow> False
   | Some (ls, s) \<Rightarrow>
       length (p_runs s) = 2 \<and> lockRun None (og_done (p_runs s ! 0)) = Some (Some ''web-portal'') \<and>
       (case updated (play mem_kube (Turn 1) s) of
          None \<Rightarrow> False
        | Some (k, ns, s1) \<Rightarrow>
            k = 1 \<and> ns_Name ns = ''web-portal'' \<and> map_read (ns_Annotations ns) LastAppliedClassAnnotation = '''' \<and>
            (case updated (play mem_kube (Turn 0) s1) of
               None \<Rightarrow> False
             | Some (k, new, s2) \<Rightarrow>
                 k = 0 \<and> map (\<lambda>ns. map_read (ns_Annotations ns) LastAppliedClassAnnotation) (cl_Namespaces (p_world s2)) =
                   [''public-network'']))"
  by code_simp

lemma race_steps:
  obtains ls s ns s1 new s2 where "csteps mem_kube E (empty_pool race_cluster) ls s" and "length (p_runs s) = 2"
    and "lockRun None (og_done (p_runs s ! 0)) = Some (Some ''web-portal'')"
    and "cstep mem_kube E s (Did 1 (EvUpdateNs ns (Inr ()))) s1" and "ns_Name ns = ''web-portal''"
    and "map_read (ns_Annotations ns) LastAppliedClassAnnotation = ''''"
    and "cstep mem_kube E s1 (Did 0 (EvUpdateNs new (Inr ()))) s2"
    and "map (\<lambda>ns. map_read (ns_Annotations ns) LastAppliedClassAnnotation) (cl_Namespaces (p_world s2)) = [''public-network'']"
proof -
  from race_run obtain ls s k ns s1 k' new s2 where
    "plays mem_kube (take 19 race_turns) (empty_pool race_cluster) = Some (ls, s)" "length (p_runs s) = 2"
    "lockRun None (og_done (p_runs s ! 0)) = Some (Some ''web-portal'')"
    "updated (play mem_kube (Turn 1) s) = Some (k, ns, s1)" "k = 1" "ns_Name ns = ''web-portal''"
    "map_read (ns_Annotations ns) LastAppliedClassAnnotation = ''''"
    "updated (play mem_kube (Turn 0) s1) = Some (k', new, s2)" "k' = 0"
    "map (\<lambda>ns. map_read (ns_Annotations ns) LastAppliedClassAnnotation) (cl_Namespaces (p_world s2)) = [''public-network'']"
    by (auto elim!: case_optionE)
  then show thesis
    unfolding updated_Some by (intro that [of ls s ns s1 new s2] plays_sound play_sound) (simp_all del: play.simps)
qed

text \<open>Two requests for the same namespace: the second waits for the first.\<close>

definition waiting_turns :: "turn list" where
  "waiting_turns = Begin (byName ''web-portal'') # replicate 5 (Turn 0) @ Begin (byName ''web-portal'') # replicate 4 (Turn 1)"

lemma waiting_run:
  "case plays mem_kube waiting_turns (empty_pool sample_cluster) of
     None \<Rightarrow> False
   | Some (ls, s) \<Rightarrow>
       length (p_runs s) = 2 \<and> p_holder s ''web-portal'' = Some 0 \<and>
       lock_of (next_event mem_kube (p_runs s ! 1)) = Some ''web-portal''"
  by code_simp

lemma waiting_steps:
  obtains ls s where "csteps mem_kube E (empty_pool sample_cluster) ls s" and "length (p_runs s) = 2"
    and "p_holder s ''web-portal'' = Some 0" and "next_event mem_kube (p_runs s ! 1) = Some (EvLock ''web-portal'')"
proof -
  from waiting_run obtain ls s where "plays mem_kube waiting_turns (empty_pool sample_cluster) = Some (ls, s)"
    "length (p_runs s) = 2" "p_holder s ''web-portal'' = Some 0"
    "lock_of (next_event mem_kube (p_runs s ! 1)) = Some ''web-portal''"
    by (auto elim!: case_optionE)
  then show thesis unfolding lock_of_Some by (intro that [of ls s] plays_sound) simp_all
qed

end
