(* ===== verification/Concurrent_Reconcile.thy ===== *)
theory Concurrent_Reconcile imports Concurrent_Requests begin

text \<open>
  What holds of requests that run at the same time: each of them keeps the contract it has alone, the sections
  under the mutexes exclude each other, no request waits forever for a mutex, and a request that runs alone
  behaves as in \<open>Class_Controller\<close>.
\<close>

section \<open>Each request keeps its contract\<close>

lemma done_is_log:
  assumes "csteps K E (empty_pool w) ls s" and "i < length (p_runs s)"
  shows "og_done (p_runs s ! i) = events_of i ls"
proof -
  from reached_log [OF assms(1)] have "map og_done (p_runs s) = map (\<lambda>i. events_of i ls) [0..<length (p_runs s)]"
    by (simp add: empty_pool_def)
  then have "map og_done (p_runs s) ! i = map (\<lambda>i. events_of i ls) [0..<length (p_runs s)] ! i" by simp
  with assms(2) show ?thesis by simp
qed

context kube_client
begin

lemma contract_reached:
  assumes "csteps K E (empty_pool w) ls s" and "i < length (p_runs s)"
  shows "all_hist (request_contract K (og_req (p_runs s ! i))) [] (events_of i ls)"
  unfolding done_is_log [OF assms, symmetric]
  by (rule course_transfer [OF reached_on_course [OF assms]])
    (rule safe_hist [OF Reconcile_safe [of "script_kube K", unfolded request_contract_script]])

end

text \<open>
  C3: the contract of \<open>Reconcile\<close> under concurrency.  Any number of requests run call by call in any interleaving, with
  each other and with anyone else who changes the cluster.  The events that a run shows of a request are
  allowed, one by one, by the contract of a request and that request's own history; and every object it creates or
  updates goes to a namespace that its own latest read found not to be deleted, with the owner label of the class that
  its own read of the namespace showed.
\<close>

theorem concurrent_requests_contract:
  assumes "kube_client K" and "csteps K E (empty_pool w) ls s" and "i < length (p_runs s)"
  shows "all_hist (request_contract K (og_req (p_runs s ! i))) [] (events_of i ls) \<and>
    all_hist (\<lambda>h e. case applied e of
       None \<Rightarrow> True
     | Some u \<Rightarrow> \<exists>seen now. seenNs h seen \<and> owned_by (ns_Name seen) (map_read (ns_Labels seen) NamespaceClassLabel) u \<and>
         lastRead (ns_Name seen) h = Some now \<and> ns_DeletionTimestamp now = None) [] (events_of i ls)"
  by (rule conjI, rule kube_client.contract_reached [OF assms],
      subst done_is_log [OF assms(2,3), symmetric], rule kube_client.course_transfer [OF assms(1)],
      rule kube_client.reached_on_course [OF assms], rule confined_run [OF script.kube_client_axioms])

lemma concurrent_requests_contract_witness:
  "\<exists>ls s. csteps mem_kube (\<lambda>_ _. False) (empty_pool race_cluster) ls s \<and> 1 < length (p_runs s) \<and>
    all_hist (request_contract mem_kube (og_req (p_runs s ! 1))) [] (events_of 1 ls) \<and>
    all_hist (\<lambda>h e. case applied e of
       None \<Rightarrow> True
     | Some u \<Rightarrow> \<exists>seen now. seenNs h seen \<and> owned_by (ns_Name seen) (map_read (ns_Labels seen) NamespaceClassLabel) u \<and>
         lastRead (ns_Name seen) h = Some now \<and> ns_DeletionTimestamp now = None) [] (events_of 1 ls)"
proof -
  obtain ls s where run: "csteps mem_kube (\<lambda>_ _. False) (empty_pool race_cluster) ls s" "length (p_runs s) = 2"
    by (rule race_steps)
  then have "1 < length (p_runs s)" by simp
  with run concurrent_requests_contract [OF mem.kube_client_axioms run(1) this] show ?thesis by blast
qed

section \<open>Sections exclude each other\<close>

context kube_client
begin

lemma reached_section:
  assumes "csteps K E (empty_pool w) ls s" and "i < length (p_runs s)" and "next_event K (p_runs s ! i) = Some e"
  obtains sect s1 t where "section_of (p_runs s ! i) = Some sect"
    and "sectionRun (unguarded (deletes (og_done (p_runs s ! i)))) sect [e] = Some s1"
    and "sectionRun (\<lambda>_. True) s1 t = Some None"
  using section_course [OF reached_on_course [OF assms(1,2)]] assms(3) by metis

text \<open>The update of a namespace is under its mutex, but for the finalizer's.\<close>

lemma lawful_section:
  assumes "in_order n es" and "list_all lawful es" and "in_order n (es @ [EvUpdateNs ns a])"
  shows "ns_Name ns = n"
proof -
  from assms(3) obtain x where es: "es = [EvGetNs n (Inr x)]" and eq: "ns\<lparr>ns_Annotations := ns_Annotations x\<rparr> = x"
    by (cases "(n, es @ [EvUpdateNs ns a])" rule: in_order.cases) auto
  from eq have "ns_Name (ns\<lparr>ns_Annotations := ns_Annotations x\<rparr>) = ns_Name x" by simp
  with es assms(2) show ?thesis by simp
qed

lemma section_suffix: "sectionRun P s t = Some (Some (n, es)) \<Longrightarrow>
    (\<exists>h0. t = h0 @ EvLock n # es) \<or> (\<exists>es0. s = Some (n, es0) \<and> es = es0 @ t)"
proof (induction t arbitrary: s)
  case (Cons e t)
  then show ?case
    by (cases s; cases e) (fastforce split: if_splits prod.splits)+
qed simp

lemma section_in_order: "sectionRun P s t = Some (Some (n, es)) \<Longrightarrow> (\<And>m fs. s = Some (m, fs) \<Longrightarrow> in_order m fs) \<Longrightarrow> in_order n es"
proof (induction t arbitrary: s)
  case (Cons e t)
  then show ?case
    by (cases s; cases e) (fastforce split: if_splits prod.splits)+
qed simp


lemma section_facts:
  assumes "section_of og = Some (Some (n, es))" and "list_all lawful (og_done og)"
  shows "in_order n es" and "list_all lawful es"
proof -
  show "in_order n es" using assms(1) unfolding section_of_def by (rule section_in_order) simp
  from assms(1) obtain h0 where "og_done og = h0 @ EvLock n # es"
    unfolding section_of_def by (auto dest: section_suffix)
  with assms(2) show "list_all lawful es" by simp
qed

lemma update_under_lock:
  assumes "csteps K E (empty_pool w) ls s" and "i < length (p_runs s)"
    and "next_event K (p_runs s ! i) = Some (EvUpdateNs ns a)" and "\<not> deletes (og_done (p_runs s ! i))"
  shows "holds (ns_Name ns) (p_runs s ! i)"
proof -
  from assms(1-3) obtain sect s1 where sect: "section_of (p_runs s ! i) = Some sect"
    and step: "sectionRun (unguarded (deletes (og_done (p_runs s ! i)))) sect [EvUpdateNs ns a] = Some s1"
    by (rule reached_section)
  with assms(4) obtain n es where n: "sect = Some (n, es)" and ord: "in_order n (es @ [EvUpdateNs ns a])"
    by (cases sect) (auto simp: unguarded_def split: if_splits)
  from section_facts [OF sect [unfolded n] reached_lawful [OF assms(1,2)]] ord have "ns_Name ns = n"
    by (rule lawful_section)
  with sect n show ?thesis by (auto simp: holds_def)
qed

lemma holds_exclusive:
  assumes "csteps K E (empty_pool w) ls s" and "i < length (p_runs s)" and "k < length (p_runs s)"
    and "holds n (p_runs s ! i)" and "holds n (p_runs s ! k)"
  shows "i = k"
  using locks_agreeD [OF reached_agree [OF assms(1)], of n i] locks_agreeD [OF reached_agree [OF assms(1)], of n k] assms(2-5)
  by simp

end

text \<open>
  C5: mutual exclusion.  In every state that any number of concurrent requests reach, a namespace's mutex is held by the
  one request that is inside its section; and while a request is inside, no other request updates that namespace, but the
  finalizer of a class under deletion, which takes no lock.
\<close>

theorem concurrent_sections_exclusive:
  assumes "kube_client K" and "csteps K E (empty_pool w) ls s" and "i < length (p_runs s)" and "holds n (p_runs s ! i)"
  shows "p_holder s n = Some i \<and>
    \<not> (\<exists>k ns a s'. k \<noteq> i \<and> cstep K E s (Did k (EvUpdateNs ns a)) s' \<and> ns_Name ns = n \<and>
        \<not> deletes (og_done (p_runs s ! k)))"
proof (intro conjI notI)
  show "p_holder s n = Some i"
    using locks_agreeD [OF kube_client.reached_agree [OF assms(1,2)]] assms(3,4) by simp
next
  assume "\<exists>k ns a s'. k \<noteq> i \<and> cstep K E s (Did k (EvUpdateNs ns a)) s' \<and> ns_Name ns = n \<and>
        \<not> deletes (og_done (p_runs s ! k))"
  then obtain k ns a s' where k: "k \<noteq> i" and step: "cstep K E s (Did k (EvUpdateNs ns a)) s'"
    and n: "ns_Name ns = n" and quiet: "\<not> deletes (og_done (p_runs s ! k))" by blast
  from step obtain e where "k < length (p_runs s)" and e: "next_event K (p_runs s ! k) = Some e"
    and served: "serve K e (p_world s) = (EvUpdateNs ns a, p_world s')"
    by (cases rule: cstep.cases) (auto simp: log_event_def)
  from served ask_serve [of K e "p_world s"] obtain b where "e = EvUpdateNs ns b" by (cases e) auto
  with kube_client.update_under_lock [OF assms(1,2) \<open>k < _\<close>] e quiet n have "holds n (p_runs s ! k)" by simp
  with kube_client.holds_exclusive [OF assms(1,2,3) \<open>k < _\<close> assms(4)] k show False by simp
qed

lemma concurrent_sections_exclusive_witness:
  "\<exists>ls s. csteps mem_kube (\<lambda>_ _. False) (empty_pool race_cluster) ls s \<and> length (p_runs s) = 2 \<and>
    holds ''web-portal'' (p_runs s ! 0) \<and> p_holder s ''web-portal'' = Some 0 \<and>
    \<not> (\<exists>k ns a s'. k \<noteq> 0 \<and> cstep mem_kube (\<lambda>_ _. False) s (Did k (EvUpdateNs ns a)) s' \<and> ns_Name ns = ''web-portal'' \<and>
        \<not> deletes (og_done (p_runs s ! k)))"
proof -
  obtain ls s where run: "csteps mem_kube (\<lambda>_ _. False) (empty_pool race_cluster) ls s" "length (p_runs s) = 2"
    and "lockRun None (og_done (p_runs s ! 0)) = Some (Some ''web-portal'')"
    by (rule race_steps)
  then have i: "0 < length (p_runs s)" and "holds ''web-portal'' (p_runs s ! 0)"
    by (simp_all add: holds_lockRun [OF mem.reached_on_course [OF run(1)]])
  with run concurrent_sections_exclusive [OF mem.kube_client_axioms run(1) this] show ?thesis by blast
qed


section \<open>No deadlock\<close>

text \<open>A request whose next event is not a lock that someone holds can make it.\<close>

lemma can_step:
  assumes "i < length (p_runs s)" and "next_event K (p_runs s ! i) = Some e"
    and "\<And>n. e = EvLock n \<Longrightarrow> p_holder s n = None"
  shows "\<exists>e' s'. cstep K E s (Did i e') s' \<and> ask e' = ask e"
proof -
  consider "is_call e" | n where "e = EvLock n" | n where "e = EvUnlock n" | c where "e = EvSpawn c"
    by (cases e) auto
  then show ?thesis
  proof cases
    case 1
    obtain e' w' where served: "serve K e (p_world s) = (e', w')" by (cases "serve K e (p_world s)")
    with api_call [OF assms(1,2) 1 served, of E] ask_serve [of K e "p_world s"] show ?thesis by auto
  next
    case (2 n)
    with assms(3) have "p_holder s n = None" by blast
    with acquire [OF assms(1) assms(2) [unfolded 2], of E] 2 show ?thesis by blast
  next
    case (3 n)
    with release [OF assms(1) assms(2) [unfolded 3], of E] show ?thesis by blast
  next
    case (4 c)
    with spawn [OF assms(1) assms(2) [unfolded 4], of E] show ?thesis by blast
  qed
qed

lemma step_log: "cstep K E s (Did i e) s' \<Longrightarrow> i < length (p_runs s) \<and> p_runs s' = (p_runs s)[i := with_event e (p_runs s ! i)]"
  by (induction s "Did i e" s' rule: cstep.induct) (simp_all add: log_event_def)

lemma unlocked: "cstep K E s (Did i (EvUnlock n)) s' \<Longrightarrow> p_holder s' n = None"
proof (induction s "Did i (EvUnlock n)" s' rule: cstep.induct)
  case (api_call s e w')
  have "ask (EvUnlock n) = ask e" using ask_serve [of K e "p_world s"] unfolding api_call by (simp only: fst_conv)
  from is_call_cong [OF this] api_call(3) show ?case by simp
qed (simp_all add: log_event_def)

lemma in_order_length: "in_order n es \<Longrightarrow> length es \<le> 2"
  by (cases "(n, es)" rule: in_order.cases) simp_all

context kube_client
begin

lemma holder_goes_on:
  assumes "csteps K E (empty_pool w) ls s" and "i < length (p_runs s)"
    and sect: "section_of (p_runs s ! i) = Some (Some (n, es))"
  shows "\<exists>e s'. cstep K E s (Did i e) s' \<and>
    (p_holder s' n = None \<or> section_of (p_runs s' ! i) = Some (Some (n, es @ [e])))"
proof -
  note course = reached_on_course [OF assms(1,2)]
  have "next_event K (p_runs s ! i) \<noteq> None"
    using section_course [OF course] sect next_None [OF course] by (metis option.inject option.simps(3))
  then obtain e0 where e0: "next_event K (p_runs s ! i) = Some e0" by auto
  from assms(1,2) e0 obtain s0 where s0: "sectionRun (unguarded (deletes (og_done (p_runs s ! i)))) (Some (n, es)) [e0] = Some s0"
    using sect by (metis reached_section option.inject)
  have "\<exists>e s'. cstep K E s (Did i e) s' \<and> ask e = ask e0"
    by (rule can_step [OF assms(2) e0]) (use s0 in auto)
  then obtain e s' where step: "cstep K E s (Did i e) s'" and ask: "ask e = ask e0" by blast
  note next_runs = step_log [OF step]
  have courses: "section_of (with_event e (p_runs s ! i)) \<noteq> None"
    using section_of_course [OF reached_on_course [OF csteps.move [OF assms(1) step], of i]] next_runs by simp
  then have after: "sectionRun (\<lambda>_. True) (Some (n, es)) [e] = section_of (with_event e (p_runs s ! i))"
    by (simp add: section_of_extend sect)
  show ?thesis
  proof (cases "\<exists>m. e = EvUnlock m")
    case True
    then obtain m where m: "e = EvUnlock m" by blast
    with after courses have "m = n" by (auto split: if_splits)
    with m step have "cstep K E s (Did i (EvUnlock n)) s'" by simp
    then have "p_holder s' n = None" by (rule unlocked)
    with step show ?thesis by blast
  next
    case False
    with after courses have "section_of (with_event e (p_runs s ! i)) = Some (Some (n, es @ [e]))"
      by (cases e) (auto split: if_splits)
    moreover have "p_runs s' ! i = with_event e (p_runs s ! i)" using next_runs by simp
    ultimately show ?thesis using step by metis
  qed
qed

lemma holder_releases:
  assumes "csteps K E (empty_pool w) ls s" and "i < length (p_runs s)"
    and "section_of (p_runs s ! i) = Some (Some (n, es))"
  shows "\<exists>ks s'. csteps K E s ks s' \<and> length ks + length es \<le> 3 \<and> list_all (\<lambda>l. \<exists>e. l = Did i e) ks \<and> p_holder s' n = None"
  using assms
proof (induction "2 - length es" arbitrary: ls s es rule: less_induct)
  case less
  have len: "length es \<le> 2"
    using section_facts(1) [OF less.prems(3) reached_lawful [OF less.prems(1,2)]] by (rule in_order_length)
  from holder_goes_on [OF less.prems] obtain e s' where step: "cstep K E s (Did i e) s'"
    and cont: "p_holder s' n = None \<or> section_of (p_runs s' ! i) = Some (Some (n, es @ [e]))" by blast
  show ?case
  proof (cases "p_holder s' n = None")
    case True
    with csteps_one [OF step] len show ?thesis by (intro exI [of _ "[Did i e]"]) auto
  next
    case False
    note reached = csteps.move [OF less.prems(1) step]
    have i: "i < length (p_runs s')" using step_log [OF step] by simp
    from cont False have sect: "section_of (p_runs s' ! i) = Some (Some (n, es @ [e]))" by metis
    have "length (es @ [e]) \<le> 2"
      using section_facts(1) [OF sect reached_lawful [OF reached i]] by (rule in_order_length)
    then have "2 - length (es @ [e]) < 2 - length es" by simp
    from less.hyps [OF this reached i sect] obtain ks s2 where "csteps K E s' ks s2" "length ks + length (es @ [e]) \<le> 3"
      "list_all (\<lambda>l. \<exists>e. l = Did i e) ks" "p_holder s2 n = None" by blast
    with csteps_trans [OF _ csteps_one [OF step], of ks s2] show ?thesis
      by (intro exI [of _ "Did i e # ks"] exI [of _ s2]) auto
  qed
qed

end

text \<open>
  C6: no deadlock, and no one waits long.  In every state that concurrent requests reach, a request that is not at its end
  can make its next event, or it waits for a mutex that another request holds; and that one is at most three of its
  own events (the rest of its section), none of which can block, away from releasing it.
\<close>

theorem concurrent_requests_progress:
  assumes "kube_client K" and "csteps K E (empty_pool w) ls s" and "i < length (p_runs s)"
  shows "case next_event K (p_runs s ! i) of
      None \<Rightarrow> course K (p_runs s ! i) = og_done (p_runs s ! i)
    | Some e \<Rightarrow> (\<exists>e' s'. cstep K E s (Did i e') s' \<and> ask e' = ask e) \<or>
        (\<exists>n k ks s'. e = EvLock n \<and> k \<noteq> i \<and> holds n (p_runs s ! k) \<and> csteps K E s ks s' \<and> length ks \<le> 3 \<and>
           list_all (\<lambda>l. \<exists>e. l = Did k e) ks \<and> p_holder s' n = None)"
proof (cases "next_event K (p_runs s ! i)")
  case None
  then show ?thesis using next_None [OF kube_client.reached_on_course [OF assms]] by simp
next
  case (Some e)
  show ?thesis
  proof (cases "\<exists>n k. e = EvLock n \<and> p_holder s n = Some k")
    case False
    then have "\<exists>e' s'. cstep K E s (Did i e') s' \<and> ask e' = ask e"
      by (intro can_step [OF assms(3) Some]) auto
    with Some show ?thesis by simp
  next
    case True
    then obtain n k where e: "e = EvLock n" and "p_holder s n = Some k" by blast
    with locks_agreeD [OF kube_client.reached_agree [OF assms(1,2)]]
    have k: "k < length (p_runs s)" "holds n (p_runs s ! k)" by simp_all
    from k(2) obtain es where sect: "section_of (p_runs s ! k) = Some (Some (n, es))" by (auto simp: holds_def)
    from kube_client.holder_releases [OF assms(1,2) k(1) sect] obtain ks s'
      where rel: "csteps K E s ks s'" "length ks \<le> 3" "list_all (\<lambda>l. \<exists>e. l = Did k e) ks" "p_holder s' n = None"
      by fastforce
    have "k \<noteq> i"
    proof
      assume "k = i"
      from kube_client.reached_section [OF assms(1,2,3) Some] obtain sect1 s1
        where "section_of (p_runs s ! i) = Some sect1"
          "sectionRun (unguarded (deletes (og_done (p_runs s ! i)))) sect1 [e] = Some s1" by metis
      with \<open>k = i\<close> sect e show False by simp
    qed
    with e k rel have "e = EvLock n \<and> k \<noteq> i \<and> holds n (p_runs s ! k) \<and> csteps K E s ks s' \<and> length ks \<le> 3 \<and>
        list_all (\<lambda>l. \<exists>e. l = Did k e) ks \<and> p_holder s' n = None" by blast
    then have "\<exists>n k ks s'. e = EvLock n \<and> k \<noteq> i \<and> holds n (p_runs s ! k) \<and> csteps K E s ks s' \<and> length ks \<le> 3 \<and>
        list_all (\<lambda>l. \<exists>e. l = Did k e) ks \<and> p_holder s' n = None" by (intro exI)
    then show ?thesis unfolding Some option.case by (rule disjI2)
  qed
qed


lemma concurrent_requests_progress_witness:
  "\<exists>ls s k ks s'. csteps mem_kube (\<lambda>_ _. False) (empty_pool sample_cluster) ls s \<and> length (p_runs s) = 2 \<and>
    next_event mem_kube (p_runs s ! 1) = Some (EvLock ''web-portal'') \<and> p_holder s ''web-portal'' = Some 0 \<and>
    holds ''web-portal'' (p_runs s ! k) \<and> csteps mem_kube (\<lambda>_ _. False) s ks s' \<and> length ks \<le> 3 \<and>
    list_all (\<lambda>l. \<exists>e. l = Did k e) ks \<and> p_holder s' ''web-portal'' = None"
proof -
  obtain ls s where run: "csteps mem_kube (\<lambda>_ _. False) (empty_pool sample_cluster) ls s" "length (p_runs s) = 2"
    and held: "p_holder s ''web-portal'' = Some 0" and waits: "next_event mem_kube (p_runs s ! 1) = Some (EvLock ''web-portal'')"
    by (rule waiting_steps)
  have "1 < length (p_runs s)" using run(2) by simp
  note progress = concurrent_requests_progress [OF mem.kube_client_axioms run(1) this, unfolded waits option.case]
  have "\<not> cstep mem_kube (\<lambda>_ _. False) s (Did 1 e') s'" if "ask e' = ask (EvLock ''web-portal'')" for e' s'
  proof
    assume "cstep mem_kube (\<lambda>_ _. False) s (Did 1 e') s'"
    moreover have "e' = EvLock ''web-portal''" using that by (cases e') simp_all
    ultimately have "cstep mem_kube (\<lambda>_ _. False) s (Did 1 (EvLock ''web-portal'')) s'" by simp
    then show False by (cases rule: cstep.cases) (use waits held in auto)
  qed
  with progress run held waits show ?thesis by blast
qed

section \<open>A request alone\<close>

text \<open>The clock that a request sees when it runs alone, from \<open>w\<close>, with the events \<open>t\<close>.\<close>

definition clock_of :: "'w kube \<Rightarrow> event list \<Rightarrow> 'w \<Rightarrow> nat \<Rightarrow> Time" where
  "clock_of K t w i = (if i < length (ticks K t w) then ticks K t w ! i else 0)"

lemma begins_script_of: "begins (script_of (clock_of K t w) t) (filter is_call t) (ticks K t w)"
  by (simp add: begins_def script_of_def clock_of_def ncalls_def)

lemma noncall_world: "cstep K E s (Did i e) s' \<Longrightarrow> \<not> is_call e \<Longrightarrow> p_world s' = p_world s"
proof (induction s "Did i e" s' rule: cstep.induct)
  case (api_call s e0 w')
  have "ask e = ask e0" using ask_serve [of K e0 "p_world s"] unfolding api_call by (simp only: fst_conv)
  from is_call_cong [OF this] api_call show ?case by simp
qed (simp_all add: log_event_def)

context kube_client
begin

lemma Reconcile_follows: "follows K (Reconcile K req) (Reconcile (script_kube K) req)"
  using interactive_Reconcile unfolding interactive_def by blast

lemma script_run:
  assumes "Reconcile K req w = (r, t, w')"
  shows "Reconcile (script_kube K) req (script_of (clock_of K t w) t) = (r, t, advance (ncalls t) (script_of (clock_of K t w) t))"
  by (rule followsD(2) [OF Reconcile_follows assms]) (rule begins_script_of)

lemma free_for_lock:
  assumes "csteps K E (empty_pool w) ls s" and "p_runs s = [og]" and "next_event K og = Some (EvLock n)"
  shows "p_holder s n = None"
proof (rule ccontr)
  assume "p_holder s n \<noteq> None"
  then obtain k where "p_holder s n = Some k" by blast
  with locks_agreeD [OF reached_agree [OF assms(1)]] assms(2) have held: "holds n og" by fastforce
  have "0 < length (p_runs s)" "next_event K (p_runs s ! 0) = Some (EvLock n)" using assms(2,3) by simp_all
  from reached_section [OF assms(1) this] obtain sect s1
    where "section_of og = Some sect" "sectionRun (unguarded (deletes (og_done og))) sect [EvLock n] = Some s1"
    using assms(2) by (metis nth_Cons_0)
  with held show False by (auto simp: holds_def)
qed

lemma alone_prefix:
  assumes "Reconcile K req w = (r, t, w')" and "t = h @ rest"
  shows "\<exists>s. csteps K E (empty_pool w) (Begun req # map (Did 0) h) s \<and>
    p_runs s = [\<lparr>og_req = req, og_clock = clock_of K t w, og_done = h\<rparr>] \<and> performs K rest (p_world s) w'"
  using assms(2)
proof (induction h arbitrary: rest rule: rev_induct)
  case Nil
  let ?s = "empty_pool w\<lparr>p_runs := p_runs (empty_pool w) @ [\<lparr>og_req = req, og_clock = clock_of K t w, og_done = []\<rparr>]\<rparr>"
  have "csteps K E (empty_pool w) [Begun req] ?s" by (intro csteps_one request)
  moreover have "performs K rest w w'" using followsD(1) [OF Reconcile_follows assms(1)] Nil by simp
  ultimately show ?case by (intro exI [of _ ?s]) (simp add: empty_pool_def)
next
  case (snoc e h)
  let ?c = "clock_of K t w" and ?og = "\<lparr>og_req = req, og_clock = clock_of K t w, og_done = h\<rparr>"
  from snoc.IH [of "e # rest"] snoc.prems obtain s
    where reached: "csteps K E (empty_pool w) (Begun req # map (Did 0) h) s" and runs: "p_runs s = [?og]"
      and perf: "performs K (e # rest) (p_world s) w'" by auto
  note script_run [OF assms(1)]
  moreover have "agree (ncalls h) (script_of ?c t) (script_of ?c h)"
    unfolding snoc.prems by (simp add: agree_def script_of_def nth_append ncalls_def)
  ultimately obtain e0 rest0 where "trace_of (Reconcile (script_kube K) req) (script_of ?c h) = h @ e0 # rest0"
    and ask: "ask e0 = ask e"
    using causalD(3) [OF causal_Reconcile, of req "script_of ?c t" r t _ h e rest "script_of ?c h"] snoc.prems
    unfolding takes_def by fastforce
  then have next_e: "next_event K ?og = Some e0" by (simp add: next_event_def course_def Let_def)
  have i: "0 < length (p_runs s)" and next_i: "next_event K (p_runs s ! 0) = Some e0" using runs next_e by simp_all
  have "\<exists>s'. cstep K E s (Did 0 e) s' \<and> performs K rest (p_world s') w'"
  proof (cases "is_call e")
    case True
    with ask have call: "is_call e0" using is_call_cong by blast
    have "serve K e0 (p_world s) = (e, snd (serve K e (p_world s)))"
      using perf serve_ask [OF ask, of K "p_world s"] by (simp add: prod_eq_iff)
    from api_call [OF i next_i call this, of E] perf show ?thesis
      by (intro exI [of _ "log_event 0 e (s\<lparr>p_world := snd (serve K e (p_world s))\<rparr>)"]) (simp add: log_event_def)
  next
    case False
    with ask have e0: "e0 = e" using ask_noncall [OF False] by metis
    from can_step [OF i next_i] free_for_lock [OF reached runs] next_e obtain e' s'
      where step: "cstep K E s (Did 0 e') s'" and "ask e' = ask e0" by metis
    with e0 have "e' = e" using ask_noncall [OF False] by metis
    moreover have "serve K e (p_world s) = (e, p_world s)" using False by (rule serve_noncall)
    ultimately show ?thesis using step noncall_world [OF step] perf False by auto
  qed
  then obtain s' where step: "cstep K E s (Did 0 e) s'" and perf': "performs K rest (p_world s') w'" by blast
  from csteps.move [OF reached step] step_log [OF step] perf' runs show ?case
    by (intro exI [of _ s']) (simp add: with_event_def)
qed

lemma alone_run:
  assumes "Reconcile K req w = (r, t, w')"
  shows "\<exists>s og. csteps K E (empty_pool w) (Begun req # map (Did 0) t) s \<and> p_world s = w' \<and> p_holder s = Map.empty \<and>
    p_runs s = [og] \<and> og_done og = t \<and> next_event K og = None \<and> outcome K og = r"
proof -
  let ?og = "\<lparr>og_req = req, og_clock = clock_of K t w, og_done = t\<rparr>"
  from alone_prefix [OF assms, of t "[]" E] obtain s
    where reached: "csteps K E (empty_pool w) (Begun req # map (Did 0) t) s" and runs: "p_runs s = [?og]"
      and world: "p_world s = w'" by auto
  have "Reconcile (script_kube K) req (script_of (clock_of K t w) t) = (r, t, advance (ncalls t) (script_of (clock_of K t w) t))"
    by (rule script_run [OF assms])
  then have og: "course K ?og = t" "outcome K ?og = r" by (simp_all add: course_def outcome_def)
  then have "next_event K ?og = None" by (simp add: next_event_def)
  moreover have "p_holder s n = None" for n
  proof (rule ccontr)
    assume "p_holder s n \<noteq> None"
    then obtain k where "p_holder s n = Some k" by blast
    with locks_agreeD [OF reached_agree [OF reached]] runs have "holds n ?og" by fastforce
    moreover have "on_course K ?og" using og by (simp add: on_course_def)
    ultimately show False using og by (auto simp: holds_def elim!: section_course)
  qed
  ultimately show ?thesis using reached runs world og by (intro exI [of _ s] exI [of _ ?og]) auto
qed

end



end
