(* ===== verification/Write_Feedback.thy ===== *)
theory Write_Feedback imports Drift_Repair begin

text \<open>
  A reconciliation compares nothing: it writes every resource of the class each time, and the watch of the types asks for the
  same request again when the API server reports such a write as a change.
\<close>

section \<open>The writes of a reconciliation\<close>

text \<open>The object that an event has written.\<close>

fun wrote :: "event \<Rightarrow> Unstructured option" where
  "wrote (EvCreate u (Inr x)) = Some u"
| "wrote (EvUpdateObj u (Inr x)) = Some u"
| "wrote _ = None"

text \<open>\<open>writes_all K n c rs t\<close>: each resource was written, with the owner label.\<close>

definition writes_all :: "'w kube \<Rightarrow> string \<Rightarrow> string \<Rightarrow> RawExtension list \<Rightarrow> event list \<Rightarrow> bool" where
  "writes_all K n c rs t \<longleftrightarrow>
     (\<forall>res\<in>set rs. \<exists>x p e. convertRawToUnstructured K res = Inr x \<and> e \<in> set t \<and> wrote e = Some p \<and> owned_by n c p \<and>
        u_GVK p = u_GVK x \<and> u_Name p = u_Name x)"

lemma writes_all_mono: "writes_all K n c rs t \<Longrightarrow> set t \<subseteq> set t' \<Longrightarrow> writes_all K n c rs t'"
  unfolding writes_all_def by (meson subsetD)

lemma applyResource_writes:
  assumes "applyResourceToNamespace K ns nc res w = (Ok x, t, w')"
  shows "writes_all K (ns_Name ns) (nc_Name nc) [res] t"
proof -
  from assms obtain u where u: "convertRawToUnstructured K res = Inr u"
    by (cases "convertRawToUnstructured K res") (auto simp: applyResourceToNamespace_def go_defs)
  let ?p = "prepared u (ns_Name ns) (nc_Name nc)"
  have owned: "owned_by (ns_Name ns) (nc_Name nc) ?p" "owned_by (ns_Name ns) (nc_Name nc) (?p\<lparr>u_ResourceVersion := v\<rparr>)" for v
    using prepared_owned [of "ns_Name ns" "nc_Name nc" u] by (simp_all add: owned_by_def)
  have "\<exists>p e. e \<in> set t \<and> wrote e = Some p \<and> (p = ?p \<or> (\<exists>v. p = ?p\<lparr>u_ResourceVersion := v\<rparr>))"
    using assms u
    by (auto simp: applyResourceToNamespace_def applyUnstructuredResource_def updateUnstructuredResource_def prepare_eq
        liftE_def wrap_run_Ok bind_return createObj_def updateObj_def call_run_Ok failG_def wrapG_def returnG_def
        elim!: bind_runE split: sum.splits if_splits prod.splits res.splits) fastforce+
  with u owned show ?thesis by (fastforce simp: writes_all_def)
qed

context kube_client
begin

lemma applyResources_writes:
  assumes "applyResources K nc latest rs w = (Ok (), t, w')" and "list_all (\<lambda>e. \<not> ns_gone K e) t"
  shows "writes_all K (ns_Name latest) (nc_Name nc) rs t"
  using assms
proof (induction rs arbitrary: latest w t)
  case Nil
  show ?case by (simp add: writes_all_def)
next
  case (Cons r rs)
  obtain a w1 where get: "k_getNs K (ns_Name latest) w = (a, w1)" by (cases "k_getNs K (ns_Name latest) w")
  with Cons.prems obtain l where a: "a = Inr l" "ns_DeletionTimestamp l = None"
    by (cases a) (auto simp: getNs_def go_defs split: if_splits)
  with get have name: "ns_Name l = ns_Name latest" by (auto dest: getNs_name)
  let ?m = "bindG (applyResourceToNamespace K l nc r) (\<lambda>_. applyResources K nc l rs)"
  obtain s where run: "?m w1 = (Ok (), s, w')" "t = EvGetNs (ns_Name latest) (Inr l) # s"
    using Cons.prems(1) get a by (cases "?m w1") (simp add: try_getNs_run)
  from run(1) obtain t1 w2 t2 where apply_r: "applyResourceToNamespace K l nc r w1 = (Ok (), t1, w2)"
    and rest: "applyResources K nc l rs w2 = (Ok (), t2, w')" "s = t1 @ t2"
    by (auto elim!: bind_runE)
  have "writes_all K (ns_Name l) (nc_Name nc) rs t2" using Cons.IH [OF rest(1)] Cons.prems(2) run(2) rest(2) by simp
  with applyResource_writes [OF apply_r] have "writes_all K (ns_Name l) (nc_Name nc) [r] t" "writes_all K (ns_Name l) (nc_Name nc) rs t"
    using run(2) rest(2) by (auto intro: writes_all_mono)
  then show ?case unfolding name by (simp add: writes_all_def)
qed

lemma resources_write:
  assumes "reconcileNamespaceClassResources K ns nc w = (Ok (), t, w')" and "list_all (\<lambda>e. \<not> ns_gone K e) t"
    and "ns_DeletionTimestamp ns = None"
  shows "writes_all K (ns_Name ns) (nc_Name nc) (Resources (Spec nc)) t"
proof (cases "Resources (Spec nc) = []")
  case True
  then show ?thesis by (simp add: writes_all_def)
next
  case False
  obtain l w2 t1 t2 where run: "applyResources K nc l (Resources (Spec nc)) w2 = (Ok (), t2, w')"
    and "ns_Name l = ns_Name ns" "t = t1 @ t2"
    by (rule resources_run [OF assms False])
  with applyResources_writes [OF run] assms(2) show ?thesis by (auto intro: writes_all_mono)
qed

lemma reconcile_writes:
  assumes "reconcileNamespaceWithClass K ns nc w = (Ok (), t, w')" and "list_all (\<lambda>e. \<not> ns_gone K e) t"
  shows "writes_all K (ns_Name ns) (nc_Name nc) (Resources (Spec nc)) t"
proof -
  obtain a w0 where get: "k_getNs K (ns_Name ns) w = (a, w0)" by (cases "k_getNs K (ns_Name ns) w")
  with assms(1) obtain latest where a: "a = Inr latest"
    by (cases a) (auto simp: reconcile_eq getNs_def go_defs)
  from assms(1) obtain s where run: "reconcileLatest K nc latest w0 = (Ok (), s, w')"
    and t: "t = EvGetNs (ns_Name ns) (Inr latest) # s"
    by (cases "reconcileLatest K nc latest w0") (simp add: reconcile_run [OF get [unfolded a]])
  from reconcileLatest_applies [OF run] obtain w1 t0 t1 w2 t2
    where res: "reconcileNamespaceClassResources K latest nc w1 = (Ok (), t1, w2)" and s: "s = t0 @ t1 @ t2" by blast
  from get a have "ns_Name latest = ns_Name ns" by (auto dest: getNs_name)
  with resources_write [OF res] assms(2) t s show ?thesis by (auto intro: writes_all_mono)
qed

end

text \<open>The requests of an update whose new object is owned.\<close>

lemma object_requests_new:
  "has_label (u_Labels p) NamespaceClassOwner c \<Longrightarrow> c \<noteq> '''' \<Longrightarrow> u_Namespace p \<noteq> '''' \<Longrightarrow>
    byName (u_Namespace p) \<in> set (object_requests (UpdateEvent old p))"
  by (auto simp: object_requests_def enqueueForOwningNamespaceClass_def dest: has_label_read)

section \<open>Properties\<close>

text \<open>
  C35: nothing is compared.  Each time a request for a namespace of a class succeeds (the namespace is there and not seen to go), it
  has written every resource of the class, whether or not the object differed; and for each of these writes, if its type is
  watched, the update event that the write may cause puts the request for the same namespace into a queue again.  So it is only
  a server that reports no event for a write that changes nothing that lets the controller come to rest.
\<close>

theorem every_request_writes_again:
  assumes "kube_client K" and "mstep K s (Served (byName n) (Ok r) t) s'" and "n \<noteq> ''''"
    and "k_getClass K (byName n) (m_cluster s) = (Inl err, w1)" and "IsNotFound K err"
    and "k_getNs K n w1 = (Inr ns, w2)" and "ns_DeletionTimestamp ns = None"
    and "c = map_read (ns_Labels ns) NamespaceClassLabel" and "c \<noteq> ''''"
    and "list_all (\<lambda>e. \<not> ns_gone K e) t"
  shows "\<exists>nc. EvGetClass (byName c) (Inr nc) \<in> set t \<and> (\<forall>res\<in>set (Resources (Spec nc)). \<exists>x p e.
    convertRawToUnstructured K res = Inr x \<and> e \<in> set t \<and> wrote e = Some p \<and> u_GVK p = u_GVK x \<and> obj_key p = keyIn n x \<and>
    (u_GVK p \<in> m_watched s' \<longrightarrow> (\<forall>old. u_GVK old = u_GVK p \<longrightarrow> (\<exists>s''. mstep K s' Noticed s'' \<and>
       s'' = enqueue (controllerName (u_GVK p)) (object_requests (UpdateEvent old p)) s' \<and>
       (controllerName (u_GVK p), byName n) \<in> m_queue s''))))"
proof -
  have run: "Reconcile K (byName n) (m_cluster s) = (Ok r, t, m_cluster s')" using assms(2) by (auto elim: mstepE)
  obtain nc w3 v where nc: "k_getClass K (byName c) w2 = (Inr nc, w3)"
    and rec: "reconcileNamespaceWithClass K ns nc w3 = (Ok (), v, m_cluster s')"
    and t: "t = [EvGetClass (byName n) (Inl err), EvGetNs n (Inr ns), EvGetClass (byName c) (Inr nc)] @ v"
    by (rule namespace_request_run [OF run assms(4-9)])
  have names: "nc_Name nc = c" "ns_Name ns = n"
    using kube_client.getClass_name [OF assms(1) nc] kube_client.getNs_name [OF assms(1) assms(6)] by (simp_all add: byName_def)
  have "list_all (\<lambda>e. \<not> ns_gone K e) v" using assms(10) t by simp
  from kube_client.reconcile_writes [OF assms(1) rec this] have writes: "writes_all K n c (Resources (Spec nc)) v"
    unfolding names .
  have again: "\<exists>s''. mstep K s' Noticed s'' \<and>
       s'' = enqueue (controllerName (u_GVK p)) (object_requests (UpdateEvent old p)) s' \<and>
       (controllerName (u_GVK p), byName n) \<in> m_queue s''"
    if "owned_by n c p" "u_GVK p \<in> m_watched s'" "u_GVK old = u_GVK p" for p old
  proof (intro exI conjI)
    show "mstep K s' Noticed (enqueue (controllerName (u_GVK p)) (object_requests (UpdateEvent old p)) s')"
      by (rule mstep.object_event [OF that(2)]) (use that(3) in simp)
    show "(controllerName (u_GVK p), byName n) \<in> m_queue (enqueue (controllerName (u_GVK p)) (object_requests (UpdateEvent old p)) s')"
      using object_requests_new [of p c old] that(1) assms(3,9) by (simp add: enqueue_def owned_by_def)
  qed simp
  show ?thesis
  proof (rule exI [of _ nc], rule conjI [OF _ ballI])
    show "EvGetClass (byName c) (Inr nc) \<in> set t" using t by simp
    fix res
    assume "res \<in> set (Resources (Spec nc))"
    with writes obtain x p e where "convertRawToUnstructured K res = Inr x" "e \<in> set v" "wrote e = Some p" "owned_by n c p"
        "u_GVK p = u_GVK x" "u_Name p = u_Name x" unfolding writes_all_def by blast
    from again [OF this(4)] have "convertRawToUnstructured K res = Inr x \<and> e \<in> set t \<and> wrote e = Some p \<and> u_GVK p = u_GVK x \<and>
      obj_key p = keyIn n x \<and>
      (u_GVK p \<in> m_watched s' \<longrightarrow> (\<forall>old. u_GVK old = u_GVK p \<longrightarrow> (\<exists>s''. mstep K s' Noticed s'' \<and>
        s'' = enqueue (controllerName (u_GVK p)) (object_requests (UpdateEvent old p)) s' \<and>
        (controllerName (u_GVK p), byName n) \<in> m_queue s'')))"
      using \<open>convertRawToUnstructured K res = Inr x\<close> \<open>e \<in> set v\<close> \<open>wrote e = Some p\<close> \<open>owned_by n c p\<close>
        \<open>u_GVK p = u_GVK x\<close> \<open>u_Name p = u_Name x\<close> t
      by (auto simp: obj_key_def keyIn_def owned_by_def)
    then show "\<exists>x p e.
      convertRawToUnstructured K res = Inr x \<and> e \<in> set t \<and> wrote e = Some p \<and> u_GVK p = u_GVK x \<and> obj_key p = keyIn n x \<and>
      (u_GVK p \<in> m_watched s' \<longrightarrow> (\<forall>old. u_GVK old = u_GVK p \<longrightarrow> (\<exists>s''. mstep K s' Noticed s'' \<and>
        s'' = enqueue (controllerName (u_GVK p)) (object_requests (UpdateEvent old p)) s' \<and>
        (controllerName (u_GVK p), byName n) \<in> m_queue s'')))"
      by blast
  qed
qed

text \<open>The namespace of \<open>drifted_cluster\<close>, asked for again by the main controller.\<close>

lemma every_request_writes_again_witness:
  "\<exists>s r t s'. mstep mem_kube s (Served (byName ''web-portal'') (Ok r) t) s' \<and> m_cluster s = drifted_cluster \<and>
    (\<exists>nc. EvGetClass (byName ''public-network'') (Inr nc) \<in> set t \<and> (\<forall>res\<in>set (Resources (Spec nc)). \<exists>x p e.
    convertRawToUnstructured mem_kube res = Inr x \<and> e \<in> set t \<and> wrote e = Some p \<and> u_GVK p = u_GVK x \<and>
    obj_key p = keyIn ''web-portal'' x \<and>
    (u_GVK p \<in> m_watched s' \<longrightarrow> (\<forall>old. u_GVK old = u_GVK p \<longrightarrow> (\<exists>s''. mstep mem_kube s' Noticed s'' \<and>
       s'' = enqueue (controllerName (u_GVK p)) (object_requests (UpdateEvent old p)) s' \<and>
       (controllerName (u_GVK p), byName ''web-portal'') \<in> m_queue s'')))))"
proof -
  let ?run = "Reconcile mem_kube (byName ''web-portal'') drifted_cluster"
  let ?s = "\<lparr>m_cluster = drifted_cluster, m_watched = {u_GVK deleted_object}, m_queue = {(''namespaceclass'', byName ''web-portal'')}, m_sleeping = {#}\<rparr>"
  have ok: "fst ?run = Ok \<lparr>Requeue = False\<rparr>" by code_simp
  have here: "list_all (\<lambda>e. \<not> ns_gone mem_kube e) (fst (snd ?run))" by code_simp
  have "Reconcile mem_kube (byName ''web-portal'') (m_cluster ?s) = (Ok \<lparr>Requeue = False\<rparr>, fst (snd ?run), snd (snd ?run))"
    using ok by (simp add: prod_eq_iff)
  from mstep.serve [OF _ this] obtain s' where served: "mstep mem_kube ?s (Served (byName ''web-portal'') (Ok \<lparr>Requeue = False\<rparr>) (fst (snd ?run))) s'"
    by auto
  have cls: "k_getClass mem_kube (byName ''web-portal'') (m_cluster ?s) = (Inl not_found, drifted_cluster)" "IsNotFound mem_kube not_found"
    and get: "k_getNs mem_kube ''web-portal'' drifted_cluster = (Inr repaired_namespace, drifted_cluster)"
      "ns_DeletionTimestamp repaired_namespace = None" "''public-network'' = map_read (ns_Labels repaired_namespace) NamespaceClassLabel"
    and names: "''web-portal'' \<noteq> ''''" "''public-network'' \<noteq> ''''"
    by (simp_all add: mem_kube_def mem_getClass_def mem_getNs_def find_or_def byName_def drifted_cluster_def repaired_namespace_def
        sample_defs zero_NamespaceClass_def map_read_def)
  note again = every_request_writes_again [OF mem.kube_client_axioms served names(1) cls get names(2) here]
  show ?thesis
    by (rule exI [of _ ?s], rule exI [of _ "\<lparr>Requeue = False\<rparr>"], rule exI [of _ "fst (snd ?run)"], rule exI [of _ s'])
      (intro conjI, rule served, simp, rule again)
qed

end
