(* ===== verification/Concurrent_Writes.thy ===== *)
theory Concurrent_Writes imports Concurrent_Reconcile Write_Feedback begin

text \<open>
  What a request for a namespace achieves among others: a success means that the class was applied, whatever ran at the same
  time and however old the reads were.
\<close>

lemma ns_gone_script: "ns_gone (script_kube K) = ns_gone K"
proof
  fix e
  show "ns_gone (script_kube K) e = ns_gone K e" by (cases "(K, e)" rule: ns_gone.cases) simp_all
qed

lemma first_reads:
  assumes "Reconcile K (byName n) w = (Ok r, EvGetClass (byName n) (Inl err) # EvGetNs n (Inr ns) # t, w')"
    and "IsNotFound K err"
  shows "\<exists>w1 w2. k_getClass K (byName n) w = (Inl err, w1) \<and> k_getNs K n w1 = (Inr ns, w2)"
proof -
  obtain a w1 where a: "k_getClass K (byName n) w = (a, w1)" by (cases "k_getClass K (byName n) w")
  with assms have "a = Inl err" by (cases a) (auto simp: Reconcile_def getClass_def go_defs split: prod.splits)
  obtain b w2 where b: "k_getNs K n w1 = (b, w2)" by (cases "k_getNs K n w1")
  have "b = Inr ns"
    using assms a b \<open>a = Inl err\<close>
    by (cases b) (auto simp: Reconcile_def reconcileNamespaceRequest_def getNamespace_def getClass_def getNs_def byName_def go_defs
        split: prod.splits if_splits)
  with a b \<open>a = Inl err\<close> show ?thesis by blast
qed

context kube_client
begin

lemma namespace_request_writes:
  assumes run: "Reconcile K (byName n) w = (Ok r, EvGetClass (byName n) (Inl err) # EvGetNs n (Inr ns) # t, w')"
    and err: "IsNotFound K err" and live: "ns_DeletionTimestamp ns = None"
    and label: "c = map_read (ns_Labels ns) NamespaceClassLabel" "c \<noteq> ''''"
    and here: "list_all (\<lambda>e. \<not> ns_gone K e) t"
  shows "\<exists>nc. EvGetClass (byName c) (Inr nc) \<in> set t \<and> writes_all K n c (Resources (Spec nc)) t"
proof -
  from first_reads [OF run err] obtain w1 w2 where cls: "k_getClass K (byName n) w = (Inl err, w1)"
    and get: "k_getNs K n w1 = (Inr ns, w2)" by blast
  obtain nc w3 v where nc: "k_getClass K (byName c) w2 = (Inr nc, w3)"
    and rec: "reconcileNamespaceWithClass K ns nc w3 = (Ok (), v, w')"
    and t: "t = EvGetClass (byName c) (Inr nc) # v"
    by (rule namespace_request_run [OF run cls err get live label]) simp
  have names: "nc_Name nc = c" "ns_Name ns = n"
    using getClass_name [OF nc] getNs_name [OF get] by (simp_all add: byName_def)
  have "list_all (\<lambda>e. \<not> ns_gone K e) v" using here t by simp
  from reconcile_writes [OF rec this] have "writes_all K n c (Resources (Spec nc)) v" unfolding names .
  with t show ?thesis by (intro exI [of _ nc]) (auto intro: writes_all_mono)
qed

end

lemma finished_run:
  assumes "kube_client K" and "csteps K E (empty_pool w) ls s" and "i < length (p_runs s)" and "next_event K (p_runs s ! i) = None"
  shows "\<exists>w0 w1. Reconcile (script_kube K) (og_req (p_runs s ! i)) w0 = (outcome K (p_runs s ! i), events_of i ls, w1)"
proof -
  have "course K (p_runs s ! i) = og_done (p_runs s ! i)"
    using next_None [OF kube_client.reached_on_course [OF assms(1-3)]] assms(4) by simp
  then show ?thesis unfolding done_is_log [OF assms(2,3)] course_def outcome_def by (metis prod.collapse)
qed

text \<open>
  C4: a success means that the class was applied.  Among any number of concurrent requests, on any client, with reads of any
  age and with anyone else changing the cluster: when a request for a namespace (found, not going, with a class label, and not
  named like a class) has ended without an error, it has written every resource of the class it read, each with an answer of
  success, into that namespace with the class's owner label.
\<close>

theorem concurrent_success_writes_class:
  assumes "kube_client K" and "csteps K E (empty_pool w) ls s" and "i < length (p_runs s)"
    and "og_req (p_runs s ! i) = byName n" and "next_event K (p_runs s ! i) = None" and "outcome K (p_runs s ! i) = Ok r"
    and "events_of i ls = EvGetClass (byName n) (Inl err) # EvGetNs n (Inr ns) # t" and "IsNotFound K err"
    and "ns_DeletionTimestamp ns = None" and "c = map_read (ns_Labels ns) NamespaceClassLabel" and "c \<noteq> ''''"
    and "list_all (\<lambda>e. \<not> ns_gone K e) t"
  shows "\<exists>nc. EvGetClass (byName c) (Inr nc) \<in> set t \<and> (\<forall>res\<in>set (Resources (Spec nc)). \<exists>x p e.
    convertRawToUnstructured K res = Inr x \<and> e \<in> set t \<and> wrote e = Some p \<and> obj_key p = keyIn n x \<and>
    has_label (u_Labels p) NamespaceClassOwner c)"
proof -
  from finished_run [OF assms(1,2,3,5)] obtain w0 w1 where run:
    "Reconcile (script_kube K) (byName n) w0 = (Ok r, EvGetClass (byName n) (Inl err) # EvGetNs n (Inr ns) # t, w1)"
    unfolding assms(4,6,7) by blast
  have "IsNotFound (script_kube K) err" "list_all (\<lambda>e. \<not> ns_gone (script_kube K) e) t"
    using assms(8,12) by (simp_all add: ns_gone_script)
  from kube_client.namespace_request_writes [OF script.kube_client_axioms run this(1) assms(9-11) this(2)] obtain nc
    where nc: "EvGetClass (byName c) (Inr nc) \<in> set t" and writes: "writes_all (script_kube K) n c (Resources (Spec nc)) t" by blast
  from writes have "\<forall>res\<in>set (Resources (Spec nc)). \<exists>x p e.
    convertRawToUnstructured K res = Inr x \<and> e \<in> set t \<and> wrote e = Some p \<and> obj_key p = keyIn n x \<and>
    has_label (u_Labels p) NamespaceClassOwner c"
    unfolding writes_all_def owned_by_def by (fastforce simp: obj_key_def keyIn_def)
  with nc show ?thesis by blast
qed

text \<open>Two requests for the namespace of \<open>drifted_cluster\<close>, the second overtakes the first.\<close>

definition both_turns :: "turn list" where
  "both_turns = [Begin (byName ''web-portal''), Begin (byName ''web-portal'')] @ [Turn 0] @ replicate 10 (Turn 1)"

fun applies_at :: "'w kube \<Rightarrow> string \<Rightarrow> string \<Rightarrow> event list \<Rightarrow> bool" where
  "applies_at K n c (EvGetClass nn (Inl err) # EvGetNs m (Inr ns) # t) \<longleftrightarrow>
     nn = byName n \<and> m = n \<and> IsNotFound K err \<and> ns_DeletionTimestamp ns = None \<and>
     c = map_read (ns_Labels ns) NamespaceClassLabel \<and> list_all (\<lambda>e. \<not> ns_gone K e) t"
| "applies_at K n c _ \<longleftrightarrow> False"

lemma both_run:
  "case plays mem_kube both_turns (empty_pool drifted_cluster) of
     None \<Rightarrow> False
   | Some (ls, s) \<Rightarrow>
       length (p_runs s) = 2 \<and> og_req (p_runs s ! 1) = byName ''web-portal'' \<and>
       Option.is_none (next_event mem_kube (p_runs s ! 1)) \<and> outcome mem_kube (p_runs s ! 1) = Ok \<lparr>Requeue = False\<rparr> \<and>
       applies_at mem_kube ''web-portal'' ''public-network'' (events_of 1 ls)"
  by code_simp

lemma concurrent_success_writes_class_witness:
  "\<exists>ls s nc. csteps mem_kube (\<lambda>_ _. False) (empty_pool drifted_cluster) ls s \<and> length (p_runs s) = 2 \<and>
    EvGetClass (byName ''public-network'') (Inr nc) \<in> set (events_of 1 ls) \<and> (\<forall>res\<in>set (Resources (Spec nc)). \<exists>x p e.
    convertRawToUnstructured mem_kube res = Inr x \<and> e \<in> set (events_of 1 ls) \<and> wrote e = Some p \<and>
    obj_key p = keyIn ''web-portal'' x \<and> has_label (u_Labels p) NamespaceClassOwner ''public-network'')"
proof -
  from both_run obtain ls s where play: "plays mem_kube both_turns (empty_pool drifted_cluster) = Some (ls, s)"
    and two: "length (p_runs s) = 2" and req: "og_req (p_runs s ! 1) = byName ''web-portal''"
    and over: "next_event mem_kube (p_runs s ! 1) = None" "outcome mem_kube (p_runs s ! 1) = Ok \<lparr>Requeue = False\<rparr>"
    and at: "applies_at mem_kube ''web-portal'' ''public-network'' (events_of 1 ls)"
    by (auto simp: Option.is_none_def elim!: case_optionE)
  have run: "csteps mem_kube (\<lambda>_ _. False) (empty_pool drifted_cluster) ls s" using play by (rule plays_sound)
  from at obtain err ns t where t: "events_of 1 ls = EvGetClass (byName ''web-portal'') (Inl err) # EvGetNs ''web-portal'' (Inr ns) # t"
    and rest: "IsNotFound mem_kube err" "ns_DeletionTimestamp ns = None"
      "''public-network'' = map_read (ns_Labels ns) NamespaceClassLabel" "list_all (\<lambda>e. \<not> ns_gone mem_kube e) t"
    by (auto elim: applies_at.elims)
  have "1 < length (p_runs s)" "''public-network'' \<noteq> ''''" using two by simp_all
  from concurrent_success_writes_class [OF mem.kube_client_axioms run this(1) req over t rest(1,2,3) this(2) rest(4)]
  obtain nc where "EvGetClass (byName ''public-network'') (Inr nc) \<in> set t" "\<forall>res\<in>set (Resources (Spec nc)). \<exists>x p e.
    convertRawToUnstructured mem_kube res = Inr x \<and> e \<in> set t \<and> wrote e = Some p \<and> obj_key p = keyIn ''web-portal'' x \<and>
    has_label (u_Labels p) NamespaceClassOwner ''public-network''" by blast
  then have "EvGetClass (byName ''public-network'') (Inr nc) \<in> set (events_of 1 ls) \<and> (\<forall>res\<in>set (Resources (Spec nc)). \<exists>x p e.
    convertRawToUnstructured mem_kube res = Inr x \<and> e \<in> set (events_of 1 ls) \<and> wrote e = Some p \<and>
    obj_key p = keyIn ''web-portal'' x \<and> has_label (u_Labels p) NamespaceClassOwner ''public-network'')"
    unfolding t by (metis list.set_intros(2))
  with run two show ?thesis by blast
qed

end
