(* ===== verification/Class_Deletion.thy ===== *)
theory Class_Deletion imports Reconcile_Safety begin

text \<open>
  The end of a class: the request for a class that is being deleted, when the API server does what it documents, namely
  removes an object under deletion with its last finalizer.
\<close>

text \<open>
  The documented behaviour: after the update that took the last finalizer off a class under deletion, the class is not
  found any more.
\<close>

definition removes_finalized :: "'w kube \<Rightarrow> bool" where
  "removes_finalized K \<longleftrightarrow> (\<forall>nc w w'. k_updateClass K nc w = (Inr (), w') \<longrightarrow> nc_DeletionTimestamp nc \<noteq> None \<longrightarrow>
     nc_Finalizers nc = [] \<longrightarrow> (\<exists>e. IsNotFound K e \<and> fst (k_getClass K (byName (nc_Name nc)) w') = Inl e))"

lemma cleanup_ends:
  assumes "handleFinalizerCleanup K nc w = (Ok r, t, w')" and "nc_Finalizers nc = [NamespaceClassFinalizer]"
  shows "\<exists>v. k_updateClass K (nc\<lparr>nc_Finalizers := []\<rparr>) v = (Inr (), w')"
  using assms
  by (auto simp: handleFinalizerCleanup_def removeFinalizer_def slices_Delete_def Let_def updateClass_def
      call_run_Ok returnG_def failG_def tryG_def callG_def elim!: bind_runE split: if_splits sum.splits prod.splits res.splits)

lemma cleanup_error:
  assumes "handleFinalizerCleanup K nc w = (Err e, t, w')"
  shows "\<exists>errs. e = EJoin errs"
proof -
  obtain errs1 t1 w1 where "cleanupNamespaces K nc w = (Ok errs1, t1, w1)"
    using collects_cleanupNamespaces [of K nc] unfolding collects_def by blast
  moreover obtain errs2 t2 w2 where "removeFinalizer K nc w1 = (Ok errs2, t2, w2)"
    using collects_removeFinalizer [of K nc] unfolding collects_def by blast
  ultimately show ?thesis
    using assms by (cases "errs1 @ errs2 = []") (auto simp: handleFinalizerCleanup_def bindG_def returnG_def failG_def)
qed

text \<open>
  C34: deleting a class ends in an error.  When the server removes a class with its last finalizer, a request for a class under
  deletion that has only the controller's finalizer never succeeds: if the cleanup has no error, the status
  update that follows it reads the class again, does not find it, and that is the error of the request.
\<close>

theorem deleted_class_request_fails:
  assumes "removes_finalized K" and "k_getClass K req w = (Inr nc, w1)" and "nc_DeletionTimestamp nc \<noteq> None"
    and "\<not> IsZero (nc_DeletionTimestamp nc)" and "nc_Finalizers nc = [NamespaceClassFinalizer]"
  shows "\<exists>e. result_of (Reconcile K req) w = Err e \<and>
    ((\<exists>errs. e = EJoin errs) \<or>
     (\<exists>e'. e = EWrap ''failed to get fresh copy of NamespaceClass'' e' \<and> IsNotFound K e' \<and>
        last (trace_of (Reconcile K req) w) = EvGetClass (byName (nc_Name nc)) (Inl e')) \<or>
     trace_of (Reconcile K req) w = [EvGetClass req (Inr nc), EvListNs NamespaceClassLabel (nc_Name nc) (Inl e)])"
proof -
  obtain r t w' where crun: "reconcileClassRequest K nc w1 = (r, t, w')" by (cases "reconcileClassRequest K nc w1")
  have run: "Reconcile K req w = (r, EvGetClass req (Inr nc) # t, w')"
    using crun assms(2) by (simp add: Reconcile_def getClass_def go_defs)
  obtain a w2 where list: "k_listNs K NamespaceClassLabel (nc_Name nc) w1 = (a, w2)"
    by (cases "k_listNs K NamespaceClassLabel (nc_Name nc) w1")
  show ?thesis
  proof (cases a)
    case (Inl e)
    with class_request_visits_all [of K nc w1] list crun run show ?thesis by auto
  next
    case (Inr members)
    obtain v w3 where v: "visits K nc members w2 = (v, w3)" by (cases "visits K nc members w2")
    let ?report = "bindG (updateNamespaceClassStatus K nc) (\<lambda>_. returnG \<lparr>Requeue = False\<rparr>)"
    obtain r' s w4 where tail: "bindG (handleFinalizerCleanup K nc) (\<lambda>_. ?report) w3 = (r', s, w4)"
      by (cases "bindG (handleFinalizerCleanup K nc) (\<lambda>_. ?report) w3")
    have r: "r = r'" "t = EvListNs NamespaceClassLabel (nc_Name nc) (Inr members) # v @ s"
      using class_request_visits_all [of K nc w1] crun assms(4) by (simp_all add: list Inr v tail)
    from tail show ?thesis
    proof (cases rule: bind_runE)
      case (next_step x t1 w5 t2)
      from cleanup_ends [OF next_step(1) assms(5)] obtain u
        where "k_updateClass K (nc\<lparr>nc_Finalizers := []\<rparr>) u = (Inr (), w5)" by blast
      with assms(1,3) obtain e' where e': "IsNotFound K e'" "fst (k_getClass K (byName (nc_Name nc)) w5) = Inl e'"
        unfolding removes_finalized_def by fastforce
      then obtain w6 where "k_getClass K (byName (nc_Name nc)) w5 = (Inl e', w6)" by (metis prod.collapse)
      then have "?report w5 = (Err (EWrap ''failed to get fresh copy of NamespaceClass'' e'), [EvGetClass (byName (nc_Name nc)) (Inl e')], w6)"
        by (simp add: updateNamespaceClassStatus_def getFreshNamespaceClass_def getClass_def go_defs)
      with next_step e' r run show ?thesis by auto
    next
      case (error e)
      from error(1) have "\<exists>errs. e = EJoin errs" by (rule cleanup_error)
      with error r run show ?thesis by auto
    next
      case (panic p)
      then show ?thesis using safe_run [OF Reconcile_safe run] r by auto
    qed
  qed
qed

lemma mem_removes_finalized: "removes_finalized mem_kube"
  unfolding removes_finalized_def
proof (intro allI impI)
  fix nc and w w' :: cluster
  assume update: "k_updateClass mem_kube nc w = (Inr (), w')" and "nc_DeletionTimestamp nc \<noteq> None" "nc_Finalizers nc = []"
  then have "cl_Classes w' = filter (\<lambda>x. nc_Name x \<noteq> nc_Name nc) (cl_Classes w)"
    by (auto simp: mem_kube_def mem_updateClass_def mem_putClass_def split: if_splits)
  then have "find (\<lambda>x. nc_Name x = nc_Name nc) (cl_Classes w') = None" by (simp add: find_None_iff)
  then show "\<exists>e. IsNotFound mem_kube e \<and> fst (k_getClass mem_kube (byName (nc_Name nc)) w') = Inl e"
    by (simp add: mem_kube_def mem_getClass_def find_or_def byName_def)
qed

lemma deleted_class_request_fails_witness:
  "\<exists>e. result_of (Reconcile mem_kube (byName ''public-network'')) deleting_cluster = Err e \<and>
    ((\<exists>errs. e = EJoin errs) \<or>
     (\<exists>e'. e = EWrap ''failed to get fresh copy of NamespaceClass'' e' \<and> IsNotFound mem_kube e' \<and>
        last (trace_of (Reconcile mem_kube (byName ''public-network'')) deleting_cluster) =
          EvGetClass (byName (nc_Name deleting_class)) (Inl e')) \<or>
     trace_of (Reconcile mem_kube (byName ''public-network'')) deleting_cluster =
       [EvGetClass (byName ''public-network'') (Inr deleting_class), EvListNs NamespaceClassLabel (nc_Name deleting_class) (Inl e)])"
proof (rule deleted_class_request_fails)
  show "removes_finalized mem_kube" by (rule mem_removes_finalized)
  show "k_getClass mem_kube (byName ''public-network'') deleting_cluster = (Inr deleting_class, deleting_cluster)"
    by (simp add: mem_kube_def mem_getClass_def find_or_def byName_def deleting_cluster_def deleting_class_def
        sample_class_def zero_NamespaceClass_def)
qed (simp_all add: deleting_class_def IsZero_def)

end
