(* ===== verification/Versioned_Updates.thy ===== *)
theory Versioned_Updates imports Concurrent_Reconcile begin

text \<open>
  Concurrent requests against an API server that keeps resource versions.  The locale \<open>versioned_server\<close> is what the
  Kubernetes API documents of them (optimistic concurrency): an update names the version it is based on and is refused
  when the stored object has another one, and a version is given to one state of an object only.  Reads may be answered
  from a cache, with any version that was ever stored.  An etcd-like log of writes interprets it.
\<close>

section \<open>The contract\<close>

locale versioned_server = kube_client K for K :: "'w kube" +
  fixes stored :: "'w \<Rightarrow> string \<Rightarrow> Namespace option"
    and issued :: "'w \<Rightarrow> Namespace set"
    and others :: "'w \<Rightarrow> 'w \<Rightarrow> bool"
  assumes stored_issued: "stored w n = Some ns \<Longrightarrow> ns \<in> issued w \<and> ns_Name ns = n"
    and version_unique: "a \<in> issued w \<Longrightarrow> b \<in> issued w \<Longrightarrow> ns_Name a = ns_Name b \<Longrightarrow>
      ns_ResourceVersion a = ns_ResourceVersion b \<Longrightarrow> a = b"
    and read_issued: "k_getNs K n w = (Inr ns, w') \<Longrightarrow> ns \<in> issued w"
    and update_checked: "k_updateNs K ns w = (Inr (), w') \<Longrightarrow>
      \<exists>old. stored w (ns_Name ns) = Some old \<and> ns_ResourceVersion old = ns_ResourceVersion ns"
    and update_stores: "k_updateNs K ns w = (Inr (), w') \<Longrightarrow>
      \<exists>v. stored w' = (stored w)(ns_Name ns \<mapsto> ns\<lparr>ns_ResourceVersion := v\<rparr>)"
    and calls_issue: "issued w \<subseteq> issued (snd (serve K e w))"
    and others_issue: "others w w' \<Longrightarrow> issued w \<subseteq> issued w'"
begin

lemma step_issues: "cstep K others s l s' \<Longrightarrow> issued (p_world s) \<subseteq> issued (p_world s')"
proof (induction rule: cstep.induct)
  case (api_call i s e e' w')
  then show ?case using calls_issue [of "p_world s" e] by (simp add: log_event_def)
qed (simp_all add: log_event_def others_issue)

text \<open>Whatever a request has read was stored at some time.\<close>

lemma seen_issued:
  "csteps K others s ls s' \<Longrightarrow> EvGetNs n (Inr ns) \<in> set (events_of i ls) \<Longrightarrow> ns \<in> issued (p_world s')"
proof (induction arbitrary: i n ns rule: csteps.induct)
  case (stay s)
  then show ?case by (simp add: events_of_def List.map_filter_def)
next
  case (move s ls s' l s'')
  from move.prems consider "EvGetNs n (Inr ns) \<in> set (events_of i ls)" | "l = Did i (EvGetNs n (Inr ns))"
    by (cases l) (auto split: if_splits)
  then show ?case
  proof cases
    case 1
    from move.IH [OF this] step_issues [OF move.hyps(2)] show ?thesis by blast
  next
    case 2
    with move.hyps(2) obtain e where "serve K e (p_world s') = (EvGetNs n (Inr ns), p_world s'')"
      by (cases rule: cstep.cases) (auto simp: log_event_def)
    moreover from this ask_serve [of K e "p_world s'"] obtain a where "e = EvGetNs n a" by (cases e) auto
    ultimately have "ns \<in> issued (p_world s')" by (auto split: prod.splits dest: read_issued)
    with step_issues [OF move.hyps(2)] show ?thesis by blast
  qed
qed

end

section \<open>A server that keeps a log\<close>

text \<open>
  Namespaces as etcd keeps them: a log of writes (\<open>None\<close> is a deletion), whose positions are the versions; the rest is
  the cluster of \<open>Kube_Memory\<close>.
\<close>

record etcd =
  et_log :: "(string \<times> Namespace option) list"
  et_rest :: cluster

definition et_entry :: "nat \<Rightarrow> string \<times> Namespace option \<Rightarrow> Namespace option" where
  "et_entry i x = map_option (\<lambda>ns. ns\<lparr>ns_Name := fst x, ns_ResourceVersion := show_nat i\<rparr>) (snd x)"

definition et_stored :: "etcd \<Rightarrow> string \<Rightarrow> Namespace option" where
  "et_stored w n =
     (case rev (filter (\<lambda>i. fst (et_log w ! i) = n) [0..<length (et_log w)]) of
        [] \<Rightarrow> None | i # _ \<Rightarrow> et_entry i (et_log w ! i))"

definition et_issued :: "etcd \<Rightarrow> Namespace set" where
  "et_issued w = {ns. \<exists>i<length (et_log w). et_entry i (et_log w ! i) = Some ns}"

definition et_getNs :: "string \<Rightarrow> etcd \<Rightarrow> (go_error + Namespace) \<times> etcd" where
  "et_getNs n w = (case et_stored w n of None \<Rightarrow> (Inl not_found, w) | Some ns \<Rightarrow> (Inr ns, w))"

definition et_listNs :: "string \<Rightarrow> string \<Rightarrow> etcd \<Rightarrow> (go_error + Namespace list) \<times> etcd" where
  "et_listNs key val w =
     (Inr (filter (\<lambda>ns. has_label (ns_Labels ns) key val)
        (List.map_filter (et_stored w) (remdups (map fst (et_log w))))), w)"

definition et_updateNs :: "Namespace \<Rightarrow> etcd \<Rightarrow> (go_error + unit) \<times> etcd" where
  "et_updateNs ns w =
     (case et_stored w (ns_Name ns) of
        None \<Rightarrow> (Inl not_found, w)
      | Some old \<Rightarrow>
          if ns_ResourceVersion old = ns_ResourceVersion ns
          then (Inr (), w\<lparr>et_log := et_log w @ [(ns_Name ns, Some ns)]\<rparr>)
          else (Inl (EExternal ''Conflict''), w))"

definition on_rest :: "(cluster \<Rightarrow> 'a \<times> cluster) \<Rightarrow> etcd \<Rightarrow> 'a \<times> etcd" where
  "on_rest f w = (case f (et_rest w) of (a, c) \<Rightarrow> (a, w\<lparr>et_rest := c\<rparr>))"

definition et_kube :: "etcd kube" where
  "et_kube =
     \<lparr>k_getClass = (\<lambda>nn. on_rest (mem_getClass nn)), k_getNs = et_getNs, k_getObj = (\<lambda>g m n. on_rest (mem_getObj g m n)),
      k_listNs = et_listNs, k_listObj = (\<lambda>g n k v. on_rest (mem_listObj g n k v)), k_create = (\<lambda>u. on_rest (mem_create u)),
      k_updateObj = (\<lambda>u. on_rest (mem_updateObj u)), k_delete = (\<lambda>u. on_rest (mem_delete u)), k_updateNs = et_updateNs,
      k_updateClass = (\<lambda>nc. on_rest (mem_updateClass nc)), k_patchStatus = (\<lambda>b nc. on_rest (mem_patchStatus b nc)),
      k_discover = on_rest (\<lambda>c. ((cl_Discovery c, None), c)), k_watch = (\<lambda>n gvk w. (Inr (), w)),
      k_manage = (\<lambda>n w. (Inr (), w)), k_now = (\<lambda>w. cl_Clock (et_rest w)), IsNotFound = (\<lambda>e. e = not_found),
      ParseGroupVersion = mem_parseGV, Unmarshal = mem_decode,
      ToUnstructured = (\<lambda>ob. case ob of RuntimeObject s \<Rightarrow> mem_decode s), SetStatusCondition = mem_setCondition\<rparr>"

text \<open>Anyone else may append writes and change the rest.\<close>

definition et_others :: "etcd \<Rightarrow> etcd \<Rightarrow> bool" where
  "et_others w w' \<longleftrightarrow> (\<exists>ws. et_log w' = et_log w @ ws)"

lemma et_issued_append: "et_log w' = et_log w @ ws \<Longrightarrow> et_issued w \<subseteq> et_issued w'"
  by (force simp: et_issued_def nth_append)

lemma et_stored_append:
  "et_log w' = et_log w @ [x] \<Longrightarrow> et_stored w' = (et_stored w)(fst x := et_entry (length (et_log w)) x)"
proof (rule ext)
  fix n
  assume w': "et_log w' = et_log w @ [x]"
  then have "filter (\<lambda>i. fst (et_log w' ! i) = n) [0..<length (et_log w)] = filter (\<lambda>i. fst (et_log w ! i) = n) [0..<length (et_log w)]"
    by (intro filter_cong) (simp_all add: nth_append)
  with w' show "et_stored w' n = ((et_stored w)(fst x := et_entry (length (et_log w)) x)) n"
    by (auto simp: et_stored_def nth_append split: list.split dest!: arg_cong [where f = set])
qed

lemma et_storedE:
  assumes "et_stored w n = Some ns"
  obtains i where "i < length (et_log w)" and "fst (et_log w ! i) = n" and "et_entry i (et_log w ! i) = Some ns"
proof (cases "rev (filter (\<lambda>i. fst (et_log w ! i) = n) [0..<length (et_log w)])")
  case Nil
  with assms show ?thesis by (simp add: et_stored_def)
next
  case (Cons i js)
  from arg_cong [OF Cons, of set] have "i < length (et_log w) \<and> fst (et_log w ! i) = n" by auto
  with that [of i] assms Cons show ?thesis by (simp add: et_stored_def)
qed

fun read_nat :: "string \<Rightarrow> nat \<Rightarrow> nat" where
  "read_nat [] a = a"
| "read_nat (c # cs) a = read_nat cs (10 * a + (of_char c - 48))"

lemma read_nat_append: "read_nat (s @ [c]) a = 10 * read_nat s a + (of_char c - 48)"
  by (induction s arbitrary: a) simp_all

lemma read_show: "read_nat (show_nat n) 0 = n"
proof (induction n rule: show_nat.induct)
  case (1 n)
  then show ?case by (subst show_nat.simps) (auto simp: read_nat_append)
qed

lemma show_nat_inj: "show_nat m = show_nat n \<longleftrightarrow> m = n"
  by (metis read_show)

lemma on_rest_log: "on_rest f w = (a, w') \<Longrightarrow> et_log w' = et_log w"
  by (auto simp: on_rest_def split: prod.splits)

lemma on_rest_run: "on_rest f w = (a, w') \<Longrightarrow> f (et_rest w) = (a, et_rest w')"
  by (auto simp: on_rest_def split: prod.splits)

lemma et_updateNs_ok:
  "et_updateNs ns w = (Inr (), w') \<Longrightarrow>
    (\<exists>old. et_stored w (ns_Name ns) = Some old \<and> ns_ResourceVersion old = ns_ResourceVersion ns) \<and>
    et_log w' = et_log w @ [(ns_Name ns, Some ns)]"
  by (auto simp: et_updateNs_def split: option.splits if_splits)

lemma et_calls: "\<exists>ws. et_log (snd (serve et_kube e w)) = et_log w @ ws"
proof (cases "et_log (snd (serve et_kube e w)) = et_log w")
  case False
  then have "\<exists>ns a. e = EvUpdateNs ns a"
    by (cases e) (auto simp: et_kube_def et_getNs_def et_listNs_def split: prod.splits option.splits dest: on_rest_log)
  then show ?thesis by (auto simp: et_kube_def et_updateNs_def split: option.split)
qed simp

lemma et_read: "et_stored w n = Some ns \<Longrightarrow> ns \<in> et_issued w \<and> ns_Name ns = n"
  by (erule et_storedE) (auto simp: et_issued_def et_entry_def)

lemma et_unique: "a \<in> et_issued w \<Longrightarrow> b \<in> et_issued w \<Longrightarrow> ns_ResourceVersion a = ns_ResourceVersion b \<Longrightarrow> a = b"
  by (auto simp: et_issued_def et_entry_def show_nat_inj)

interpretation et: versioned_server et_kube et_stored et_issued et_others
proof (unfold_locales, goal_cases)
  case (1 nn w c w')
  then show ?case by (auto simp: et_kube_def dest!: on_rest_run mem.getClass_name [unfolded mem_kube_def, simplified])
next
  case (2 n w ns w')
  then show ?case by (auto simp: et_kube_def et_getNs_def split: option.splits dest: et_read)
next
  case (3 key val w nss w' ns)
  then show ?case by (auto simp: et_kube_def et_listNs_def)
next
  case (4 gvk n key val w us w' u)
  then show ?case by (auto simp: et_kube_def dest!: on_rest_run mem.listObj_ns [unfolded mem_kube_def, simplified])
next
  case (5 gvk n key val w us w' u)
  then show ?case by (auto simp: et_kube_def dest!: on_rest_run mem.listObj_label [unfolded mem_kube_def, simplified])
next
  case (6 w n ns)
  then show ?case by (rule et_read)
next
  case (7 a w b)
  then show ?case by (blast intro: et_unique)
next
  case (8 n w ns w')
  then show ?case by (auto simp: et_kube_def et_getNs_def split: option.splits dest: et_read)
next
  case (9 ns w w')
  then show ?case by (auto simp: et_kube_def dest: et_updateNs_ok)
next
  case (10 ns w w')
  then have "et_log w' = et_log w @ [(ns_Name ns, Some ns)]" by (auto simp: et_kube_def dest: et_updateNs_ok)
  from et_stored_append [OF this] show ?case by (auto simp: et_entry_def)
next
  case (11 w e)
  then show ?case using et_calls [of e w] et_issued_append by blast
next
  case (12 w w')
  then show ?case unfolding et_others_def using et_issued_append by blast
qed

section \<open>Updates of namespaces\<close>

text \<open>A namespace update of a request edits the class annotations of a namespace it has read.\<close>

lemma contract_update:
  assumes "request_contract K req h (EvUpdateNs new a)"
  obtains m latest where "EvGetNs m (Inr latest) \<in> set h" and "new = latest\<lparr>ns_Annotations := ns_Annotations new\<rparr>"
    and "\<And>k. k \<notin> {CurrentClassAnnotation, LastAppliedClassAnnotation} \<Longrightarrow>
      map_read (ns_Annotations new) k = map_read (ns_Annotations latest) k"
proof -
  note found = that
  have edits: "map_read (edit m) k = map_read m k"
    if "edit \<in> {setEdit c c, switchEdit c}" "k \<notin> {CurrentClassAnnotation, LastAppliedClassAnnotation}" for edit c m k
    using that by (auto simp: setEdit_read switchEdit_read)
  have ns: thesis if contract: "namespace_contract K n c h (EvUpdateNs new a)" for n c
  proof -
    from contract obtain m latest edit where "EvGetNs m (Inr latest) \<in> set h" "edit \<in> {setEdit c c, switchEdit c}"
      and "new = latest\<lparr>ns_Annotations := edit (ns_Annotations latest)\<rparr>" by (auto simp del: insert_iff)
    with edits [of edit c] show thesis by (intro found [of m latest]) simp_all
  qed
  from assms show thesis
  proof (cases rule: request_contractE)
    case (finalizer nc)
    then obtain n latest where "EvGetNs n (Inr latest) \<in> set h"
      and "new = latest\<lparr>ns_Annotations := map_remove (ns_Annotations latest) LastAppliedClassAnnotation\<rparr>" by auto
    then show thesis by (intro found [of n latest]) (simp_all add: map_read_remove)
  next
    case (member nc nss n)
    from member(5) show thesis by (rule ns)
  next
    case (own err n nc)
    from own(8) show thesis by (rule ns)
  qed simp_all
qed


context versioned_server
begin

lemma update_replaces:
  assumes "csteps K others (empty_pool w) ls s" and step: "cstep K others s (Did i (EvUpdateNs new (Inr ()))) s'"
  shows "\<exists>old m v. stored (p_world s) (ns_Name new) = Some old \<and> EvGetNs m (Inr old) \<in> set (events_of i ls) \<and>
    new = old\<lparr>ns_Annotations := ns_Annotations new\<rparr> \<and>
    (\<forall>k. k \<in> {CurrentClassAnnotation, LastAppliedClassAnnotation} \<or>
       map_read (ns_Annotations new) k = map_read (ns_Annotations old) k) \<and>
    stored (p_world s') = (stored (p_world s))(ns_Name new \<mapsto> new\<lparr>ns_ResourceVersion := v\<rparr>)"
proof -
  let ?e = "EvUpdateNs new (Inr ())"
  from step obtain e where "serve K e (p_world s) = (?e, p_world s')"
    by (cases rule: cstep.cases) (auto simp: log_event_def)
  moreover from this ask_serve [of K e "p_world s"] obtain a where "e = EvUpdateNs new a" by (cases e) auto
  ultimately have update: "k_updateNs K new (p_world s) = (Inr (), p_world s')" by (auto split: prod.splits)
  from update_checked [OF update] obtain old where old: "stored (p_world s) (ns_Name new) = Some old"
    and version: "ns_ResourceVersion old = ns_ResourceVersion new" by blast
  have i: "i < length (p_runs s')" using step_log [OF step] by simp
  from contract_reached [OF csteps.move [OF assms] i]
  have "request_contract K (og_req (p_runs s' ! i)) (events_of i ls) ?e" by simp
  then obtain m latest where seen: "EvGetNs m (Inr latest) \<in> set (events_of i ls)"
    and new: "new = latest\<lparr>ns_Annotations := ns_Annotations new\<rparr>"
    and kept: "\<And>k. k \<notin> {CurrentClassAnnotation, LastAppliedClassAnnotation} \<Longrightarrow>
      map_read (ns_Annotations new) k = map_read (ns_Annotations latest) k"
    by (rule contract_update) blast
  have "ns_Name (latest\<lparr>ns_Annotations := ns_Annotations new\<rparr>) = ns_Name latest"
    "ns_ResourceVersion (latest\<lparr>ns_Annotations := ns_Annotations new\<rparr>) = ns_ResourceVersion latest" by simp_all
  with new have same: "ns_Name new = ns_Name latest" "ns_ResourceVersion new = ns_ResourceVersion latest" by simp_all
  have "latest = old"
    using version_unique [OF seen_issued [OF assms(1) seen], of old] stored_issued [OF old] version same by simp
  with old seen new kept update_stores [OF update] show ?thesis by blast
qed

end

text \<open>
  C7: no lost update.  Against a server with resource versions, in every interleaving of requests with each other and with
  anyone else, whatever update of a namespace a request gets through (under the mutex or, in the finalizer, without it)
  replaces exactly a namespace that this request has read: what was stored at that moment is that read, the stored
  namespace afterwards has the annotations that were sent, every annotation but the two class annotations is as it was, and
  no other namespace is touched.
\<close>

theorem no_lost_update:
  assumes "versioned_server K stored issued others" and "csteps K others (empty_pool w) ls s"
    and "cstep K others s (Did i (EvUpdateNs new (Inr ()))) s'"
  shows "\<exists>old m v. stored (p_world s) (ns_Name new) = Some old \<and> EvGetNs m (Inr old) \<in> set (events_of i ls) \<and>
    new = old\<lparr>ns_Annotations := ns_Annotations new\<rparr> \<and>
    (\<forall>k. k \<in> {CurrentClassAnnotation, LastAppliedClassAnnotation} \<or>
       map_read (ns_Annotations new) k = map_read (ns_Annotations old) k) \<and>
    stored (p_world s') = (stored (p_world s))(ns_Name new \<mapsto> new\<lparr>ns_ResourceVersion := v\<rparr>)"
  using assms by (rule versioned_server.update_replaces)

text \<open>A namespace request on the server with the log, and the race of \<open>finalizer_ignores_lock\<close> there.\<close>

definition sample_etcd :: "cluster \<Rightarrow> etcd" where
  "sample_etcd c = \<lparr>et_log = [(''web-portal'', Some sample_namespace)], et_rest = c\<rparr>"

lemma etcd_run:
  "case plays et_kube (Begin (byName ''web-portal'') # replicate 6 (Turn 0)) (empty_pool (sample_etcd sample_cluster)) of
     None \<Rightarrow> False
   | Some (ls, s) \<Rightarrow>
       (case updated (play et_kube (Turn 0) s) of None \<Rightarrow> False | Some (k, new, s') \<Rightarrow> k = 0 \<and> ns_Name new = ''web-portal'')"
  by code_simp

lemma no_lost_update_witness:
  "\<exists>ls s new s' old m v. csteps et_kube et_others (empty_pool (sample_etcd sample_cluster)) ls s \<and>
    cstep et_kube et_others s (Did 0 (EvUpdateNs new (Inr ()))) s' \<and>
    et_stored (p_world s) (ns_Name new) = Some old \<and> EvGetNs m (Inr old) \<in> set (events_of 0 ls) \<and>
    new = old\<lparr>ns_Annotations := ns_Annotations new\<rparr> \<and>
    (\<forall>k. k \<in> {CurrentClassAnnotation, LastAppliedClassAnnotation} \<or>
       map_read (ns_Annotations new) k = map_read (ns_Annotations old) k) \<and>
    et_stored (p_world s') = (et_stored (p_world s))(ns_Name new \<mapsto> new\<lparr>ns_ResourceVersion := v\<rparr>)"
proof -
  from etcd_run obtain ls s new s'
    where "plays et_kube (Begin (byName ''web-portal'') # replicate 6 (Turn 0)) (empty_pool (sample_etcd sample_cluster)) = Some (ls, s)"
      and "updated (play et_kube (Turn 0) s) = Some (0, new, s')"
    by (auto elim!: case_optionE)
  then have run: "csteps et_kube et_others (empty_pool (sample_etcd sample_cluster)) ls s"
    and step: "cstep et_kube et_others s (Did 0 (EvUpdateNs new (Inr ()))) s'"
    unfolding updated_Some by (blast intro: plays_sound play_sound)+
  with no_lost_update [OF et.versioned_server_axioms run step] show ?thesis by blast
qed

text \<open>
  Where versions are compared, the late update of the race is refused: the annotation that the finalizer took off stays off.
\<close>

lemma race_refused:
  "case plays et_kube race_turns (empty_pool (sample_etcd race_cluster)) of
     None \<Rightarrow> False
   | Some (ls, s) \<Rightarrow>
       (case last ls of Did k (EvUpdateNs ns (Inl e)) \<Rightarrow> k = 0 \<and> ns_Name ns = ''web-portal'' | _ \<Rightarrow> False) \<and>
       map_option (\<lambda>ns. map_read (ns_Annotations ns) LastAppliedClassAnnotation) (et_stored (p_world s) ''web-portal'') = Some ''''"
  by code_simp

end
