(* ===== verification/Annotation_Locking.thy ===== *)
theory Annotation_Locking imports Class_Annotations begin

text \<open>
  Several requests at once: the watch controllers and the goroutines of \<open>triggerReconcile\<close> all run the
  same reconciler, which shares one thing, the map \<open>namespaceMutex\<close> from namespace names to
  mutexes.  Here the critical sections of \<open>setClassAnnotations\<close> and \<open>updateCurrentClassAnnotation\<close>
  are run by any number of threads in any interleaving, as a step relation labelled with the events of
  the sequential model, down to the point between the read of a namespace and its update.
\<close>

section \<open>The state\<close>

text \<open>A call of one of the two writers, and the edit of the annotations it makes.\<close>

datatype job = SetJob string string | SwitchJob string

fun edit_of :: "job \<Rightarrow> strmap \<Rightarrow> strmap" where
  "edit_of (SetJob orig cur) = setEdit orig cur"
| "edit_of (SwitchJob cur) = switchEdit cur"

definition edited :: "job \<Rightarrow> Namespace \<Rightarrow> Namespace" where
  "edited j ns = ns\<lparr>ns_Annotations := edit_of j (ns_Annotations ns)\<rparr>"

text \<open>
  Where a thread is: not in a writer, before \<open>mutex.Lock()\<close>, inside before the read, inside with what
  it read, inside before the deferred \<open>mutex.Unlock()\<close>.
\<close>

datatype phase = Idle | Waiting string job | Locked string job | HasRead string job Namespace | Leaving string

text \<open>
  \<open>mutexes\<close> is \<open>namespaceMutex\<close>: a name that \<open>LoadOrStore\<close> has not seen has a free mutex, so the map
  gives the holder of each name's mutex.  \<open>written\<close> is a record of the updates that took effect.
\<close>

record sys =
  store :: "string \<rightharpoonup> Namespace"
  mutexes :: "string \<rightharpoonup> nat"
  thread :: "nat \<Rightarrow> phase"
  written :: "(string \<times> job) list"

section \<open>The steps\<close>

inductive wstep :: "sys \<Rightarrow> nat \<times> event option \<Rightarrow> sys \<Rightarrow> bool" where
  call: "thread s i = Idle \<Longrightarrow>
    wstep s (i, None) (s\<lparr>thread := (thread s)(i := Waiting n j)\<rparr>)"
| lock: "thread s i = Waiting n j \<Longrightarrow> mutexes s n = None \<Longrightarrow>
    wstep s (i, Some (EvLock n)) (s\<lparr>mutexes := (mutexes s)(n \<mapsto> i), thread := (thread s)(i := Locked n j)\<rparr>)"
| read: "thread s i = Locked n j \<Longrightarrow> store s n = Some ns \<Longrightarrow>
    wstep s (i, Some (EvGetNs n (Inr ns))) (s\<lparr>thread := (thread s)(i := HasRead n j ns)\<rparr>)"
| read_error: "thread s i = Locked n j \<Longrightarrow>
    wstep s (i, Some (EvGetNs n (Inl e))) (s\<lparr>thread := (thread s)(i := Leaving n)\<rparr>)"
| update: "thread s i = HasRead n j ns \<Longrightarrow>
    wstep s (i, Some (EvUpdateNs (edited j ns) (Inr ())))
      (s\<lparr>store := (store s)(n \<mapsto> edited j ns), thread := (thread s)(i := Leaving n), written := written s @ [(n, j)]\<rparr>)"
| update_error: "thread s i = HasRead n j ns \<Longrightarrow>
    wstep s (i, Some (EvUpdateNs (edited j ns) (Inl e))) (s\<lparr>thread := (thread s)(i := Leaving n)\<rparr>)"
| unlock: "thread s i = Leaving n \<Longrightarrow>
    wstep s (i, Some (EvUnlock n)) (s\<lparr>mutexes := (mutexes s)(n := None), thread := (thread s)(i := Idle)\<rparr>)"

inductive wsteps :: "sys \<Rightarrow> (nat \<times> event option) list \<Rightarrow> sys \<Rightarrow> bool" where
  finish: "wsteps s [] s"
| more: "wstep s l s' \<Longrightarrow> wsteps s' ls s'' \<Longrightarrow> wsteps s (l # ls) s''"

definition start :: "(string \<rightharpoonup> Namespace) \<Rightarrow> sys" where
  "start m = \<lparr>store = m, mutexes = Map.empty, thread = (\<lambda>_. Idle), written = []\<rparr>"

section \<open>The invariant\<close>

text \<open>The namespace whose critical section a thread is in.\<close>

fun inside :: "phase \<Rightarrow> string option" where
  "inside Idle = None"
| "inside (Waiting n j) = None"
| "inside (Locked n j) = Some n"
| "inside (HasRead n j ns) = Some n"
| "inside (Leaving n) = Some n"

text \<open>The updates of a namespace, in the order they took effect, applied to what was there at the start.\<close>

definition replay :: "(string \<times> job) list \<Rightarrow> string \<Rightarrow> Namespace \<Rightarrow> Namespace" where
  "replay ws n ns = foldl (\<lambda>acc (m, j). if m = n then edited j acc else acc) ns ws"

lemma replay_snoc [simp]:
  "replay (ws @ [(m, j)]) n ns = (if m = n then edited j (replay ws n ns) else replay ws n ns)"
  by (simp add: replay_def)

definition wellformed :: "(string \<rightharpoonup> Namespace) \<Rightarrow> sys \<Rightarrow> bool" where
  "wellformed m s \<longleftrightarrow>
     (\<forall>i n. inside (thread s i) = Some n \<longleftrightarrow> mutexes s n = Some i) \<and>
     (\<forall>i n j ns. thread s i = HasRead n j ns \<longrightarrow> store s n = Some ns) \<and>
     (\<forall>n. store s n = map_option (replay (written s) n) (m n))"

lemma wellformed_start: "wellformed m (start m)"
  by (simp add: wellformed_def start_def replay_def [abs_def] option.map_ident)

lemma wellformedD:
  assumes "wellformed m s"
  shows "inside (thread s i) = Some n \<longleftrightarrow> mutexes s n = Some i"
    and "thread s i = HasRead n j ns \<Longrightarrow> store s n = Some ns"
    and "store s n = map_option (replay (written s) n) (m n)"
  using assms unfolding wellformed_def by blast+

text \<open>Two threads are never in the critical section of the same namespace.\<close>

lemma wellformed_exclusive:
  "wellformed m s \<Longrightarrow> inside (thread s i) = Some n \<Longrightarrow> inside (thread s k) = Some n \<Longrightarrow> i = k"
  by (simp add: wellformedD)

text \<open>A thread that stays inside or outside, as it was.\<close>

lemma wellformed_move:
  assumes "wellformed m s" and "inside p = inside (thread s i)"
    and "\<And>n j ns. p = HasRead n j ns \<Longrightarrow> store s n = Some ns"
  shows "wellformed m (s\<lparr>thread := (thread s)(i := p)\<rparr>)"
  unfolding wellformed_def using wellformedD [OF assms(1)] assms(2,3) by simp

lemma wellformed_step:
  assumes "wstep s l s'" and wf: "wellformed m s"
  shows "wellformed m s'"
  using assms(1)
proof (cases rule: wstep.cases)
  case (lock i n j)
  have "inside (thread s k) \<noteq> Some n" for k using wf lock by (simp add: wellformedD)
  moreover have "mutexes s n' \<noteq> Some i" for n' using wellformedD(1) [OF wf, of i n'] lock by simp
  ultimately show ?thesis
    unfolding wellformed_def lock using wellformedD [OF wf] by auto
next
  case (update i n j ns)
  have now: "store s n = Some ns" using wf update by (simp add: wellformedD(2))
  have other: "thread s k \<noteq> HasRead n j' ns'" if "k \<noteq> i" for k j' ns'
    using wellformed_exclusive [OF wf, of i n k] update that by auto
  have "inside (thread s i) = Some n" using update by simp
  then have inside: "inside (((thread s)(i := Leaving n)) k) = inside (thread s k)" for k by simp
  have "(store s)(n \<mapsto> edited j ns) = (\<lambda>n'. map_option (replay (written s @ [(n, j)]) n') (m n'))"
  proof
    fix n'
    show "((store s)(n \<mapsto> edited j ns)) n' = map_option (replay (written s @ [(n, j)]) n') (m n')"
      using wellformedD(3) [OF wf, of n'] now by (cases "m n'") auto
  qed
  note replayed = fun_cong [OF this]
  show ?thesis
    unfolding wellformed_def update(2)
  proof (intro conjI allI impI, goal_cases)
    case (1 k n')
    show ?case using inside wellformedD(1) [OF wf] by simp
  next
    case (2 k n' j' ns')
    then have "k \<noteq> i" "thread s k = HasRead n' j' ns'" by (auto split: if_splits)
    with other wellformedD(2) [OF wf] show ?case by auto
  next
    case (3 n')
    show ?case using replayed by simp
  qed
next
  case (unlock i n)
  have "mutexes s n' = Some i \<longleftrightarrow> n' = n" for n' using wellformedD(1) [OF wf, of i n'] unlock by auto
  moreover have "inside (thread s k) \<noteq> Some n" if "k \<noteq> i" for k
    using wellformed_exclusive [OF wf, of i n k] unlock that by auto
  ultimately show ?thesis
    unfolding wellformed_def unlock using wellformedD [OF wf] by auto
qed (use wf in \<open>auto intro!: wellformed_move\<close>)

lemma wellformed_steps: "wsteps s ls s' \<Longrightarrow> wellformed m s \<Longrightarrow> wellformed m s'"
  by (induction rule: wsteps.induct) (auto intro: wellformed_step)

section \<open>Properties\<close>

text \<open>The updates that took effect, among the labels of a run, and the class a job makes current.\<close>

fun took_effect :: "nat \<times> event option \<Rightarrow> bool" where
  "took_effect (i, Some (EvUpdateNs ns (Inr u))) = True"
| "took_effect _ = False"

fun class_of :: "job \<Rightarrow> string" where
  "class_of (SetJob orig cur) = cur"
| "class_of (SwitchJob cur) = cur"

lemma written_steps: "wsteps s ls s' \<Longrightarrow> length (written s') = length (written s) + length (filter took_effect ls)"
proof (induction rule: wsteps.induct)
  case (more s l s' ls s'')
  from more.hyps(1) have "length (written s') = length (written s) + (if took_effect l then 1 else 0)"
    by (cases rule: wstep.cases) auto
  with more.IH show ?case by simp
qed simp

lemma edit_of_read:
  "map_read (edit_of j m) CurrentClassAnnotation = class_of j"
  "k = CurrentClassAnnotation \<or> k = LastAppliedClassAnnotation \<or> map_read (edit_of j m) k = map_read m k"
  by (cases j; simp add: setEdit_read switchEdit_read)+

text \<open>The namespace after some updates: the last of them decides the current class, nothing else is lost.\<close>

lemma replay_read:
  "map_read (ns_Annotations (replay ws n ns)) CurrentClassAnnotation =
     (case map snd (filter (\<lambda>(m, j). m = n) ws) of
        [] \<Rightarrow> map_read (ns_Annotations ns) CurrentClassAnnotation
      | js \<Rightarrow> class_of (last js)) \<and>
   (\<forall>k. k \<in> {CurrentClassAnnotation, LastAppliedClassAnnotation} \<or>
      map_read (ns_Annotations (replay ws n ns)) k = map_read (ns_Annotations ns) k)"
proof (induction ws rule: rev_induct)
  case Nil
  show ?case by (simp add: replay_def)
next
  case (snoc w ws)
  obtain m j where w: "w = (m, j)" by (cases w)
  show ?case
  proof (cases "m = n")
    case True
    have "case_list x (\<lambda>a l. class_of (last (a # l))) (js @ [j]) = class_of j" for x :: string and js
      by (cases js) simp_all
    moreover have "\<forall>k. k \<in> {CurrentClassAnnotation, LastAppliedClassAnnotation} \<or>
        map_read (edit_of j (ns_Annotations (replay ws n ns))) k = map_read (ns_Annotations ns) k"
    proof
      fix k
      show "k \<in> {CurrentClassAnnotation, LastAppliedClassAnnotation} \<or>
          map_read (edit_of j (ns_Annotations (replay ws n ns))) k = map_read (ns_Annotations ns) k"
        using snoc edit_of_read(2) [of k j "ns_Annotations (replay ws n ns)"] by fastforce
    qed
    ultimately show ?thesis
      using True w by (simp add: edited_def edit_of_read(1))
  next
    case False
    with snoc w show ?thesis by simp
  qed
qed


section \<open>Running it\<close>

text \<open>
  An executable form of the steps: what a thread does next is determined by its phase, up to the
  call it makes when it is idle and whether an API call fails.
\<close>

datatype choice = Call string job | Go | Fail go_error

fun exec :: "choice \<Rightarrow> nat \<Rightarrow> sys \<Rightarrow> (event option \<times> sys) option" where
  "exec (Call n j) i s =
     (case thread s i of Idle \<Rightarrow> Some (None, s\<lparr>thread := (thread s)(i := Waiting n j)\<rparr>) | _ \<Rightarrow> None)"
| "exec Go i s =
     (case thread s i of
        Idle \<Rightarrow> None
      | Waiting n j \<Rightarrow>
          (case mutexes s n of
             None \<Rightarrow> Some (Some (EvLock n), s\<lparr>mutexes := (mutexes s)(n \<mapsto> i), thread := (thread s)(i := Locked n j)\<rparr>)
           | Some _ \<Rightarrow> None)
      | Locked n j \<Rightarrow>
          (case store s n of
             None \<Rightarrow> None
           | Some ns \<Rightarrow> Some (Some (EvGetNs n (Inr ns)), s\<lparr>thread := (thread s)(i := HasRead n j ns)\<rparr>))
      | HasRead n j ns \<Rightarrow>
          Some (Some (EvUpdateNs (edited j ns) (Inr ())),
            s\<lparr>store := (store s)(n \<mapsto> edited j ns), thread := (thread s)(i := Leaving n), written := written s @ [(n, j)]\<rparr>)
      | Leaving n \<Rightarrow>
          Some (Some (EvUnlock n), s\<lparr>mutexes := (mutexes s)(n := None), thread := (thread s)(i := Idle)\<rparr>))"
| "exec (Fail e) i s =
     (case thread s i of
        Locked n j \<Rightarrow> Some (Some (EvGetNs n (Inl e)), s\<lparr>thread := (thread s)(i := Leaving n)\<rparr>)
      | HasRead n j ns \<Rightarrow> Some (Some (EvUpdateNs (edited j ns) (Inl e)), s\<lparr>thread := (thread s)(i := Leaving n)\<rparr>)
      | _ \<Rightarrow> None)"

fun execs :: "(nat \<times> choice) list \<Rightarrow> sys \<Rightarrow> ((nat \<times> event option) list \<times> sys) option" where
  "execs [] s = Some ([], s)"
| "execs ((i, c) # cs) s =
     (case exec c i s of
        None \<Rightarrow> None
      | Some (e, s') \<Rightarrow> (case execs cs s' of None \<Rightarrow> None | Some (ls, s'') \<Rightarrow> Some ((i, e) # ls, s'')))"

lemma exec_wstep: "exec c i s = Some (e, s') \<Longrightarrow> wstep s (i, e) s'"
  by (cases c; cases "thread s i") (auto intro: wstep.intros split: option.splits)

lemma execs_wsteps: "execs cs s = Some (ls, s') \<Longrightarrow> wsteps s ls s'"
proof (induction cs arbitrary: s ls)
  case (Cons c cs)
  then show ?case
    by (cases c) (auto intro!: wsteps.more dest: exec_wstep split: option.splits prod.splits)
qed (simp add: wsteps.finish)

text \<open>Two requests that annotate the same namespace; the second one has to wait.\<close>

definition two_writers :: "(nat \<times> choice) list" where
  "two_writers =
     [(0, Call ''web-portal'' (SetJob ''a'' ''a'')), (1, Call ''web-portal'' (SwitchJob ''b'')), (0, Go), (0, Go), (0, Go),
      (0, Go), (1, Go), (1, Go), (1, Go)]"

definition two_namespaces :: "string \<rightharpoonup> Namespace" where
  "two_namespaces = [''web-portal'' \<mapsto> sample_namespace]"


text \<open>
  No deadlock.  As long as some thread is in a call of a writer, some thread can take its next step: the
  holder of a lock never waits for another lock.
\<close>

theorem annotation_writers_progress:
  assumes "wsteps (start m) ls s" and "thread s i \<noteq> Idle"
  shows "\<exists>k e s'. wstep s (k, Some e) s'"
proof -
  have wf: "wellformed m s" using assms(1) wellformed_start by (rule wellformed_steps)
  have inside: "\<exists>e s'. wstep s (k, Some e) s'" if "inside (thread s k) = Some n" for k n
    using that by (cases "thread s k") (auto intro: wstep.intros)
  show ?thesis
  proof (cases "thread s i")
    case (Waiting n j)
    show ?thesis
    proof (cases "mutexes s n")
      case None
      with Waiting show ?thesis by (blast intro: wstep.lock)
    next
      case (Some k)
      with wf have "inside (thread s k) = Some n" by (simp add: wellformedD)
      with inside show ?thesis by blast
    qed
  next
    case Idle
    with assms(2) show ?thesis ..
  next
    case (Locked n j)
    then have "inside (thread s i) = Some n" by simp
    with inside show ?thesis by blast
  next
    case (HasRead n j ns)
    then have "inside (thread s i) = Some n" by simp
    with inside show ?thesis by blast
  next
    case (Leaving n)
    then have "inside (thread s i) = Some n" by simp
    with inside show ?thesis by blast
  qed
qed

lemma annotation_writers_progress_witness:
  "\<exists>ls s. wsteps (start two_namespaces) ls s \<and> thread s 1 \<noteq> Idle \<and> (\<exists>k e s'. wstep s (k, Some e) s')"
proof -
  let ?run = "execs (take 3 two_writers) (start two_namespaces)"
  have "case ?run of None \<Rightarrow> False | Some (ls, s) \<Rightarrow> (case thread s 1 of Idle \<Rightarrow> False | _ \<Rightarrow> True)"
    by code_simp
  then obtain ls s where run: "?run = Some (ls, s)" "thread s 1 \<noteq> Idle"
    by (auto split: option.splits phase.splits)
  from annotation_writers_progress [OF execs_wsteps [OF run(1)] run(2)] execs_wsteps [OF run(1)] run(2)
  show ?thesis by blast
qed

section \<open>The threads run the code\<close>

definition calling :: "(string \<rightharpoonup> Namespace) \<Rightarrow> nat \<Rightarrow> string \<Rightarrow> job \<Rightarrow> sys" where
  "calling m i n j = (start m)\<lparr>thread := (\<lambda>_. Idle)(i := Waiting n j)\<rparr>"

lemma critical_section_run:
  assumes "(\<exists>e. t = [EvLock n, EvGetNs n (Inl e), EvUnlock n]) \<or>
    (\<exists>latest a. t = [EvLock n, EvGetNs n (Inr latest), EvUpdateNs (edited j latest) a, EvUnlock n])"
  shows "\<exists>m s. wsteps (calling m i n j) (map (\<lambda>e. (i, Some e)) t) s \<and> thread s i = Idle"
  using assms
proof (elim disjE exE)
  fix e
  assume t: "t = [EvLock n, EvGetNs n (Inl e), EvUnlock n]"
  let ?s = "calling Map.empty i n j"
  let ?s1 = "?s\<lparr>mutexes := (mutexes ?s)(n \<mapsto> i), thread := (thread ?s)(i := Locked n j)\<rparr>"
  let ?s2 = "?s1\<lparr>thread := (thread ?s1)(i := Leaving n)\<rparr>"
  let ?s3 = "?s2\<lparr>mutexes := (mutexes ?s2)(n := None), thread := (thread ?s2)(i := Idle)\<rparr>"
  have "wstep ?s (i, Some (EvLock n)) ?s1" by (rule wstep.lock) (simp_all add: calling_def start_def)
  moreover have "wstep ?s1 (i, Some (EvGetNs n (Inl e))) ?s2" by (rule wstep.read_error [where j = j]) simp
  moreover have "wstep ?s2 (i, Some (EvUnlock n)) ?s3" by (rule wstep.unlock) simp
  ultimately have "wsteps ?s (map (\<lambda>e. (i, Some e)) t) ?s3" unfolding t list.map by (blast intro: wsteps.intros)
  then show ?thesis by fastforce
next
  fix latest a
  assume t: "t = [EvLock n, EvGetNs n (Inr latest), EvUpdateNs (edited j latest) a, EvUnlock n]"
  let ?s = "calling [n \<mapsto> latest] i n j"
  let ?s1 = "?s\<lparr>mutexes := (mutexes ?s)(n \<mapsto> i), thread := (thread ?s)(i := Locked n j)\<rparr>"
  let ?s2 = "?s1\<lparr>thread := (thread ?s1)(i := HasRead n j latest)\<rparr>"
  have "\<exists>s3. wstep ?s2 (i, Some (EvUpdateNs (edited j latest) a)) s3 \<and> thread s3 i = Leaving n"
  proof (cases a)
    case (Inl e)
    have "wstep ?s2 (i, Some (EvUpdateNs (edited j latest) (Inl e))) (?s2\<lparr>thread := (thread ?s2)(i := Leaving n)\<rparr>)"
      by (rule wstep.update_error [where n = n]) simp
    with Inl show ?thesis by fastforce
  next
    case (Inr u)
    have "wstep ?s2 (i, Some (EvUpdateNs (edited j latest) (Inr ()))) (?s2\<lparr>store := (store ?s2)(n \<mapsto> edited j latest),
        thread := (thread ?s2)(i := Leaving n), written := written ?s2 @ [(n, j)]\<rparr>)"
      by (rule wstep.update) simp
    with Inr show ?thesis by fastforce
  qed
  then obtain s3 where s3: "wstep ?s2 (i, Some (EvUpdateNs (edited j latest) a)) s3" "thread s3 i = Leaving n" by blast
  let ?s4 = "s3\<lparr>mutexes := (mutexes s3)(n := None), thread := (thread s3)(i := Idle)\<rparr>"
  have "wstep ?s (i, Some (EvLock n)) ?s1" by (rule wstep.lock) (simp_all add: calling_def start_def)
  moreover have "wstep ?s1 (i, Some (EvGetNs n (Inr latest))) ?s2"
    by (rule wstep.read) (simp_all add: calling_def start_def)
  moreover note s3(1)
  moreover have "wstep s3 (i, Some (EvUnlock n)) ?s4" using s3(2) by (rule wstep.unlock)
  ultimately have "wsteps ?s (map (\<lambda>e. (i, Some e)) t) ?s4" unfolding t list.map by (blast intro: wsteps.intros)
  then show ?thesis by fastforce
qed

text \<open>
  The threads run the code.  Whatever the API answers, the events of a run of either writer are the labels
  of a complete pass of one thread through the step relation, from waiting for the lock to idle, for
  some stored namespaces.
\<close>

theorem writers_refine_steps:
  "(\<exists>m s. wsteps (calling m i (ns_Name ns) (SetJob orig cur))
      (map (\<lambda>e. (i, Some e)) (trace_of (setClassAnnotations K ns orig cur) w)) s \<and> thread s i = Idle) \<and>
   (\<exists>m s. wsteps (calling m i (ns_Name ns) (SwitchJob cur))
      (map (\<lambda>e. (i, Some e)) (trace_of (updateCurrentClassAnnotation K ns cur) w)) s \<and> thread s i = Idle)"
  using set_writer.annotate_trace [of K ns orig cur w] switch_writer.annotate_trace [of K ns cur w]
  by (intro conjI critical_section_run) (simp_all add: edited_def)

end
