(* ===== verification/Watch_Report.thy ===== *)
theory Watch_Report imports Watch_Setup begin

text \<open>
  What the watch setup leaves behind: the summary it logs (\<open>logWatchSummary\<close>), and which types are watched when the manager
  refuses a second controller of the same name, as the library does.
\<close>

section \<open>The summary in the log\<close>

text \<open>A call of \<open>logger.Info\<close>: the message, then keys with values.\<close>

datatype log_value = LogInt nat | LogString string

datatype log_line = LogInfo string "(string \<times> log_value) list"

text \<open>\<open>strings.Join\<close>.\<close>

fun join :: "string \<Rightarrow> string list \<Rightarrow> string" where
  "join sep [] = ''''"
| "join sep [s] = s"
| "join sep (s # t # ss) = s @ sep @ join sep (t # ss)"

definition logWatchSummary :: "ResourceWatchResult \<Rightarrow> log_line list" where
  "logWatchSummary result =
     [LogInfo ''Resource watcher setup summary''
       [(''watched_count'', LogInt (length (WatchedTypes result))), (''failed_count'', LogInt (length (FailedTypes result)))]] @
     (if length (WatchedTypes result) > 0
      then let watchedStrings = formatGVKsForLogging (WatchedTypes result) in
        [LogInfo ''Watched resource types'' [(''types'', LogString (join '', '' watchedStrings))]]
      else []) @
     (if length (FailedTypes result) > 0
      then let failedStrings = formatGVKsForLogging (FailedTypes result) in
        [LogInfo ''Failed to watch resource types'' [(''types'', LogString (join '', '' failedStrings))]]
      else [])"

section \<open>Controllers by name\<close>

text \<open>
  \<open>names w\<close> are the names of the controllers the manager has: it takes a controller only under a new name.
\<close>

locale naming_manager =
  fixes K :: "'w kube" and names :: "'w \<Rightarrow> string set"
  assumes watch_new: "k_watch K n gvk w = (Inr u, w') \<Longrightarrow> n \<notin> names w \<and> names w' = insert n (names w)"
    and watch_refused: "k_watch K n gvk w = (Inl e, w') \<Longrightarrow> names w' = names w"

text \<open>The names of the controllers registered in a trace.\<close>

fun accepted :: "event \<Rightarrow> string option" where
  "accepted (EvWatch n gvk (Inr _)) = Some n"
| "accepted _ = None"

definition registered :: "event list \<Rightarrow> string list" where
  "registered t = List.map_filter accepted t"

lemma registered_simps [simp]:
  "registered [] = []" "registered (e # t) = (case accepted e of None \<Rightarrow> registered t | Some n \<Rightarrow> n # registered t)"
  "registered (s @ t) = registered s @ registered t"
  by (simp_all add: registered_def List.map_filter_def split: option.split)

lemma watch_step_registered:
  assumes "watch_step gvk t ok"
  shows "registered t = (if ok then [controllerName gvk] else [])"
proof (cases "gvk_Empty gvk")
  case False
  with assms obtain a where "t = [EvWatch (controllerName gvk) gvk a]" "ok \<longleftrightarrow> a = Inr ()"
    by (auto simp: watch_step_def)
  then show ?thesis by (cases a) simp_all
qed (use assms in \<open>simp add: watch_step_def\<close>)

lemma watch_log_registered: "watch_log gvks t ws fs \<Longrightarrow> registered t = map controllerName ws"
  by (induction rule: watch_log.induct) (simp_all add: watch_step_registered)

context naming_manager
begin

text \<open>A program that registers only new names, each once.\<close>

definition registers :: "('w, 'a) prog \<Rightarrow> bool" where
  "registers m \<longleftrightarrow> (\<forall>w r t w'. m w = (r, t, w') \<longrightarrow>
     distinct (registered t) \<and> set (registered t) \<inter> names w = {} \<and> names w' = names w \<union> set (registered t))"

lemma registersD: "registers m \<Longrightarrow> m w = (r, t, w') \<Longrightarrow>
    distinct (registered t) \<and> set (registered t) \<inter> names w = {} \<and> names w' = names w \<union> set (registered t)"
  unfolding registers_def by blast

lemma registers_return: "registers (returnG x)"
  by (simp add: registers_def returnG_def)

lemma registers_fail: "registers (failG e)"
  by (simp add: registers_def failG_def)

lemma registers_try: "registers m \<Longrightarrow> registers (tryG m)"
  unfolding registers_def try_run by blast

lemma registers_bind:
  assumes "registers m" and "\<And>x. registers (f x)"
  shows "registers (bindG m f)"
  unfolding registers_def
proof (intro allI impI)
  fix w r t w'
  assume "bindG m f w = (r, t, w')"
  then show "distinct (registered t) \<and> set (registered t) \<inter> names w = {} \<and> names w' = names w \<union> set (registered t)"
  proof (cases rule: bind_runE)
    case (next_step x t1 w1 t2)
    from registersD [OF assms(1) next_step(1)] registersD [OF assms(2) next_step(2)] next_step(3) show ?thesis by auto
  qed (use registersD [OF assms(1)] in blast)+
qed

lemma registers_watchObj: "registers (watchObj K n gvk)"
  unfolding registers_def
proof (intro allI impI)
  fix w r t w'
  assume run: "watchObj K n gvk w = (r, t, w')"
  obtain a where k: "k_watch K n gvk w = (a, w')" and t: "t = [EvWatch n gvk a]"
    using run by (cases "k_watch K n gvk w") (simp add: watchObj_def callG_def)
  show "distinct (registered t) \<and> set (registered t) \<inter> names w = {} \<and> names w' = names w \<union> set (registered t)"
    using k t watch_new [of n gvk w _ w'] watch_refused [of n gvk w _ w'] by (cases a) auto
qed

lemma registers_watch: "registers (createWatchForGVK K gvk)"
  unfolding createWatchForGVK_def by (simp add: registers_fail registers_watchObj)

lemma registers_inGV: "registers (watchResourcesInGroupVersion K gv rs res)"
  by (induction rs arbitrary: res)
    (auto simp: Let_def intro!: registers_return registers_bind registers_try registers_watch split: sum.split)

lemma registers_lists: "registers (watchResourceLists K rls res)"
  by (induction rls arbitrary: res)
    (auto intro!: registers_return registers_bind registers_inGV split: sum.split)

lemma watched_names:
  assumes "getServerPreferredResources K w = (Ok rls, t0, w1)"
  shows "\<exists>ws fs t w'. watchDiscoveredResources K w = (Ok (\<lparr>WatchedTypes = ws, FailedTypes = fs\<rparr>, None), t0 @ t, w') \<and>
    mset ws + mset fs = mset (map (\<lambda>(gv, r). gvkOf gv r) (picked K shouldWatchResource rls)) \<and>
    distinct (map controllerName ws) \<and> controllerName ` set ws \<inter> names w1 = {}"
proof -
  obtain t w' ws fs where run: "watchResourceLists K rls \<lparr>WatchedTypes = [], FailedTypes = []\<rparr> w1 =
      (Ok \<lparr>WatchedTypes = ws, FailedTypes = fs\<rparr>, t, w')"
    and log: "watch_log (map (\<lambda>(gv, r). gvkOf gv r) (picked K shouldWatchResource rls)) t ws fs"
    using watchLists_log [of K rls "\<lparr>WatchedTypes = [], FailedTypes = []\<rparr>" w1] by auto
  have "watchDiscoveredResources K w = (Ok (\<lparr>WatchedTypes = ws, FailedTypes = fs\<rparr>, None), t0 @ t, w')"
    using assms run by (simp add: watchDiscoveredResources_def Let_def go_defs)
  moreover have "distinct (map controllerName ws)" "controllerName ` set ws \<inter> names w1 = {}"
    using registersD [OF registers_lists run] by (simp_all add: watch_log_registered [OF log])
  ultimately show ?thesis using watch_log_mset [OF log] by blast
qed

end

section \<open>A manager with names\<close>

text \<open>The in-memory cluster with a list of the controllers' names beside it.\<close>

definition beside :: "('w \<Rightarrow> 'a \<times> 'w) \<Rightarrow> 'w \<times> 's \<Rightarrow> 'a \<times> 'w \<times> 's" where
  "beside op s = (case op (fst s) of (a, w) \<Rightarrow> (a, w, snd s))"

definition named_watch :: "string \<Rightarrow> GroupVersionKind \<Rightarrow> cluster \<times> string list \<Rightarrow> (go_error + unit) \<times> cluster \<times> string list" where
  "named_watch n gvk s =
     (if n \<in> set (snd s) then (Inl (EExternal ''controller exists already''), s) else (Inr (), fst s, n # snd s))"

definition named_kube :: "(cluster \<times> string list) kube" where
  "named_kube =
     \<lparr>k_getClass = (\<lambda>key. beside (mem_getClass key)), k_getNs = (\<lambda>n. beside (mem_getNs n)),
      k_getObj = (\<lambda>gvk ns n. beside (mem_getObj gvk ns n)), k_listNs = (\<lambda>key val. beside (mem_listNs key val)),
      k_listObj = (\<lambda>gvk ns key val. beside (mem_listObj gvk ns key val)), k_create = (\<lambda>u. beside (mem_create u)),
      k_updateObj = (\<lambda>u. beside (mem_updateObj u)), k_delete = (\<lambda>u. beside (mem_delete u)),
      k_updateNs = (\<lambda>ns. beside (mem_updateNs ns)), k_updateClass = (\<lambda>nc. beside (mem_updateClass nc)),
      k_patchStatus = (\<lambda>base nc. beside (mem_patchStatus base nc)),
      k_discover = beside (\<lambda>c. ((cl_Discovery c, None), c)), k_watch = named_watch,
      k_manage = (\<lambda>n s. (Inr (), s)), k_now = (\<lambda>s. cl_Clock (fst s)), IsNotFound = IsNotFound mem_kube,
      ParseGroupVersion = mem_parseGV, Unmarshal = mem_decode, ToUnstructured = ToUnstructured mem_kube,
      SetStatusCondition = mem_setCondition\<rparr>"

interpretation named: naming_manager named_kube "\<lambda>s. set (snd s)"
  by standard (auto simp: named_kube_def named_watch_def beside_def split: if_splits)

section \<open>Properties\<close>

text \<open>
  C29: types that share a controller name are not all watched.  With a manager that refuses a second controller of a name, as the
  library's does, the watched types have different controller names; so of two watchable types that discovery
  offers with one name (\<open>controllerName\<close> replaces dots and cuts at 60 characters) one ends in the failed types, and the
  drift of its objects goes unnoticed.
\<close>

theorem same_name_unwatched:
  assumes "naming_manager K names" and "getServerPreferredResources K w = (Ok rls, t0, w1)"
    and "g \<in> (\<lambda>(gv, r). gvkOf gv r) ` set (picked K shouldWatchResource rls)"
    and "h \<in> (\<lambda>(gv, r). gvkOf gv r) ` set (picked K shouldWatchResource rls)"
    and "g \<noteq> h" and "controllerName g = controllerName h"
  shows "\<exists>res t w'. watchDiscoveredResources K w = (Ok (res, None), t, w') \<and> distinct (map controllerName (WatchedTypes res)) \<and>
    (g \<notin> set (WatchedTypes res) \<and> g \<in> set (FailedTypes res) \<or> h \<notin> set (WatchedTypes res) \<and> h \<in> set (FailedTypes res))"
proof -
  obtain ws fs t w' where run: "watchDiscoveredResources K w = (Ok (\<lparr>WatchedTypes = ws, FailedTypes = fs\<rparr>, None), t0 @ t, w')"
    and all: "mset ws + mset fs = mset (map (\<lambda>(gv, r). gvkOf gv r) (picked K shouldWatchResource rls))"
    and dist: "distinct (map controllerName ws)"
    using naming_manager.watched_names [OF assms(1,2)] by blast
  from arg_cong [OF all, of set_mset] assms(3,4) have "{g, h} \<subseteq> set ws \<union> set fs" by simp
  moreover have "\<not> {g, h} \<subseteq> set ws"
    using dist assms(5,6) by (auto simp: distinct_map inj_on_def)
  ultimately show ?thesis using run dist by fastforce
qed

text \<open>Two kinds whose names differ only behind the cut.\<close>

definition clashing_cluster :: cluster where
  "clashing_cluster = sample_cluster\<lparr>cl_Discovery := [\<lparr>rl_GroupVersion = ''infrastructure.cluster.x-k8s.io/v1beta1'', APIResources =
     [\<lparr>ar_Name = ''awsmachines'', ar_Kind = ''AWSMachine'', Namespaced = True, Verbs = [''list'', ''watch'']\<rparr>,
      \<lparr>ar_Name = ''awsmachinetemplates'', ar_Kind = ''AWSMachineTemplate'', Namespaced = True, Verbs = [''list'', ''watch'']\<rparr>]\<rparr>]\<rparr>"

lemma same_name_unwatched_witness:
  "\<exists>res t w'. watchDiscoveredResources named_kube (clashing_cluster, []) = (Ok (res, None), t, w') \<and>
    distinct (map controllerName (WatchedTypes res)) \<and>
    (\<lparr>Group = ''infrastructure.cluster.x-k8s.io'', Version = ''v1beta1'', Kind = ''AWSMachine''\<rparr> \<notin> set (WatchedTypes res) \<and>
       \<lparr>Group = ''infrastructure.cluster.x-k8s.io'', Version = ''v1beta1'', Kind = ''AWSMachine''\<rparr> \<in> set (FailedTypes res) \<or>
     \<lparr>Group = ''infrastructure.cluster.x-k8s.io'', Version = ''v1beta1'', Kind = ''AWSMachineTemplate''\<rparr> \<notin> set (WatchedTypes res) \<and>
       \<lparr>Group = ''infrastructure.cluster.x-k8s.io'', Version = ''v1beta1'', Kind = ''AWSMachineTemplate''\<rparr> \<in> set (FailedTypes res))"
proof (rule same_name_unwatched [OF named.naming_manager_axioms])
  show "getServerPreferredResources named_kube (clashing_cluster, []) =
      (Ok (cl_Discovery clashing_cluster), [EvDiscover (cl_Discovery clashing_cluster) None], (clashing_cluster, []))"
    by (simp add: getServerPreferredResources_def ServerPreferredResources_def go_defs named_kube_def beside_def)
qed code_simp+

text \<open>
  The summary in the log is true: its counts add up to the number of watchable types discovered, with the
  names of the watched and the failed types on lines of their own exactly when there are any.
\<close>

theorem watch_summary_counts:
  assumes "getServerPreferredResources K w = (Ok rls, t0, w1)"
  shows "\<exists>res t w' a b. watchDiscoveredResources K w = (Ok (res, None), t, w') \<and>
    hd (logWatchSummary res) = LogInfo ''Resource watcher setup summary'' [(''watched_count'', LogInt a), (''failed_count'', LogInt b)] \<and>
    a + b = length (picked K shouldWatchResource rls) \<and>
    length (logWatchSummary res) = 1 + of_bool (a > 0) + of_bool (b > 0)"
proof -
  obtain ws fs t w' where run: "watchDiscoveredResources K w = (Ok (\<lparr>WatchedTypes = ws, FailedTypes = fs\<rparr>, None), t0 @ t, w')"
    and all: "mset ws + mset fs = mset (map (\<lambda>(gv, r). gvkOf gv r) (picked K shouldWatchResource rls))"
    using watchDiscoveredResources_run [OF assms] by blast
  have "length ws + length fs = length (picked K shouldWatchResource rls)"
    using arg_cong [OF all, of size] by simp
  with run show ?thesis
    by (intro exI [of _ "\<lparr>WatchedTypes = ws, FailedTypes = fs\<rparr>"] exI [of _ "t0 @ t"] exI [of _ w'] exI [of _ "length ws"]
        exI [of _ "length fs"]) (simp add: logWatchSummary_def Let_def)
qed

lemma watch_summary_counts_witness:
  "\<exists>res t w' a b. watchDiscoveredResources mem_kube sample_cluster = (Ok (res, None), t, w') \<and>
    hd (logWatchSummary res) = LogInfo ''Resource watcher setup summary'' [(''watched_count'', LogInt a), (''failed_count'', LogInt b)] \<and>
    a + b = length (picked mem_kube shouldWatchResource sample_discovery) \<and>
    length (logWatchSummary res) = 1 + of_bool (a > 0) + of_bool (b > 0)"
  by (rule watch_summary_counts [where ?t0.0 = "[EvDiscover sample_discovery None]" and ?w1.0 = sample_cluster])
    (simp add: getServerPreferredResources_def ServerPreferredResources_def go_defs mem_kube_def sample_cluster_def)

end
