(* ===== verification/Startup.thy ===== *)
theory Startup imports Watch_Setup begin

text \<open>
  The program's start, \<open>cmd/main.go\<close>: from the parsed flags to a running manager.  Each failing step
  logs its error and exits with status 1, which is the outcome \<open>Err\<close> here; \<open>Ok\<close> is the return of
  \<open>main\<close> after the manager has stopped.
\<close>

section \<open>Flags and options\<close>

record flags =
  metricsAddr :: string
  probeAddr :: string
  enableLeaderElection :: bool
  secureMetrics :: bool
  webhookCertPath :: string
  webhookCertName :: string
  webhookCertKey :: string
  metricsCertPath :: string
  metricsCertName :: string
  metricsCertKey :: string
  enableHTTP2 :: bool

text \<open>The defaults of the \<open>flag.StringVar\<close> and \<open>flag.BoolVar\<close> calls.\<close>

definition default_flags :: flags where
  "default_flags =
     \<lparr>metricsAddr = ''0'', probeAddr = '':8081'', enableLeaderElection = False, secureMetrics = True,
      webhookCertPath = '''', webhookCertName = ''tls.crt'', webhookCertKey = ''tls.key'',
      metricsCertPath = '''', metricsCertName = ''tls.crt'', metricsCertKey = ''tls.key'',
      enableHTTP2 = False\<rparr>"

text \<open>The functions on a \<open>tls.Config\<close> that \<open>main\<close> builds, and the certificate watchers they use.\<close>

datatype cert = WebhookCert | MetricsCert

datatype tls_opt = DisableHTTP2 | GetCertificateFrom cert

text \<open>The part of a \<open>tls.Config\<close> they set.\<close>

record tls_config =
  NextProtos :: "string list"
  GetCertificate :: "cert option"

fun apply_tls :: "tls_opt \<Rightarrow> tls_config \<Rightarrow> tls_config" where
  "apply_tls DisableHTTP2 c = c\<lparr>NextProtos := [''http/1.1'']\<rparr>"
| "apply_tls (GetCertificateFrom w) c = c\<lparr>GetCertificate := Some w\<rparr>"

record manager_options =
  mo_MetricsBindAddress :: string
  mo_SecureServing :: bool
  mo_MetricsTLSOpts :: "tls_opt list"
  mo_AuthFilter :: bool
  mo_WebhookTLSOpts :: "tls_opt list"
  mo_HealthProbeBindAddress :: string
  mo_LeaderElection :: bool
  mo_LeaderElectionID :: string

section \<open>The outside of the program's start\<close>

record 'w startup_env =
  e_kube :: "'w kube"
  e_Join :: "string \<Rightarrow> string \<Rightarrow> string"
  e_newCertWatcher :: "string \<Rightarrow> string \<Rightarrow> 'w \<Rightarrow> (go_error + unit) \<times> 'w"
  e_newManager :: "manager_options \<Rightarrow> 'w \<Rightarrow> (go_error + unit) \<times> 'w"
  e_newDiscovery :: "'w \<Rightarrow> (go_error + unit) \<times> 'w"
  e_add :: "cert \<Rightarrow> 'w \<Rightarrow> (go_error + unit) \<times> 'w"
  e_addCheck :: "string \<Rightarrow> 'w \<Rightarrow> (go_error + unit) \<times> 'w"
  e_start :: "'w \<Rightarrow> (go_error + unit) \<times> 'w"

datatype startup_event =
    EvCertWatcher string string "go_error + unit"
  | EvNewManager manager_options "go_error + unit"
  | EvNewDiscovery "go_error + unit"
  | EvController event
  | EvAdd cert "go_error + unit"
  | EvAddCheck string "go_error + unit"
  | EvStart "go_error + unit"
  | EvSetLogger bool "(string \<times> string) list"

text \<open>A program of the controller inside the start: its events are events of the start.\<close>

definition insideG :: "('e \<Rightarrow> 'f) \<Rightarrow> ('w, 'e, 'a) go \<Rightarrow> ('w, 'f, 'a) go" where
  "insideG f m = (\<lambda>w. case m w of (r, t, w') \<Rightarrow> (r, map f t, w'))"

section \<open>main\<close>

text \<open>
  The slices are values here: every \<open>append\<close> of the code is to a slice without spare capacity (the nil
  slice, or the one-element slice made from it), so none of them shares its array with another.
\<close>

definition tlsOpts :: "flags \<Rightarrow> tls_opt list" where
  "tlsOpts fl = (if \<not> enableHTTP2 fl then [] @ [DisableHTTP2] else [])"

definition addWatcher :: "'w startup_env \<Rightarrow> cert \<Rightarrow> bool \<Rightarrow> ('w, startup_event, unit) go" where
  "addWatcher E c present = (if present then callG (EvAdd c) (e_add E c) else returnG ())"

definition newWatcher :: "'w startup_env \<Rightarrow> string \<Rightarrow> string \<Rightarrow> string \<Rightarrow> ('w, startup_event, unit) go" where
  "newWatcher E path name key =
     (let crt = e_Join E path name; k = e_Join E path key in callG (EvCertWatcher crt k) (e_newCertWatcher E crt k))"

definition main :: "'w startup_env \<Rightarrow> flags \<Rightarrow> ('w, startup_event, unit) go" where
  "main E fl =
     bindG (if length (webhookCertPath fl) > 0 then
              bindG (newWatcher E (webhookCertPath fl) (webhookCertName fl) (webhookCertKey fl)) (\<lambda>_.
              returnG (True, tlsOpts fl @ [GetCertificateFrom WebhookCert]))
            else returnG (False, tlsOpts fl)) (\<lambda>(webhookCertWatcher, webhookTLSOpts).
     bindG (if length (metricsCertPath fl) > 0 then
              bindG (newWatcher E (metricsCertPath fl) (metricsCertName fl) (metricsCertKey fl)) (\<lambda>_.
              returnG (True, tlsOpts fl @ [GetCertificateFrom MetricsCert]))
            else returnG (False, tlsOpts fl)) (\<lambda>(metricsCertWatcher, metricsTLSOpts).
     let opts = \<lparr>mo_MetricsBindAddress = metricsAddr fl, mo_SecureServing = secureMetrics fl,
                 mo_MetricsTLSOpts = metricsTLSOpts, mo_AuthFilter = secureMetrics fl,
                 mo_WebhookTLSOpts = webhookTLSOpts, mo_HealthProbeBindAddress = probeAddr fl,
                 mo_LeaderElection = enableLeaderElection fl, mo_LeaderElectionID = ''9b11687c.nhudson.dev''\<rparr> in
     bindG (callG (EvNewManager opts) (e_newManager E opts)) (\<lambda>_.
     bindG (callG EvNewDiscovery (e_newDiscovery E)) (\<lambda>_.
     bindG (insideG EvController (SetupWithManager (e_kube E))) (\<lambda>_.
     bindG (addWatcher E MetricsCert metricsCertWatcher) (\<lambda>_.
     bindG (addWatcher E WebhookCert webhookCertWatcher) (\<lambda>_.
     bindG (callG (EvAddCheck ''healthz'') (e_addCheck E ''healthz'')) (\<lambda>_.
     bindG (callG (EvAddCheck ''readyz'') (e_addCheck E ''readyz'')) (\<lambda>_.
     callG EvStart (e_start E))))))))))"

section \<open>Stopping at the first failure\<close>

text \<open>An event whose failure ends the program: the watches of the resource types are not among them.\<close>

fun ok_step :: "startup_event \<Rightarrow> bool" where
  "ok_step (EvCertWatcher c k (Inl e)) = False"
| "ok_step (EvNewManager opts (Inl e)) = False"
| "ok_step (EvNewDiscovery (Inl e)) = False"
| "ok_step (EvController (EvManage n (Inl e))) = False"
| "ok_step (EvAdd c (Inl e)) = False"
| "ok_step (EvAddCheck n (Inl e)) = False"
| "ok_step (EvStart (Inl e)) = False"
| "ok_step _ = True"

text \<open>
  \<open>strict m\<close>: a run of \<open>m\<close> returns exactly when none of its events is a failure, and otherwise
  the failure is its last event.
\<close>

definition ends_ok :: "'a res \<Rightarrow> startup_event list \<Rightarrow> bool" where
  "ends_ok r t = (case r of
       Ok x \<Rightarrow> list_all ok_step t
     | Err e \<Rightarrow> (\<exists>s ev. t = s @ [ev] \<and> list_all ok_step s \<and> \<not> ok_step ev)
     | Panic p \<Rightarrow> False)"

lemma ends_ok_simps [simp]:
  "ends_ok (Ok x) t \<longleftrightarrow> list_all ok_step t"
  "ends_ok (Err e) t \<longleftrightarrow> (\<exists>s ev. t = s @ [ev] \<and> list_all ok_step s \<and> \<not> ok_step ev)"
  "ends_ok (Panic p) t \<longleftrightarrow> False"
  by (simp_all add: ends_ok_def)

lemma ends_ok_after: "list_all ok_step t \<Longrightarrow> ends_ok r t' \<Longrightarrow> ends_ok r (t @ t')"
proof (cases r)
  case (Err e)
  assume t: "list_all ok_step t" and "ends_ok r t'"
  with Err obtain s ev where "t' = s @ [ev]" "list_all ok_step s" "\<not> ok_step ev" by auto
  with t show ?thesis
    unfolding Err ends_ok_simps by (intro exI [of _ "t @ s"] exI [of _ ev]) simp
qed simp_all

definition strict :: "('w, startup_event, 'a) go \<Rightarrow> bool" where
  "strict m \<longleftrightarrow> (\<forall>w r t w'. m w = (r, t, w') \<longrightarrow> ends_ok r t)"

lemma strict_return: "strict (returnG x)"
  by (simp add: strict_def returnG_def)

lemma strict_call:
  assumes "\<And>e. \<not> ok_step (ev (Inl e))" and "\<And>x. ok_step (ev (Inr x))"
  shows "strict (callG ev op)"
  unfolding strict_def
proof (intro allI impI)
  fix w r t w'
  assume "callG ev op w = (r, t, w')"
  then obtain a where "t = [ev a]" "r = (case a of Inl e \<Rightarrow> Err e | Inr x \<Rightarrow> Ok x)" by (auto simp: call_run)
  with assms show "ends_ok r t" by (cases a) simp_all
qed

lemma strict_bind:
  fixes m :: "('w, startup_event, 'a) go"
  assumes "strict m" and "\<And>x. strict (f x)"
  shows "strict (bindG m f)"
  unfolding strict_def
proof (intro allI impI)
  fix w r t w'
  assume "bindG m f w = (r, t, w')"
  then show "ends_ok r t"
  proof (cases rule: bind_runE)
    case (next_step x t1 w1 t2)
    with assms have "ends_ok (Ok x) t1" "ends_ok r t2" unfolding strict_def by blast+
    with next_step(3) show ?thesis by (simp add: ends_ok_after)
  next
    case (error e)
    with assms(1) have "ends_ok (Err e :: 'a res) t" unfolding strict_def by blast
    with error(2) show ?thesis by simp
  next
    case (panic p)
    with assms(1) have "ends_ok (Panic p :: 'a res) t" unfolding strict_def by blast
    with panic(2) show ?thesis by simp
  qed
qed

lemma strict_if: "strict m \<Longrightarrow> strict n \<Longrightarrow> strict (if b then m else n)"
  by simp

fun is_manage :: "event \<Rightarrow> bool" where
  "is_manage (EvManage n a) = True"
| "is_manage _ = False"

lemma ok_controller: "\<not> is_manage e \<Longrightarrow> ok_step (EvController e)"
  by (cases e) auto

lemma safe_watchGV: "safe (\<lambda>_ e. \<not> is_manage e) h (watchResourcesInGroupVersion K gv rs res)"
proof (induction rs arbitrary: h res)
  case (Cons r rs)
  show ?case
    by (simp add: Let_def createWatchForGVK_def) (intro conjI impI safe_intro Cons.IH; simp)
qed (simp add: safe_return)

lemma safe_watchLists: "safe (\<lambda>_ e. \<not> is_manage e) h (watchResourceLists K rls res)"
  by (induction rls arbitrary: h res) (auto intro!: safe_return safe_bind safe_watchGV split: sum.split)

lemma safe_setupWatchers: "safe (\<lambda>_ e. \<not> is_manage e) h (setupResourceWatchers K)"
  unfolding setupResourceWatchers_def watchDiscoveredResources_def Let_def
  by (intro safe_intro safe_watchLists) simp

lemma strict_setup: "strict (insideG EvController (SetupWithManager K))"
  unfolding strict_def
proof (intro allI impI)
  fix w r0 t0 w0
  assume run: "insideG EvController (SetupWithManager K) w = (r0, t0, w0)"
  obtain r t w1 where m: "setupResourceWatchers K w = (r, t, w1)" by (cases "setupResourceWatchers K w")
  have t: "list_all (\<lambda>e. \<not> is_manage e) t" using safe_setupWatchers m by (rule safe_list_all)
  then have ok: "list_all (ok_step \<circ> EvController) t" by (induction t) (auto intro: ok_controller)
  obtain a w2 where a: "k_manage K ''namespaceclass'' w1 = (a, w2)" by (cases "k_manage K ''namespaceclass'' w1")
  have r: "r = Ok ()"
  proof (cases r)
    case (Err e)
    with m SetupWithManager_run [of K w] t show ?thesis
      by (auto simp: SetupWithManager_def bindG_def)
  next
    case (Panic p)
    with m SetupWithManager_run [of K w] show ?thesis
      by (auto simp: SetupWithManager_def bindG_def)
  qed simp
  show "ends_ok r0 t0"
    using run m r a ok
    by (cases a) (auto simp: insideG_def SetupWithManager_def manage_def bindG_def callG_def list.pred_map)
qed

section \<open>Properties\<close>

text \<open>
  C40: the start stops at the first failure.  \<open>main\<close> returns exactly when no step failed (the watches of
  single resource types are not steps); otherwise the failing step is the last thing it does, so in
  particular the manager is never started after a failure.
\<close>

theorem main_stops_at_first_failure:
  "case result_of (main E fl) w of
     Ok x \<Rightarrow> list_all ok_step (trace_of (main E fl) w)
   | Err e \<Rightarrow> (\<exists>s ev. trace_of (main E fl) w = s @ [ev] \<and> list_all ok_step s \<and> \<not> ok_step ev)
   | Panic p \<Rightarrow> False"
proof -
  have watcher: "strict (newWatcher E p n k)" for p n k
    unfolding newWatcher_def Let_def by (intro strict_call) auto
  have add: "strict (addWatcher E c b)" for c b
    unfolding addWatcher_def by (intro strict_if strict_call strict_return) auto
  have "strict (main E fl)"
    unfolding main_def Let_def split_def
    by (intro strict_bind strict_if strict_return watcher add strict_setup strict_call) auto
  then have "ends_ok (result_of (main E fl) w) (trace_of (main E fl) w)"
    unfolding strict_def by (metis prod.collapse)
  then show ?thesis by (simp add: ends_ok_def)
qed

text \<open>The options of the manager, given the flags and the watchers made before.\<close>

definition options_ok :: "'w startup_env \<Rightarrow> flags \<Rightarrow> startup_event list \<Rightarrow> manager_options \<Rightarrow> bool" where
  "options_ok E fl h opts \<longleftrightarrow>
     (\<forall>c. NextProtos (fold apply_tls (mo_MetricsTLSOpts opts) c) = (if enableHTTP2 fl then NextProtos c else [''http/1.1'']) \<and>
          NextProtos (fold apply_tls (mo_WebhookTLSOpts opts) c) = (if enableHTTP2 fl then NextProtos c else [''http/1.1'']) \<and>
          GetCertificate (fold apply_tls (mo_MetricsTLSOpts opts) c) =
            (if metricsCertPath fl = '''' then GetCertificate c else Some MetricsCert) \<and>
          GetCertificate (fold apply_tls (mo_WebhookTLSOpts opts) c) =
            (if webhookCertPath fl = '''' then GetCertificate c else Some WebhookCert)) \<and>
     (metricsCertPath fl = '''' \<or>
       EvCertWatcher (e_Join E (metricsCertPath fl) (metricsCertName fl))
         (e_Join E (metricsCertPath fl) (metricsCertKey fl)) (Inr ()) \<in> set h) \<and>
     (webhookCertPath fl = '''' \<or>
       EvCertWatcher (e_Join E (webhookCertPath fl) (webhookCertName fl))
         (e_Join E (webhookCertPath fl) (webhookCertKey fl)) (Inr ()) \<in> set h) \<and>
     mo_AuthFilter opts = mo_SecureServing opts \<and> mo_SecureServing opts = secureMetrics fl \<and>
     mo_HealthProbeBindAddress opts = probeAddr fl \<and> mo_LeaderElection opts = enableLeaderElection fl"

lemma safe_inside:
  assumes "\<And>h e. P h (f e)" and "\<And>w p. result_of m w \<noteq> Panic p"
  shows "safe P h (insideG f m)"
proof -
  have "all_hist P h (map f t)" for h t
    using assms(1) by (induction t arbitrary: h) simp_all
  with assms(2) show ?thesis
    unfolding safe_def insideG_def by (auto split: prod.splits) (metis prod.sel(1))
qed

text \<open>
  What the manager is made with.  Both servers offer only HTTP/1.1 unless HTTP/2 was asked for; a server
  uses certificates from files exactly when their directory was given, and then the watcher of
  those files was made before; metrics are behind authentication and authorization exactly when
  they are served securely; the probe address and leader election are the flags'.
\<close>

theorem main_manager_options:
  "safe (\<lambda>h e. case e of
       EvNewManager opts a \<Rightarrow> options_ok E fl h opts
     | _ \<Rightarrow> True) [] (main E fl)" (is "safe ?P [] _")
proof -
  have controller: "safe ?P h (insideG EvController (SetupWithManager (e_kube E)))" for h
    using SetupWithManager_run [of "e_kube E"] by (intro safe_inside) auto
  have add: "safe ?P h (addWatcher E c b)" for h c b
    unfolding addWatcher_def by (intro safe_intro) simp
  show ?thesis
    unfolding main_def Let_def split_def newWatcher_def
    by (intro safe_bind safe_if safe_return safe_call controller add)
      (auto simp: yields_simp tlsOpts_def options_ok_def dest!: yields_bindD split: if_splits)
qed

text \<open>With the default flags there is no HTTP/2, no leader election, and the metrics need authentication.\<close>

lemma default_flags_secure:
  "\<not> enableHTTP2 default_flags \<and> secureMetrics default_flags \<and> \<not> enableLeaderElection default_flags"
  by (simp add: default_flags_def)

end
