(* ===== verification/Program_Start.thy ===== *)
theory Program_Start imports Startup begin

text \<open>
  The command line of \<open>cmd/main.go\<close>: the declaration of the flags, \<open>flag.Parse\<close> of Go's standard library with its errors, and
  the whole program from its arguments on.  The flags that libraries register on the same command line (zap's, and
  \<open>--kubeconfig\<close> of controller-runtime) are the parameter \<open>Z\<close>: their names, which of them are boolean, and what
  values they accept.  Their names are others than those of \<open>main\<close>: registering a name twice would panic.
\<close>

section \<open>Declaring flags\<close>

datatype flag_var = StringVar "string \<Rightarrow> flags \<Rightarrow> flags" | BoolVar "bool \<Rightarrow> flags \<Rightarrow> flags"

text \<open>\<open>strconv.ParseBool\<close>.\<close>

definition ParseBool :: "string \<Rightarrow> bool option" where
  "ParseBool s =
     (if s \<in> {''1'', ''t'', ''T'', ''true'', ''TRUE'', ''True''} then Some True
      else if s \<in> {''0'', ''f'', ''F'', ''false'', ''FALSE'', ''False''} then Some False else None)"

fun is_BoolVar :: "flag_var \<Rightarrow> bool" where
  "is_BoolVar (BoolVar f) = True"
| "is_BoolVar (StringVar f) = False"

fun set_var :: "flag_var \<Rightarrow> string \<Rightarrow> flags \<Rightarrow> flags option" where
  "set_var (StringVar f) v fl = Some (f v fl)"
| "set_var (BoolVar f) v fl = map_option (\<lambda>b. f b fl) (ParseBool v)"

text \<open>The \<open>flag.StringVar\<close> and \<open>flag.BoolVar\<close> calls of \<open>main\<close>: name, variable, default.\<close>

definition main_flags :: "(string \<times> flag_var \<times> string) list" where
  "main_flags =
     [(''metrics-bind-address'', StringVar (\<lambda>v fl. fl\<lparr>metricsAddr := v\<rparr>), ''0''),
      (''health-probe-bind-address'', StringVar (\<lambda>v fl. fl\<lparr>probeAddr := v\<rparr>), '':8081''),
      (''leader-elect'', BoolVar (\<lambda>v fl. fl\<lparr>enableLeaderElection := v\<rparr>), ''false''),
      (''metrics-secure'', BoolVar (\<lambda>v fl. fl\<lparr>secureMetrics := v\<rparr>), ''true''),
      (''webhook-cert-path'', StringVar (\<lambda>v fl. fl\<lparr>webhookCertPath := v\<rparr>), ''''),
      (''webhook-cert-name'', StringVar (\<lambda>v fl. fl\<lparr>webhookCertName := v\<rparr>), ''tls.crt''),
      (''webhook-cert-key'', StringVar (\<lambda>v fl. fl\<lparr>webhookCertKey := v\<rparr>), ''tls.key''),
      (''metrics-cert-path'', StringVar (\<lambda>v fl. fl\<lparr>metricsCertPath := v\<rparr>), ''''),
      (''metrics-cert-name'', StringVar (\<lambda>v fl. fl\<lparr>metricsCertName := v\<rparr>), ''tls.crt''),
      (''metrics-cert-key'', StringVar (\<lambda>v fl. fl\<lparr>metricsCertKey := v\<rparr>), ''tls.key''),
      (''enable-http2'', BoolVar (\<lambda>v fl. fl\<lparr>enableHTTP2 := v\<rparr>), ''false'')]"

text \<open>The variables before: Go's zero values.  Declaring a flag stores its default.\<close>

definition zero_flags :: flags where
  "zero_flags =
     \<lparr>metricsAddr = '''', probeAddr = '''', enableLeaderElection = False, secureMetrics = False,
      webhookCertPath = '''', webhookCertName = '''', webhookCertKey = '''', metricsCertPath = '''',
      metricsCertName = '''', metricsCertKey = '''', enableHTTP2 = False\<rparr>"

fun declare_flag :: "string \<times> flag_var \<times> string \<Rightarrow> flags \<Rightarrow> flags" where
  "declare_flag (n, var, def) fl = (case set_var var def fl of None \<Rightarrow> fl | Some fl' \<Rightarrow> fl')"

definition declared :: flags where
  "declared = fold declare_flag main_flags zero_flags"

section \<open>Parsing\<close>

record foreign =
  f_flags :: "(string \<times> bool) list"
  f_accepts :: "string \<Rightarrow> string \<Rightarrow> bool"

datatype parse_error = Help | BadSyntax string | NotDefined string | Invalid string string | NeedsArgument string

text \<open>Whether a flag is defined, and boolean; and setting it.  The second part of the state are the library's settings.\<close>

definition flag_kind :: "foreign \<Rightarrow> string \<Rightarrow> bool option" where
  "flag_kind Z n =
     (case map_of main_flags n of Some (var, _) \<Rightarrow> Some (is_BoolVar var) | None \<Rightarrow> map_of (f_flags Z) n)"

fun set_flag :: "foreign \<Rightarrow> string \<Rightarrow> string \<Rightarrow> flags \<times> (string \<times> string) list \<Rightarrow> parse_error + flags \<times> (string \<times> string) list" where
  "set_flag Z n v (fl, zs) =
     (case map_of main_flags n of
        Some (var, _) \<Rightarrow> (case set_var var v fl of None \<Rightarrow> Inl (Invalid n v) | Some fl' \<Rightarrow> Inr (fl', zs))
      | None \<Rightarrow> if f_accepts Z n v then Inr (fl, zs @ [(n, v)]) else Inl (Invalid n v))"

text \<open>\<open>name=value\<close>; the first character belongs to the name.\<close>

fun cut_value :: "string \<Rightarrow> string \<times> string option" where
  "cut_value [] = ([], None)"
| "cut_value (c # cs) = (if c = CHR ''='' then ([], Some cs) else (case cut_value cs of (n, v) \<Rightarrow> (c # n, v)))"

fun cut_flag :: "string \<Rightarrow> string \<times> string option" where
  "cut_flag [] = ([], None)"
| "cut_flag (c # cs) = (case cut_value cs of (n, v) \<Rightarrow> (c # n, v))"

text \<open>One or two dashes.\<close>

definition flag_body :: "string \<Rightarrow> string" where
  "flag_body s = (if s ! 1 = CHR ''-'' then drop 2 s else drop 1 s)"

fun parse_flags ::
  "foreign \<Rightarrow> string list \<Rightarrow> flags \<times> (string \<times> string) list \<Rightarrow> parse_error + (flags \<times> (string \<times> string) list) \<times> string list" where
  "parse_flags Z [] st = Inr (st, [])"
| "parse_flags Z (s # args) st =
     (if length s < 2 \<or> hd s \<noteq> CHR ''-'' then Inr (st, s # args)
      else if s = ''--'' then Inr (st, args)
      else if flag_body s = [] \<or> hd (flag_body s) \<in> {CHR ''-'', CHR ''=''} then Inl (BadSyntax s)
      else
        (let (name, value) = cut_flag (flag_body s) in
         case flag_kind Z name of
           None \<Rightarrow> if name = ''help'' \<or> name = ''h'' then Inl Help else Inl (NotDefined name)
         | Some True \<Rightarrow>
             (case set_flag Z name (case value of None \<Rightarrow> ''true'' | Some v \<Rightarrow> v) st of
                Inl e \<Rightarrow> Inl e | Inr st' \<Rightarrow> parse_flags Z args st')
         | Some False \<Rightarrow>
             (case value of
                Some v \<Rightarrow> (case set_flag Z name v st of Inl e \<Rightarrow> Inl e | Inr st' \<Rightarrow> parse_flags Z args st')
              | None \<Rightarrow>
                  (case args of
                     [] \<Rightarrow> Inl (NeedsArgument name)
                   | v # args' \<Rightarrow> (case set_flag Z name v st of Inl e \<Rightarrow> Inl e | Inr st' \<Rightarrow> parse_flags Z args' st')))))"

section \<open>The program\<close>

text \<open>
  \<open>flag.CommandLine\<close> exits on an error: with status 0 after help was asked for, with 2 otherwise.  Arguments that are left
  are ignored.  \<open>EvSetLogger\<close> is \<open>ctrl.SetLogger\<close> with zap's development mode and the settings from the command line.
\<close>

definition program ::
  "'w startup_env \<Rightarrow> foreign \<Rightarrow> string list \<Rightarrow> nat + ('w, startup_event, unit) go" where
  "program E Z args =
     (case parse_flags Z args (declared, []) of
        Inl Help \<Rightarrow> Inl 0
      | Inl _ \<Rightarrow> Inl 2
      | Inr ((fl, zs), _) \<Rightarrow> Inr (bindG (emitG (EvSetLogger True zs)) (\<lambda>_. main E fl)))"

lemma declared_default: "declared = default_flags"
  by code_simp

section \<open>Reading back a configuration\<close>

definition flag_arg :: "string \<Rightarrow> string \<Rightarrow> string" where
  "flag_arg n v = ''--'' @ n @ ''='' @ v"

definition show_bool :: "bool \<Rightarrow> string" where
  "show_bool b = (if b then ''true'' else ''false'')"

text \<open>A command line for a configuration.\<close>

definition command_line :: "flags \<Rightarrow> string list" where
  "command_line fl =
     [flag_arg ''metrics-bind-address'' (metricsAddr fl), flag_arg ''health-probe-bind-address'' (probeAddr fl),
      flag_arg ''leader-elect'' (show_bool (enableLeaderElection fl)), flag_arg ''metrics-secure'' (show_bool (secureMetrics fl)),
      flag_arg ''webhook-cert-path'' (webhookCertPath fl), flag_arg ''webhook-cert-name'' (webhookCertName fl),
      flag_arg ''webhook-cert-key'' (webhookCertKey fl), flag_arg ''metrics-cert-path'' (metricsCertPath fl),
      flag_arg ''metrics-cert-name'' (metricsCertName fl), flag_arg ''metrics-cert-key'' (metricsCertKey fl),
      flag_arg ''enable-http2'' (show_bool (enableHTTP2 fl))]"

lemma cut_value_plain: "CHR ''='' \<notin> set n \<Longrightarrow> cut_value (n @ CHR ''='' # v) = (n, Some v)"
  by (induction n) auto

lemma cut_flag_plain: "n \<noteq> [] \<Longrightarrow> CHR ''='' \<notin> set n \<Longrightarrow> cut_flag (n @ CHR ''='' # v) = (n, Some v)"
  by (cases n) (simp_all add: cut_value_plain)

lemma parse_flag_arg:
  assumes "flag_kind Z n \<noteq> None" and "n \<noteq> []" and "hd n \<noteq> CHR ''-''" and "CHR ''='' \<notin> set n"
  shows "parse_flags Z (flag_arg n v # args) st =
    (case set_flag Z n v st of Inl e \<Rightarrow> Inl e | Inr st' \<Rightarrow> parse_flags Z args st')"
proof -
  have "flag_body (flag_arg n v) = n @ CHR ''='' # v" by (simp add: flag_body_def flag_arg_def)
  moreover have "flag_arg n v \<noteq> ''--''" "hd (flag_arg n v) = CHR ''-''" "2 \<le> length (flag_arg n v)"
    using assms(2) by (simp_all add: flag_arg_def)
  moreover have "hd n \<noteq> CHR ''=''" using assms(2,4) by (cases n) auto
  ultimately show ?thesis
    using assms cut_flag_plain [OF assms(2,4), of v] by (auto split: bool.split)
qed

lemma flag_kind_main: "map_of main_flags n = Some (var, d) \<Longrightarrow> flag_kind Z n = Some (is_BoolVar var)"
  by (simp add: flag_kind_def)

lemma ParseBool_show [simp]: "ParseBool (show_bool b) = Some b"
  by (simp add: ParseBool_def show_bool_def)

text \<open>
  C39: every configuration can be given on the command line.  The arguments \<open>--name=value\<close> of a configuration, whatever
  the strings in it, are parsed back to exactly that configuration, nothing is set on a library, and no
  argument is left; without arguments it is the default one.
\<close>

theorem flags_roundtrip:
  "parse_flags Z (command_line fl) (declared, []) = Inr ((fl, []), []) \<and>
   parse_flags Z [] (declared, []) = Inr ((default_flags, []), [])"
proof
  show "parse_flags Z (command_line fl) (declared, []) = Inr ((fl, []), [])"
    unfolding command_line_def
    by (simp add: parse_flag_arg flag_kind_def main_flags_def del: parse_flags.simps(2))
qed (simp add: declared_default)

section \<open>What is off unless it is asked for\<close>

text \<open>An argument that names a flag.\<close>

definition names_flag :: "string \<Rightarrow> string \<Rightarrow> bool" where
  "names_flag n s \<longleftrightarrow> 2 \<le> length s \<and> hd s = CHR ''-'' \<and> fst (cut_flag (flag_body s)) = n"

lemma parse_keeps:
  assumes "\<And>m v st st'. m \<noteq> n \<Longrightarrow> set_flag Z m v st = Inr st' \<Longrightarrow> g (fst st') = g (fst st)"
  shows "parse_flags Z args st = Inr (st', rest) \<Longrightarrow> list_all (\<lambda>s. \<not> names_flag n s) args \<Longrightarrow> g (fst st') = g (fst st)"
proof (induction args arbitrary: st rule: length_induct)
  case (1 args)
  show ?case
  proof (cases args)
    case Nil
    with 1 show ?thesis by simp
  next
    case (Cons s args1)
    obtain name v where cut: "cut_flag (flag_body s) = (name, v)" by (cases "cut_flag (flag_body s)")
    show ?thesis
    proof (cases "length s < 2 \<or> hd s \<noteq> CHR ''-'' \<or> s = ''--''")
      case True
      with 1 Cons show ?thesis by (auto split: if_splits)
    next
      case False
      with 1(3) Cons cut have name: "name \<noteq> n" by (auto simp: names_flag_def)
      have step: "g (fst st') = g (fst st)"
        if "set_flag Z name x st = Inr st1" "parse_flags Z args2 st1 = Inr (st', rest)" "length args2 < length args"
          "list_all (\<lambda>s. \<not> names_flag n s) args2" for x st1 args2
        using that 1(1) assms [OF name that(1)] by fastforce
      from False 1(2,3) Cons cut show ?thesis
        by (auto split: if_splits option.splits bool.splits sum.splits list.splits intro: step)
    qed
  qed
qed

lemma set_flag_enableHTTP2: "m \<noteq> ''enable-http2'' \<Longrightarrow> set_flag Z m v st = Inr st' \<Longrightarrow> enableHTTP2 (fst st') = enableHTTP2 (fst st)"
  by (cases st) (auto simp: main_flags_def split: if_splits option.splits)

lemma set_flag_secureMetrics: "m \<noteq> ''metrics-secure'' \<Longrightarrow> set_flag Z m v st = Inr st' \<Longrightarrow> secureMetrics (fst st') = secureMetrics (fst st)"
  by (cases st) (auto simp: main_flags_def split: if_splits option.splits)

lemma safe_const: "safe (\<lambda>_. Q) h m \<Longrightarrow> safe (\<lambda>_. Q) h' m"
  by (simp add: safe_def all_hist_const)

text \<open>
  C38: secure unless asked otherwise.  When no argument names \<open>enable-http2\<close> and none names \<open>metrics-secure\<close>, the program exits in
  \<open>flag.Parse\<close> or runs without a panic, and whatever manager it makes serves metrics and webhooks over HTTP/1.1 only, and
  metrics over HTTPS behind authentication and authorization.
\<close>

theorem program_secure_by_default:
  assumes "list_all (\<lambda>s. \<not> names_flag ''enable-http2'' s) args" and "list_all (\<lambda>s. \<not> names_flag ''metrics-secure'' s) args"
  shows "case program E Z args of
      Inl status \<Rightarrow> status \<in> {0, 2}
    | Inr m \<Rightarrow> safe (\<lambda>h e. case e of
         EvNewManager opts a \<Rightarrow>
           (\<forall>c. NextProtos (fold apply_tls (mo_MetricsTLSOpts opts) c) = [''http/1.1''] \<and>
                NextProtos (fold apply_tls (mo_WebhookTLSOpts opts) c) = [''http/1.1'']) \<and>
           mo_SecureServing opts \<and> mo_AuthFilter opts
       | _ \<Rightarrow> True) [] m"
proof (cases "parse_flags Z args (declared, [])")
  case (Inl e)
  then show ?thesis by (cases e) (simp_all add: program_def)
next
  case (Inr x)
  obtain fl zs rest where x: "x = ((fl, zs), rest)" by (cases x) auto
  have "enableHTTP2 fl = enableHTTP2 declared"
    using parse_keeps [where g = enableHTTP2, OF _ Inr [unfolded x] assms(1)] set_flag_enableHTTP2 by simp
  moreover have "secureMetrics fl = secureMetrics declared"
    using parse_keeps [where g = secureMetrics, OF _ Inr [unfolded x] assms(2)] set_flag_secureMetrics by simp
  ultimately have fl: "\<not> enableHTTP2 fl" "secureMetrics fl" by (simp_all add: declared_default default_flags_def)
  let ?Q = "\<lambda>e. case e of
         EvNewManager opts a \<Rightarrow>
           (\<forall>c. NextProtos (fold apply_tls (mo_MetricsTLSOpts opts) c) = [''http/1.1''] \<and>
                NextProtos (fold apply_tls (mo_WebhookTLSOpts opts) c) = [''http/1.1'']) \<and>
           mo_SecureServing opts \<and> mo_AuthFilter opts
       | _ \<Rightarrow> True"
  have "safe (\<lambda>_. ?Q) [] (main E fl)"
    by (rule safe_mono [OF main_manager_options]) (use fl in \<open>auto simp: options_ok_def split: startup_event.splits\<close>)
  then have "safe (\<lambda>_. ?Q) h (main E fl)" for h by (rule safe_const)
  then have "safe (\<lambda>_. ?Q) [] (bindG (emitG (EvSetLogger True zs)) (\<lambda>_. main E fl))"
    by (intro safe_bind safe_emit) simp
  then show ?thesis by (simp add: program_def Inr x)
qed

text \<open>An outside on the cluster of \<open>Kube_Memory\<close> where every step succeeds, and a command line that says nothing of HTTP/2 and metrics.\<close>

definition sample_env :: "cluster startup_env" where
  "sample_env =
     \<lparr>e_kube = mem_kube, e_Join = (\<lambda>dir file. dir @ ''/'' @ file), e_newCertWatcher = (\<lambda>c k w. (Inr (), w)),
      e_newManager = (\<lambda>opts w. (Inr (), w)), e_newDiscovery = (\<lambda>w. (Inr (), w)), e_add = (\<lambda>c w. (Inr (), w)),
      e_addCheck = (\<lambda>n w. (Inr (), w)), e_start = (\<lambda>w. (Inr (), w))\<rparr>"

definition sample_foreign :: foreign where
  "sample_foreign = \<lparr>f_flags = [(''kubeconfig'', False), (''zap-devel'', True)], f_accepts = (\<lambda>_ _. True)\<rparr>"

fun starts_manager :: "startup_event \<Rightarrow> bool" where
  "starts_manager (EvNewManager opts a) = mo_LeaderElection opts"
| "starts_manager _ = False"

lemma sample_start:
  "case program sample_env sample_foreign [''--leader-elect'', ''--kubeconfig'', ''config''] of
     Inl status \<Rightarrow> False
   | Inr m \<Rightarrow> list_ex starts_manager (trace_of m sample_cluster)"
  by code_simp

lemma program_secure_by_default_witness:
  "case program sample_env sample_foreign [''--leader-elect'', ''--kubeconfig'', ''config''] of
      Inl status \<Rightarrow> False
    | Inr m \<Rightarrow> list_ex starts_manager (trace_of m sample_cluster) \<and> safe (\<lambda>h e. case e of
         EvNewManager opts a \<Rightarrow>
           (\<forall>c. NextProtos (fold apply_tls (mo_MetricsTLSOpts opts) c) = [''http/1.1''] \<and>
                NextProtos (fold apply_tls (mo_WebhookTLSOpts opts) c) = [''http/1.1'']) \<and>
           mo_SecureServing opts \<and> mo_AuthFilter opts
       | _ \<Rightarrow> True) [] m"
proof -
  let ?args = "[''--leader-elect'', ''--kubeconfig'', ''config'']"
  have "list_all (\<lambda>s. \<not> names_flag ''enable-http2'' s) ?args" "list_all (\<lambda>s. \<not> names_flag ''metrics-secure'' s) ?args"
    by (simp_all add: names_flag_def flag_body_def)
  from program_secure_by_default [OF this, of sample_env sample_foreign] sample_start show ?thesis
    by (cases "program sample_env sample_foreign ?args") simp_all
qed

text \<open>It starts the manager with leader election; without arguments the flags have their defaults; a misspelt flag and a request for help end the program.\<close>

lemma program_examples:
  "program E Z [] = Inr (bindG (emitG (EvSetLogger True [])) (\<lambda>_. main E default_flags))"
  "program E Z [''-leader-elect'', ''x''] =
    Inr (bindG (emitG (EvSetLogger True [])) (\<lambda>_. main E (default_flags\<lparr>enableLeaderElection := True\<rparr>)))"
  "f_flags Z = [] \<Longrightarrow> program E Z [''--leader-election''] = Inl 2"
  "program E Z [''--metrics-secure=maybe''] = Inl 2"
  "f_flags Z = [] \<Longrightarrow> program E Z [''-h''] = Inl 0"
  by (simp_all add: program_def declared_default flag_body_def flag_kind_def main_flags_def ParseBool_def)

end
