(* ===== verification/Api_Scheme.thy ===== *)
theory Api_Scheme imports Kube_Api begin

text \<open>
  The types the client knows: the group version and the scheme builder of \<open>groupversion_info.go\<close>, the
  registration in \<open>namespaceclass_types.go\<close> and the \<open>init\<close> of \<open>cmd/main.go\<close>.  The registry itself
  (\<open>runtime.Scheme\<close>, \<open>scheme.Builder\<close>) is the library's: the parameter \<open>S\<close>.
\<close>

definition GroupVersion_value :: GroupVersion where
  "GroupVersion_value = \<lparr>gv_Group = ''nhudson.dev'', gv_Version = ''v1alpha1''\<rparr>"

text \<open>The two Go types that are registered; the library takes the kind from the name of the type.\<close>

datatype api_type = TypeNamespaceClass | TypeNamespaceClassList

fun type_name :: "api_type \<Rightarrow> string" where
  "type_name TypeNamespaceClass = ''NamespaceClass''"
| "type_name TypeNamespaceClassList = ''NamespaceClassList''"

record ('b, 's) scheme_ops =
  NewScheme :: 's
  NewBuilder :: "GroupVersion \<Rightarrow> 'b"
  Register :: "api_type list \<Rightarrow> 'b \<Rightarrow> 'b"
  BuilderAddToScheme :: "'b \<Rightarrow> 's \<Rightarrow> 's \<times> go_error option"
  clientgo_AddToScheme :: "'s \<Rightarrow> 's \<times> go_error option"

text \<open>\<open>&scheme.Builder{GroupVersion: GroupVersion}\<close>, after the \<open>init\<close> of the package.\<close>

definition SchemeBuilder :: "('b, 's) scheme_ops \<Rightarrow> 'b" where
  "SchemeBuilder S = NewBuilder S GroupVersion_value"

definition init_types :: "('b, 's) scheme_ops \<Rightarrow> 'b \<Rightarrow> 'b" where
  "init_types S builder = Register S [TypeNamespaceClass, TypeNamespaceClassList] builder"

definition AddToScheme :: "('b, 's) scheme_ops \<Rightarrow> 's \<Rightarrow> 's \<times> go_error option" where
  "AddToScheme S = BuilderAddToScheme S (init_types S (SchemeBuilder S))"

text \<open>\<open>utilruntime.Must\<close>: \<open>None\<close> is its panic.\<close>

definition Must :: "'s \<times> go_error option \<Rightarrow> 's option" where
  "Must a = (case snd a of None \<Rightarrow> Some (fst a) | Some e \<Rightarrow> None)"

text \<open>The \<open>init\<close> of the program; the packages it imports have been initialized before.\<close>

definition init_main :: "('b, 's) scheme_ops \<Rightarrow> 's option" where
  "init_main S =
     (case Must (clientgo_AddToScheme S (NewScheme S)) of
        None \<Rightarrow> None
      | Some sch \<Rightarrow> Must (AddToScheme S sch))"

section \<open>The registry\<close>

text \<open>
  \<open>kinds sch\<close> are the kinds a scheme knows and \<open>pending b\<close> the types a builder holds, for its group version: registering
  adds types to the builder, adding a builder to a scheme adds its types to the scheme, and nothing is forgotten.
\<close>

locale scheme_registry =
  fixes S :: "('b, 's) scheme_ops" and kinds :: "'s \<Rightarrow> GroupVersionKind set"
    and pending :: "'b \<Rightarrow> api_type set" and builder_gv :: "'b \<Rightarrow> GroupVersion"
  assumes new_builder: "builder_gv (NewBuilder S gv) = gv"
    and register: "pending (Register S ts b) = pending b \<union> set ts" "builder_gv (Register S ts b) = builder_gv b"
    and add: "BuilderAddToScheme S b sch = (sch', None) \<Longrightarrow>
      kinds sch' \<supseteq> kinds sch \<union> (\<lambda>t. \<lparr>Group = gv_Group (builder_gv b), Version = gv_Version (builder_gv b), Kind = type_name t\<rparr>) ` pending b"
begin

lemma init_kinds:
  assumes "init_main S = Some sch"
  shows "(\<exists>sch0. clientgo_AddToScheme S (NewScheme S) = (sch0, None) \<and> kinds sch0 \<subseteq> kinds sch) \<and>
    {\<lparr>Group = ''nhudson.dev'', Version = ''v1alpha1'', Kind = ''NamespaceClass''\<rparr>,
     \<lparr>Group = ''nhudson.dev'', Version = ''v1alpha1'', Kind = ''NamespaceClassList''\<rparr>} \<subseteq> kinds sch"
proof -
  obtain sch0 where first: "clientgo_AddToScheme S (NewScheme S) = (sch0, None)" and "AddToScheme S sch0 = (sch, None)"
    using assms by (cases "clientgo_AddToScheme S (NewScheme S)"; cases "AddToScheme S (fst (clientgo_AddToScheme S (NewScheme S)))")
      (auto simp: init_main_def Must_def split: option.splits)
  then have "BuilderAddToScheme S (init_types S (SchemeBuilder S)) sch0 = (sch, None)" by (simp add: AddToScheme_def)
  from add [OF this] first show ?thesis
    by (auto simp: init_types_def SchemeBuilder_def register new_builder GroupVersion_value_def)
qed

end

text \<open>A registry as lists.\<close>

definition list_registry :: "(GroupVersion \<times> api_type list, GroupVersionKind list) scheme_ops" where
  "list_registry =
     \<lparr>NewScheme = [], NewBuilder = (\<lambda>gv. (gv, [])), Register = (\<lambda>ts b. (fst b, snd b @ ts)),
      BuilderAddToScheme = (\<lambda>b sch. (sch @ map (\<lambda>t. \<lparr>Group = gv_Group (fst b), Version = gv_Version (fst b),
        Kind = type_name t\<rparr>) (snd b), None)),
      clientgo_AddToScheme = (\<lambda>sch. (sch @ [\<lparr>Group = [], Version = ''v1'', Kind = ''Namespace''\<rparr>], None))\<rparr>"

interpretation lists_registered: scheme_registry list_registry set "\<lambda>b. set (snd b)" fst
  by standard (auto simp: list_registry_def)

section \<open>Properties\<close>

text \<open>
  The program knows its types: when its \<open>init\<close> does not panic, the scheme it makes the manager with has the class and the
  list of classes in the group version \<open>nhudson.dev/v1alpha1\<close>, and every kind the client library registered before.
\<close>

theorem init_registers_types:
  assumes "scheme_registry S kinds pending builder_gv" and "init_main S = Some sch"
  shows "(\<exists>sch0. clientgo_AddToScheme S (NewScheme S) = (sch0, None) \<and> kinds sch0 \<subseteq> kinds sch) \<and>
    {\<lparr>Group = ''nhudson.dev'', Version = ''v1alpha1'', Kind = ''NamespaceClass''\<rparr>,
     \<lparr>Group = ''nhudson.dev'', Version = ''v1alpha1'', Kind = ''NamespaceClassList''\<rparr>} \<subseteq> kinds sch"
  using assms by (rule scheme_registry.init_kinds)

lemma init_registers_types_witness:
  "\<exists>sch. init_main list_registry = Some sch \<and>
    {\<lparr>Group = ''nhudson.dev'', Version = ''v1alpha1'', Kind = ''NamespaceClass''\<rparr>,
     \<lparr>Group = ''nhudson.dev'', Version = ''v1alpha1'', Kind = ''NamespaceClassList''\<rparr>} \<subseteq> set sch"
proof -
  obtain sch where "init_main list_registry = Some sch"
    by (simp add: init_main_def Must_def AddToScheme_def list_registry_def)
  with init_registers_types [OF lists_registered.scheme_registry_axioms this] show ?thesis by blast
qed

end
