(* ===== verification/Deep_Copy.thy ===== *)
theory Deep_Copy imports Kube_Api begin

text \<open>
  The deep copies of the API types: \<open>zz_generated.deepcopy.go\<close>.  What they promise is about aliasing, so the
  memory is explicit here: a list of cells, each an array, where allocation appends a cell.  A slice is nil or a
  part of an array; a pointer is nil or a place in an array.  The copies of the library's types
  (\<open>ObjectMeta\<close>, \<open>ListMeta\<close>, \<open>RawExtension\<close>, \<open>Condition\<close>) are parameters.

  The locale \<open>deep_copier\<close> is the contract of a \<open>DeepCopyInto\<close>; it is handed on from the library's types to slices
  and structs of them.
\<close>

type_synonym addr = nat

datatype slice = NilSlice | Slice addr nat nat

type_synonym pointer = "(addr \<times> nat) option"

section \<open>The contract of a copy\<close>

text \<open>A later memory that has the cells from \<open>l\<close> on as they are in \<open>m\<close>; those before may have been written to.\<close>

definition same_from :: "nat \<Rightarrow> 'm list \<Rightarrow> 'm list \<Rightarrow> bool" where
  "same_from l m m' \<longleftrightarrow> length m \<le> length m' \<and> (\<forall>a. l \<le> a \<longrightarrow> a < length m \<longrightarrow> m' ! a = m ! a)"

lemma same_fromD: "same_from l m m' \<Longrightarrow> l \<le> a \<Longrightarrow> a < length m \<Longrightarrow> m' ! a = m ! a"
  by (simp add: same_from_def)

lemma same_from_length: "same_from l m m' \<Longrightarrow> length m \<le> length m'"
  by (simp add: same_from_def)

lemma same_from_refl [simp]: "same_from l m m"
  by (simp add: same_from_def)

lemma same_from_later: "same_from l (m @ ts) m' \<Longrightarrow> l \<le> k \<Longrightarrow> same_from k m m'"
  by (auto simp: same_from_def nth_append)

lemma same_from_write: "same_from (Suc d) (m[d := c]) m' \<longleftrightarrow> same_from (Suc d) m m'"
  by (auto simp: same_from_def)

lemma same_from_weaken: "same_from l m m' \<Longrightarrow> l \<le> k \<Longrightarrow> same_from k m m'"
  by (auto simp: same_from_def)

text \<open>
  \<open>copy x m\<close> gives the copy and the memory after it; \<open>view m x\<close> is the value of \<open>x\<close> with everything it refers to, and \<open>ok m x\<close>
  says that these references are there.
\<close>

locale deep_copier =
  fixes copy :: "'a \<Rightarrow> 'm list \<Rightarrow> 'a \<times> 'm list"
    and view :: "'m list \<Rightarrow> 'a \<Rightarrow> 'v"
    and ok :: "'m list \<Rightarrow> 'a \<Rightarrow> bool"
  assumes copy_allocates: "ok m x \<Longrightarrow> copy x m = (y, m') \<Longrightarrow> \<exists>ts. m' = m @ ts"
    and copy_fresh: "ok m x \<Longrightarrow> copy x m = (y, m') \<Longrightarrow> same_from (length m) m' m'' \<Longrightarrow> ok m'' y \<and> view m'' y = view m x"
    and view_frame: "ok m x \<Longrightarrow> ok (m @ ts) x \<and> view (m @ ts) x = view m x"

section \<open>Flat values, two parts, a part of a struct\<close>

lemma deep_copier_flat: "deep_copier Pair (\<lambda>_ x. x) (\<lambda>_ _. True)"
  by standard auto

text \<open>One copy after the other.\<close>

definition copyBoth :: "('a \<Rightarrow> 'm list \<Rightarrow> 'a \<times> 'm list) \<Rightarrow> ('b \<Rightarrow> 'm list \<Rightarrow> 'b \<times> 'm list) \<Rightarrow> 'a \<times> 'b \<Rightarrow> 'm list \<Rightarrow> ('a \<times> 'b) \<times> 'm list" where
  "copyBoth f g p m = (case f (fst p) m of (x, m1) \<Rightarrow> case g (snd p) m1 of (y, m2) \<Rightarrow> ((x, y), m2))"

lemma deep_copier_both:
  assumes f: "deep_copier f v okf" and g: "deep_copier g w okg"
  shows "deep_copier (copyBoth f g) (\<lambda>m p. (v m (fst p), w m (snd p))) (\<lambda>m p. okf m (fst p) \<and> okg m (snd p))"
proof
  fix m p q m'
  assume ok: "okf m (fst p) \<and> okg m (snd p)" and run: "copyBoth f g p m = (q, m')"
  obtain x m1 where x: "f (fst p) m = (x, m1)" by (cases "f (fst p) m")
  with run obtain y where y: "g (snd p) m1 = (y, m')" and q: "q = (x, y)"
    by (cases "g (snd p) m1") (simp add: copyBoth_def)
  obtain t where t: "m1 = m @ t" using deep_copier.copy_allocates [OF f _ x] ok by blast
  have okg: "okg m1 (snd p)" "w m1 (snd p) = w m (snd p)" using deep_copier.view_frame [OF g] ok t by auto
  obtain u where u: "m' = m1 @ u" using deep_copier.copy_allocates [OF g okg(1) y] by blast
  show "\<exists>ts. m' = m @ ts" using t u by simp
  fix m''
  assume "same_from (length m) m' m''"
  then have "same_from (length m) m1 m''" "same_from (length m1) m' m''"
    using t u by (auto intro: same_from_later same_from_weaken)
  with deep_copier.copy_fresh [OF f _ x] deep_copier.copy_fresh [OF g okg(1) y] ok okg(2) q
  show "(okf m'' (fst q) \<and> okg m'' (snd q)) \<and> (v m'' (fst q), w m'' (snd q)) = (v m (fst p), w m (snd p))" by simp
next
  fix m p ts
  assume "okf m (fst p) \<and> okg m (snd p)"
  then show "(okf (m @ ts) (fst p) \<and> okg (m @ ts) (snd p)) \<and>
      (v (m @ ts) (fst p), w (m @ ts) (snd p)) = (v m (fst p), w m (snd p))"
    using deep_copier.view_frame [OF f] deep_copier.view_frame [OF g] by simp
qed

text \<open>A copy that copies a part and takes the rest as it is, which \<open>rest\<close> tells.\<close>

lemma deep_copier_part:
  assumes c: "deep_copier c v okc" and copy: "\<And>x m. copy x m = (case c (part x) m of (p, m') \<Rightarrow> (put p x, m'))"
    and part: "\<And>x p. part (put p x) = p" and rest: "\<And>x p. rest (put p x) = rest x"
    and view: "\<And>m x. view m x = (rest x, v m (part x))" and ok: "\<And>m x. ok m x = okc m (part x)"
  shows "deep_copier copy view ok"
proof
  fix m x y m'
  assume "ok m x" and run: "copy x m = (y, m')"
  then have okx: "okc m (part x)" by (simp add: ok)
  obtain p where p: "c (part x) m = (p, m')" and y: "y = put p x"
    using run by (cases "c (part x) m") (simp add: copy)
  show "\<exists>ts. m' = m @ ts" by (rule deep_copier.copy_allocates [OF c okx p])
  fix m''
  assume "same_from (length m) m' m''"
  from deep_copier.copy_fresh [OF c okx p this] show "ok m'' y \<and> view m'' y = view m x"
    by (simp add: y part rest view ok)
next
  fix m x ts
  assume "ok m x"
  with deep_copier.view_frame [OF c, of m "part x"] show "ok (m @ ts) x \<and> view (m @ ts) x = view m x"
    by (simp add: view ok)
qed

section \<open>Slices\<close>

text \<open>\<open>for i := range *in { (*in)[i].DeepCopyInto(&(*out)[i]) }\<close>, from the index \<open>i\<close> on; \<open>get\<close> and \<open>mk\<close> are the arrays in cells.\<close>

primrec copyLoop :: "('a \<Rightarrow> 'm list \<Rightarrow> 'a \<times> 'm list) \<Rightarrow> ('m \<Rightarrow> 'a list) \<Rightarrow> ('a list \<Rightarrow> 'm) \<Rightarrow>
    addr \<Rightarrow> nat \<Rightarrow> addr \<Rightarrow> nat \<Rightarrow> nat \<Rightarrow> 'm list \<Rightarrow> 'm list" where
  "copyLoop copy get mk a off d 0 i m = m"
| "copyLoop copy get mk a off d (Suc k) i m =
     (case copy (get (m ! a) ! (off + i)) m of
        (y, m1) \<Rightarrow> copyLoop copy get mk a off d k (Suc i) (m1[d := mk ((get (m1 ! d))[i := y])]))"

text \<open>\<open>if in != nil { *out = make(..., len(*in)); for ... }\<close>\<close>

definition copySlice :: "('a \<Rightarrow> 'm list \<Rightarrow> 'a \<times> 'm list) \<Rightarrow> ('m \<Rightarrow> 'a list) \<Rightarrow> ('a list \<Rightarrow> 'm) \<Rightarrow> 'a \<Rightarrow>
    slice \<Rightarrow> 'm list \<Rightarrow> slice \<times> 'm list" where
  "copySlice copy get mk zero s m =
     (case s of
        NilSlice \<Rightarrow> (NilSlice, m)
      | Slice a off n \<Rightarrow> (Slice (length m) 0 n, copyLoop copy get mk a off (length m) n 0 (m @ [mk (replicate n zero)])))"

definition view_slice :: "('m \<Rightarrow> 'a list) \<Rightarrow> ('m list \<Rightarrow> 'a \<Rightarrow> 'v) \<Rightarrow> 'm list \<Rightarrow> slice \<Rightarrow> 'v list option" where
  "view_slice get view m s =
     (case s of NilSlice \<Rightarrow> None | Slice a off n \<Rightarrow> Some (map (\<lambda>i. view m (get (m ! a) ! (off + i))) [0..<n]))"

definition ok_slice :: "('m \<Rightarrow> 'a list) \<Rightarrow> ('m list \<Rightarrow> 'a \<Rightarrow> bool) \<Rightarrow> 'm list \<Rightarrow> slice \<Rightarrow> bool" where
  "ok_slice get ok m s =
     (case s of NilSlice \<Rightarrow> True
      | Slice a off n \<Rightarrow> a < length m \<and> off + n \<le> length (get (m ! a)) \<and> (\<forall>i<n. ok m (get (m ! a) ! (off + i))))"

locale slice_copier = deep_copier copy view ok
  for copy :: "'a \<Rightarrow> 'm list \<Rightarrow> 'a \<times> 'm list" and view :: "'m list \<Rightarrow> 'a \<Rightarrow> 'v" and ok :: "'m list \<Rightarrow> 'a \<Rightarrow> bool" +
  fixes get :: "'m \<Rightarrow> 'a list" and mk :: "'a list \<Rightarrow> 'm"
  assumes get_mk: "get (mk xs) = xs"
begin

text \<open>The elements below \<open>i\<close> of the new array at \<open>d\<close> are copies, and rest on cells after \<open>d\<close> only.\<close>

definition copied :: "'m list \<Rightarrow> addr \<Rightarrow> nat \<Rightarrow> nat \<Rightarrow> nat \<Rightarrow> 'm list \<Rightarrow> bool" where
  "copied m a off n i M \<longleftrightarrow> (\<exists>c ts. M = m @ c # ts \<and> length (get c) = n \<and>
     (\<forall>j<i. \<forall>M'. same_from (Suc (length m)) M M' \<longrightarrow>
        ok M' (get c ! j) \<and> view M' (get c ! j) = view m (get (m ! a) ! (off + j))))"

lemma copied_step:
  assumes "copied m a off n i M" and "i < n" and a: "a < length m" and ok: "ok m (get (m ! a) ! (off + i))"
    and run: "copy (get (M ! a) ! (off + i)) M = (y, M1)"
  shows "copied m a off n (Suc i) (M1[length m := mk ((get (M1 ! length m))[i := y])])"
proof -
  obtain c ts where M: "M = m @ c # ts" and len: "length (get c) = n"
    and old: "\<And>j M'. j < i \<Longrightarrow> same_from (Suc (length m)) M M' \<Longrightarrow>
      ok M' (get c ! j) \<and> view M' (get c ! j) = view m (get (m ! a) ! (off + j))"
    using assms(1) unfolding copied_def by blast
  have src: "get (M ! a) ! (off + i) = get (m ! a) ! (off + i)" using a M by (simp add: nth_append)
  have okM: "ok M (get (m ! a) ! (off + i))" "view M (get (m ! a) ! (off + i)) = view m (get (m ! a) ! (off + i))"
    using view_frame [OF ok, of "c # ts"] M by simp_all
  note run = run [unfolded src]
  obtain us where M1: "M1 = M @ us" using copy_allocates [OF okM(1) run] by blast
  let ?c = "mk ((get c)[i := y])" and ?M2 = "M1[length m := mk ((get (M1 ! length m))[i := y])]"
  have M2: "?M2 = m @ ?c # (ts @ us)" using M M1 by (simp add: nth_append)
  have "ok M' ((get c)[i := y] ! j) \<and> view M' ((get c)[i := y] ! j) = view m (get (m ! a) ! (off + j))"
    if j: "j < Suc i" and same: "same_from (Suc (length m)) ?M2 M'" for j M'
  proof -
    from same have M1': "same_from (Suc (length m)) M1 M'" by (simp only: same_from_write)
    show ?thesis
    proof (cases "j = i")
      case True
      have "same_from (length M) M1 M'" using M1' M by (auto intro: same_from_weaken)
      from copy_fresh [OF okM(1) run this] okM(2) True \<open>i < n\<close> len show ?thesis by simp
    next
      case False
      have "same_from (Suc (length m)) M M'" using M1' M1 by (auto intro: same_from_later)
      with old False j show ?thesis by simp
    qed
  qed
  then show ?thesis
    unfolding copied_def by (intro exI [of _ ?c] exI [of _ "ts @ us"] conjI allI impI M2) (simp_all add: get_mk len)
qed

lemma copied_loop:
  assumes "copied m a off n i M" and "i + k = n" and "a < length m" and "\<And>j. j < n \<Longrightarrow> ok m (get (m ! a) ! (off + j))"
  shows "copied m a off n n (copyLoop copy get mk a off (length m) k i M)"
  using assms
proof (induction k arbitrary: i M)
  case (Suc k)
  obtain y M1 where run: "copy (get (M ! a) ! (off + i)) M = (y, M1)"
    by (cases "copy (get (M ! a) ! (off + i)) M")
  have "copied m a off n (Suc i) (M1[length m := mk ((get (M1 ! length m))[i := y])])"
    by (rule copied_step [OF Suc.prems(1) _ Suc.prems(3) _ run]) (use Suc.prems(2,4) in auto)
  from Suc.IH [OF this _ Suc.prems(3,4)] Suc.prems(2) run show ?case by simp
qed simp

lemma copySlice_copied:
  assumes "ok_slice get ok m (Slice a off n)"
  shows "\<exists>m'. copySlice copy get mk zero (Slice a off n) m = (Slice (length m) 0 n, m') \<and> copied m a off n n m'"
proof -
  have "copied m a off n 0 (m @ [mk (replicate n zero)])"
    unfolding copied_def by (intro exI [of _ "mk (replicate n zero)"] exI [of _ "[]"]) (simp add: get_mk)
  from copied_loop [OF this, of n] assms show ?thesis by (simp add: copySlice_def ok_slice_def)
qed

lemma slice_allocates:
  assumes ok: "ok_slice get ok m s" and run: "copySlice copy get mk zero s m = (s', m')"
  shows "\<exists>ts. m' = m @ ts"
proof (cases s)
  case (Slice a off n)
  from copySlice_copied [OF ok [unfolded Slice], of zero] run Slice have "copied m a off n n m'" by simp
  then show ?thesis unfolding copied_def by blast
qed (use run in \<open>simp add: copySlice_def\<close>)

lemma slice_fresh:
  assumes ok: "ok_slice get ok m s" and run: "copySlice copy get mk zero s m = (s', m')"
    and same: "same_from (length m) m' m''"
  shows "ok_slice get ok m'' s' \<and> view_slice get view m'' s' = view_slice get view m s"
proof (cases s)
  case (Slice a off n)
  from copySlice_copied [OF ok [unfolded Slice], of zero] run Slice
  have s': "s' = Slice (length m) 0 n" and "copied m a off n n m'" by simp_all
  then obtain c ts where m': "m' = m @ c # ts" and len: "length (get c) = n"
    and elems: "\<And>j M'. j < n \<Longrightarrow> same_from (Suc (length m)) m' M' \<Longrightarrow>
      ok M' (get c ! j) \<and> view M' (get c ! j) = view m (get (m ! a) ! (off + j))"
    unfolding copied_def by blast
  have "m'' ! length m = c" "length m < length m''"
    using same m' same_fromD [OF same, of "length m"] same_from_length [OF same] by (auto simp: nth_append)
  moreover have "same_from (Suc (length m)) m' m''" using same by (rule same_from_weaken) simp
  ultimately show ?thesis
    using elems len by (simp add: s' Slice ok_slice_def view_slice_def)
qed (use run in \<open>simp add: copySlice_def ok_slice_def view_slice_def\<close>)

lemma slice_frame:
  assumes "ok_slice get ok m s"
  shows "ok_slice get ok (m @ ts) s \<and> view_slice get view (m @ ts) s = view_slice get view m s"
  using assms view_frame by (cases s) (auto simp: ok_slice_def view_slice_def nth_append)

end

sublocale slice_copier \<subseteq> slices: deep_copier "copySlice copy get mk zero" "view_slice get view" "ok_slice get ok" for zero
  by standard (rule slice_allocates slice_fresh slice_frame; assumption)+

section \<open>Pointers\<close>

text \<open>\<open>DeepCopy\<close>: \<open>if in == nil { return nil }; out := new(T); in.DeepCopyInto(out); return out\<close>.\<close>

definition copyNew :: "('a \<Rightarrow> 'm list \<Rightarrow> 'a \<times> 'm list) \<Rightarrow> ('m \<Rightarrow> 'a list) \<Rightarrow> ('a list \<Rightarrow> 'm) \<Rightarrow> 'a \<Rightarrow>
    pointer \<Rightarrow> 'm list \<Rightarrow> pointer \<times> 'm list" where
  "copyNew copy get mk zero p m =
     (case p of
        None \<Rightarrow> (None, m)
      | Some (a, i) \<Rightarrow>
          let d = length m; m0 = m @ [mk [zero]] in
          (case copy (get (m0 ! a) ! i) m0 of (y, m1) \<Rightarrow> (Some (d, 0), m1[d := mk ((get (m1 ! d))[0 := y])])))"

definition view_pointer :: "('m \<Rightarrow> 'a list) \<Rightarrow> ('m list \<Rightarrow> 'a \<Rightarrow> 'v) \<Rightarrow> 'm list \<Rightarrow> pointer \<Rightarrow> 'v option" where
  "view_pointer get view m p = (case p of None \<Rightarrow> None | Some (a, i) \<Rightarrow> Some (view m (get (m ! a) ! i)))"

definition ok_pointer :: "('m \<Rightarrow> 'a list) \<Rightarrow> ('m list \<Rightarrow> 'a \<Rightarrow> bool) \<Rightarrow> 'm list \<Rightarrow> pointer \<Rightarrow> bool" where
  "ok_pointer get ok m p =
     (case p of None \<Rightarrow> True | Some (a, i) \<Rightarrow> a < length m \<and> i < length (get (m ! a)) \<and> ok m (get (m ! a) ! i))"

text \<open>A pointer is a slice of one element.\<close>

lemma copyNew_slice:
  "copyNew copy get mk zero (Some (a, i)) m = (Some (length m, 0), snd (copySlice copy get mk zero (Slice a i 1) m))"
  by (simp add: copyNew_def copySlice_def Let_def split: prod.split)

lemma ok_pointer_slice: "ok_pointer get ok m (Some (a, i)) = ok_slice get ok m (Slice a i 1)"
  by (auto simp: ok_pointer_def ok_slice_def)

lemma view_pointer_slice: "view_slice get view m (Slice a i 1) = map_option (\<lambda>x. [x]) (view_pointer get view m (Some (a, i)))"
  by (simp add: view_pointer_def view_slice_def)

context slice_copier
begin

lemma pointer_copy:
  assumes ok: "ok_pointer get ok m p" and run: "copyNew copy get mk zero p m = (q, m')"
  shows "(\<exists>ts. m' = m @ ts) \<and>
    (same_from (length m) m' m'' \<longrightarrow> ok_pointer get ok m'' q \<and> view_pointer get view m'' q = view_pointer get view m p)"
proof (cases p)
  case None
  with run show ?thesis by (simp add: copyNew_def ok_pointer_def view_pointer_def)
next
  case (Some ai)
  then obtain a i where p: "p = Some (a, i)" by (cases ai) simp
  note ok = ok [unfolded p ok_pointer_slice]
  from run p have q: "q = Some (length m, 0)" and m': "m' = snd (copySlice copy get mk zero (Slice a i 1) m)"
    by (simp_all add: copyNew_slice)
  then have slice: "copySlice copy get mk zero (Slice a i 1) m = (Slice (length m) 0 1, m')"
    by (simp add: copySlice_def)
  have "ok_pointer get ok m'' q \<and> view_pointer get view m'' q = view_pointer get view m p" if "same_from (length m) m' m''"
    using slice_fresh [OF ok slice that] unfolding q p ok_pointer_slice view_pointer_slice
    by (simp add: view_pointer_def)
  with slice_allocates [OF ok slice] show ?thesis by blast
qed

lemma pointer_frame:
  assumes "ok_pointer get ok m p"
  shows "ok_pointer get ok (m @ ts) p \<and> view_pointer get view (m @ ts) p = view_pointer get view m p"
  using assms view_frame by (cases p) (auto simp: ok_pointer_def view_pointer_def nth_append)

end

sublocale slice_copier \<subseteq> pointers: deep_copier "copyNew copy get mk zero" "view_pointer get view" "ok_pointer get ok" for zero
  by standard (use pointer_copy pointer_frame in blast)+

section \<open>The API types in memory\<close>

record NamespaceClassSpec_struct =
  x_Resources :: slice

record NamespaceClassStatus_struct =
  x_ObservedGeneration :: int64
  x_Namespaces :: slice
  x_Conditions :: slice

record 'o NamespaceClass_struct =
  x_TypeMeta :: "string \<times> string"
  x_ObjectMeta :: 'o
  x_Spec :: NamespaceClassSpec_struct
  x_Status :: NamespaceClassStatus_struct

record 'l NamespaceClassList_struct =
  y_TypeMeta :: "string \<times> string"
  y_ListMeta :: 'l
  y_Items :: slice

datatype ('r, 'c, 'o, 'l, 'x) cell =
    Raws "'r list"
  | Entries "NamespaceClassNamespaceStatus list"
  | Conds "'c list"
  | Specs "NamespaceClassSpec_struct list"
  | Statuses "NamespaceClassStatus_struct list"
  | Classes "'o NamespaceClass_struct list"
  | Lists "'l NamespaceClassList_struct list"
  | Foreign 'x

fun raws_of where "raws_of (Raws xs) = xs" | "raws_of _ = []"
fun entries_of where "entries_of (Entries xs) = xs" | "entries_of _ = []"
fun conds_of where "conds_of (Conds xs) = xs" | "conds_of _ = []"
fun specs_of where "specs_of (Specs xs) = xs" | "specs_of _ = []"
fun statuses_of where "statuses_of (Statuses xs) = xs" | "statuses_of _ = []"
fun classes_of where "classes_of (Classes xs) = xs" | "classes_of _ = []"
fun lists_of where "lists_of (Lists xs) = xs" | "lists_of _ = []"

text \<open>The library's copies and the zero values of its types.\<close>

type_synonym ('r, 'c, 'o, 'l, 'x) memory = "('r, 'c, 'o, 'l, 'x) cell list"

record ('r, 'c, 'o, 'l, 'x) library =
  RawExtension_DeepCopyInto :: "'r \<Rightarrow> ('r, 'c, 'o, 'l, 'x) memory \<Rightarrow> 'r \<times> ('r, 'c, 'o, 'l, 'x) memory"
  Condition_DeepCopyInto :: "'c \<Rightarrow> ('r, 'c, 'o, 'l, 'x) memory \<Rightarrow> 'c \<times> ('r, 'c, 'o, 'l, 'x) memory"
  ObjectMeta_DeepCopyInto :: "'o \<Rightarrow> ('r, 'c, 'o, 'l, 'x) memory \<Rightarrow> 'o \<times> ('r, 'c, 'o, 'l, 'x) memory"
  ListMeta_DeepCopyInto :: "'l \<Rightarrow> ('r, 'c, 'o, 'l, 'x) memory \<Rightarrow> 'l \<times> ('r, 'c, 'o, 'l, 'x) memory"
  zero_RawExtension :: 'r
  zero_Condition :: 'c
  zero_ObjectMeta :: 'o
  zero_ListMeta :: 'l

section \<open>The generated functions\<close>

text \<open>Each \<open>DeepCopyInto\<close> gives what it writes to \<open>*out\<close>; \<open>*out = *in\<close> is the value of the receiver.\<close>

definition zero_NamespaceStatus :: NamespaceClassNamespaceStatus where
  "zero_NamespaceStatus = \<lparr>st_Name = '''', st_CurrentClass = '''', st_LastAppliedClass = '''', st_ResourceStatus = ''''\<rparr>"

definition NamespaceClassNamespaceStatus_DeepCopyInto ::
  "NamespaceClassNamespaceStatus \<Rightarrow> 'm list \<Rightarrow> NamespaceClassNamespaceStatus \<times> 'm list" where
  "NamespaceClassNamespaceStatus_DeepCopyInto st m = (st, m)"

definition NamespaceClassNamespaceStatus_DeepCopy ::
  "pointer \<Rightarrow> ('r, 'c, 'o, 'l, 'x) memory \<Rightarrow> pointer \<times> ('r, 'c, 'o, 'l, 'x) memory" where
  "NamespaceClassNamespaceStatus_DeepCopy =
     copyNew NamespaceClassNamespaceStatus_DeepCopyInto entries_of Entries zero_NamespaceStatus"

definition NamespaceClassSpec_DeepCopyInto ::
  "('r, 'c, 'o, 'l, 'x) library \<Rightarrow> NamespaceClassSpec_struct \<Rightarrow> ('r, 'c, 'o, 'l, 'x) memory \<Rightarrow>
   NamespaceClassSpec_struct \<times> ('r, 'c, 'o, 'l, 'x) memory" where
  "NamespaceClassSpec_DeepCopyInto L sp m =
     (case copySlice (RawExtension_DeepCopyInto L) raws_of Raws (zero_RawExtension L) (x_Resources sp) m of
        (rs, m1) \<Rightarrow> (sp\<lparr>x_Resources := rs\<rparr>, m1))"

definition NamespaceClassSpec_DeepCopy ::
  "('r, 'c, 'o, 'l, 'x) library \<Rightarrow> pointer \<Rightarrow> ('r, 'c, 'o, 'l, 'x) memory \<Rightarrow> pointer \<times> ('r, 'c, 'o, 'l, 'x) memory" where
  "NamespaceClassSpec_DeepCopy L =
     copyNew (NamespaceClassSpec_DeepCopyInto L) specs_of Specs \<lparr>x_Resources = NilSlice\<rparr>"

text \<open>The builtin \<open>copy\<close>: as many elements as both have.\<close>

definition builtin_copy :: "'a list \<Rightarrow> 'a list \<Rightarrow> 'a list" where
  "builtin_copy dst src = take (length dst) src @ drop (length src) dst"

definition copyEntries :: "slice \<Rightarrow> ('r, 'c, 'o, 'l, 'x) memory \<Rightarrow> slice \<times> ('r, 'c, 'o, 'l, 'x) memory" where
  "copyEntries s m =
     (case s of
        NilSlice \<Rightarrow> (NilSlice, m)
      | Slice a off n \<Rightarrow>
          let d = length m; m1 = m @ [Entries (replicate n zero_NamespaceStatus)] in
          (Slice d 0 n, m1[d := Entries (builtin_copy (entries_of (m1 ! d)) (take n (drop off (entries_of (m1 ! a)))))]))"

definition NamespaceClassStatus_DeepCopyInto ::
  "('r, 'c, 'o, 'l, 'x) library \<Rightarrow> NamespaceClassStatus_struct \<Rightarrow> ('r, 'c, 'o, 'l, 'x) memory \<Rightarrow>
   NamespaceClassStatus_struct \<times> ('r, 'c, 'o, 'l, 'x) memory" where
  "NamespaceClassStatus_DeepCopyInto L st m =
     (case copyEntries (x_Namespaces st) m of
        (nss, m1) \<Rightarrow>
          case copySlice (Condition_DeepCopyInto L) conds_of Conds (zero_Condition L) (x_Conditions st) m1 of
            (cs, m2) \<Rightarrow> (st\<lparr>x_Namespaces := nss, x_Conditions := cs\<rparr>, m2))"

definition zero_Status :: NamespaceClassStatus_struct where
  "zero_Status = \<lparr>x_ObservedGeneration = 0, x_Namespaces = NilSlice, x_Conditions = NilSlice\<rparr>"

definition NamespaceClassStatus_DeepCopy ::
  "('r, 'c, 'o, 'l, 'x) library \<Rightarrow> pointer \<Rightarrow> ('r, 'c, 'o, 'l, 'x) memory \<Rightarrow> pointer \<times> ('r, 'c, 'o, 'l, 'x) memory" where
  "NamespaceClassStatus_DeepCopy L = copyNew (NamespaceClassStatus_DeepCopyInto L) statuses_of Statuses zero_Status"

definition NamespaceClass_DeepCopyInto ::
  "('r, 'c, 'o, 'l, 'x) library \<Rightarrow> 'o NamespaceClass_struct \<Rightarrow> ('r, 'c, 'o, 'l, 'x) memory \<Rightarrow>
   'o NamespaceClass_struct \<times> ('r, 'c, 'o, 'l, 'x) memory" where
  "NamespaceClass_DeepCopyInto L nc m =
     (case ObjectMeta_DeepCopyInto L (x_ObjectMeta nc) m of
        (om, m1) \<Rightarrow>
          case NamespaceClassSpec_DeepCopyInto L (x_Spec nc) m1 of
            (sp, m2) \<Rightarrow>
              case NamespaceClassStatus_DeepCopyInto L (x_Status nc) m2 of
                (st, m3) \<Rightarrow> (nc\<lparr>x_TypeMeta := x_TypeMeta nc, x_ObjectMeta := om, x_Spec := sp, x_Status := st\<rparr>, m3))"

definition zero_Class :: "('r, 'c, 'o, 'l, 'x) library \<Rightarrow> 'o NamespaceClass_struct" where
  "zero_Class L = \<lparr>x_TypeMeta = ('''', ''''), x_ObjectMeta = zero_ObjectMeta L, x_Spec = \<lparr>x_Resources = NilSlice\<rparr>,
     x_Status = zero_Status\<rparr>"

definition NamespaceClass_DeepCopy ::
  "('r, 'c, 'o, 'l, 'x) library \<Rightarrow> pointer \<Rightarrow> ('r, 'c, 'o, 'l, 'x) memory \<Rightarrow> pointer \<times> ('r, 'c, 'o, 'l, 'x) memory" where
  "NamespaceClass_DeepCopy L = copyNew (NamespaceClass_DeepCopyInto L) classes_of Classes (zero_Class L)"

definition NamespaceClassList_DeepCopyInto ::
  "('r, 'c, 'o, 'l, 'x) library \<Rightarrow> 'l NamespaceClassList_struct \<Rightarrow> ('r, 'c, 'o, 'l, 'x) memory \<Rightarrow>
   'l NamespaceClassList_struct \<times> ('r, 'c, 'o, 'l, 'x) memory" where
  "NamespaceClassList_DeepCopyInto L ls m =
     (case ListMeta_DeepCopyInto L (y_ListMeta ls) m of
        (lm, m1) \<Rightarrow>
          case copySlice (NamespaceClass_DeepCopyInto L) classes_of Classes (zero_Class L) (y_Items ls) m1 of
            (items, m2) \<Rightarrow> (ls\<lparr>y_TypeMeta := y_TypeMeta ls, y_ListMeta := lm, y_Items := items\<rparr>, m2))"

definition NamespaceClassList_DeepCopy ::
  "('r, 'c, 'o, 'l, 'x) library \<Rightarrow> pointer \<Rightarrow> ('r, 'c, 'o, 'l, 'x) memory \<Rightarrow> pointer \<times> ('r, 'c, 'o, 'l, 'x) memory" where
  "NamespaceClassList_DeepCopy L =
     copyNew (NamespaceClassList_DeepCopyInto L) lists_of Lists
       \<lparr>y_TypeMeta = ('''', ''''), y_ListMeta = zero_ListMeta L, y_Items = NilSlice\<rparr>"

text \<open>A \<open>runtime.Object\<close>: nil, or a pointer to one of the two types.\<close>

datatype Object_value = NilObject | ClassObject "addr \<times> nat" | ClassListObject "addr \<times> nat"

definition NamespaceClass_DeepCopyObject ::
  "('r, 'c, 'o, 'l, 'x) library \<Rightarrow> pointer \<Rightarrow> ('r, 'c, 'o, 'l, 'x) memory \<Rightarrow> Object_value \<times> ('r, 'c, 'o, 'l, 'x) memory" where
  "NamespaceClass_DeepCopyObject L p m =
     (case NamespaceClass_DeepCopy L p m of
        (c, m1) \<Rightarrow> ((case c of Some q \<Rightarrow> ClassObject q | None \<Rightarrow> NilObject), m1))"

definition NamespaceClassList_DeepCopyObject ::
  "('r, 'c, 'o, 'l, 'x) library \<Rightarrow> pointer \<Rightarrow> ('r, 'c, 'o, 'l, 'x) memory \<Rightarrow> Object_value \<times> ('r, 'c, 'o, 'l, 'x) memory" where
  "NamespaceClassList_DeepCopyObject L p m =
     (case NamespaceClassList_DeepCopy L p m of
        (c, m1) \<Rightarrow> ((case c of Some q \<Rightarrow> ClassListObject q | None \<Rightarrow> NilObject), m1))"

section \<open>What the values mean\<close>

text \<open>The value of a library type with all it refers to, and that its references are there.\<close>

record ('r, 'c, 'o, 'l, 'm, 'vr, 'vc, 'vo, 'vl) meaning =
  v_Raw :: "'m list \<Rightarrow> 'r \<Rightarrow> 'vr"
  v_Cond :: "'m list \<Rightarrow> 'c \<Rightarrow> 'vc"
  v_Meta :: "'m list \<Rightarrow> 'o \<Rightarrow> 'vo"
  v_ListMeta :: "'m list \<Rightarrow> 'l \<Rightarrow> 'vl"
  ok_Raw :: "'m list \<Rightarrow> 'r \<Rightarrow> bool"
  ok_Cond :: "'m list \<Rightarrow> 'c \<Rightarrow> bool"
  ok_Meta :: "'m list \<Rightarrow> 'o \<Rightarrow> bool"
  ok_ListMeta :: "'m list \<Rightarrow> 'l \<Rightarrow> bool"

definition view_Spec where
  "view_Spec V m sp = ((), view_slice raws_of (v_Raw V) m (x_Resources sp))"

definition ok_Spec where
  "ok_Spec V m sp = ok_slice raws_of (ok_Raw V) m (x_Resources sp)"

definition view_Status where
  "view_Status V m st = (x_ObservedGeneration st, view_slice entries_of (\<lambda>_ e. e) m (x_Namespaces st),
     view_slice conds_of (v_Cond V) m (x_Conditions st))"

definition ok_Status where
  "ok_Status V m st \<longleftrightarrow> ok_slice entries_of (\<lambda>_ _. True) m (x_Namespaces st) \<and>
     ok_slice conds_of (ok_Cond V) m (x_Conditions st)"

definition view_Class where
  "view_Class V m nc = (x_TypeMeta nc, v_Meta V m (x_ObjectMeta nc), view_Spec V m (x_Spec nc), view_Status V m (x_Status nc))"

definition ok_Class where
  "ok_Class V m nc \<longleftrightarrow> ok_Meta V m (x_ObjectMeta nc) \<and> ok_Spec V m (x_Spec nc) \<and> ok_Status V m (x_Status nc)"

definition view_List where
  "view_List V m ls = (y_TypeMeta ls, v_ListMeta V m (y_ListMeta ls), view_slice classes_of (view_Class V) m (y_Items ls))"

definition ok_List where
  "ok_List V m ls \<longleftrightarrow> ok_ListMeta V m (y_ListMeta ls) \<and> ok_slice classes_of (ok_Class V) m (y_Items ls)"

section \<open>The generated functions keep the contract\<close>

text \<open>The copies of the library's types keep it.\<close>

locale apimachinery =
  raw: deep_copier "RawExtension_DeepCopyInto L" "v_Raw V" "ok_Raw V" +
  cond: deep_copier "Condition_DeepCopyInto L" "v_Cond V" "ok_Cond V" +
  meta: deep_copier "ObjectMeta_DeepCopyInto L" "v_Meta V" "ok_Meta V" +
  listmeta: deep_copier "ListMeta_DeepCopyInto L" "v_ListMeta V" "ok_ListMeta V"
  for L :: "('r, 'c, 'o, 'l, 'x) library"
    and V :: "('r, 'c, 'o, 'l, ('r, 'c, 'o, 'l, 'x) cell, 'vr, 'vc, 'vo, 'vl) meaning"

sublocale apimachinery \<subseteq> raws: slice_copier "RawExtension_DeepCopyInto L" "v_Raw V" "ok_Raw V" raws_of Raws
  by standard simp

sublocale apimachinery \<subseteq> conds: slice_copier "Condition_DeepCopyInto L" "v_Cond V" "ok_Cond V" conds_of Conds
  by standard simp

interpretation entry: slice_copier NamespaceClassNamespaceStatus_DeepCopyInto "\<lambda>_ e. e" "\<lambda>_ _. True" entries_of Entries
  by standard (auto simp: NamespaceClassNamespaceStatus_DeepCopyInto_def)

lemma copyEntries_copier: "deep_copier copyEntries (view_slice entries_of (\<lambda>_ e. e)) (ok_slice entries_of (\<lambda>_ _. True))"
proof
  fix m s s' m'
  assume ok: "ok_slice entries_of (\<lambda>_ _. True) m s" and run: "copyEntries s m = (s', m')"
  show "\<exists>ts. m' = m @ ts" using run by (cases s) (auto simp: copyEntries_def Let_def)
  fix m''
  assume same: "same_from (length m) m' m''"
  show "ok_slice entries_of (\<lambda>_ _. True) m'' s' \<and> view_slice entries_of (\<lambda>_ e. e) m'' s' = view_slice entries_of (\<lambda>_ e. e) m s"
  proof (cases s)
    case (Slice a off n)
    let ?src = "take n (drop off (entries_of (m ! a)))"
    from ok Slice have a: "a < length m" and len: "length ?src = n" by (auto simp: ok_slice_def)
    with run Slice have s': "s' = Slice (length m) 0 n" and m': "m' = m @ [Entries ?src]"
      by (auto simp: copyEntries_def Let_def builtin_copy_def nth_append)
    have "m'' ! length m = Entries ?src" "length m < length m''"
      using same_fromD [OF same, of "length m"] same_from_length [OF same] m' by (auto simp: nth_append)
    with len a ok Slice show ?thesis by (auto simp: s' ok_slice_def view_slice_def)
  qed (use run in \<open>simp add: copyEntries_def ok_slice_def view_slice_def\<close>)
next
  fix m s ts
  assume "ok_slice entries_of (\<lambda>_ _. True) m s"
  then show "ok_slice entries_of (\<lambda>_ _. True) (m @ ts) s \<and>
      view_slice entries_of (\<lambda>_ e. e) (m @ ts) s = view_slice entries_of (\<lambda>_ e. e) m s"
    by (rule entry.slice_frame)
qed

context apimachinery
begin

lemma spec_copier: "deep_copier (NamespaceClassSpec_DeepCopyInto L) (view_Spec V) (ok_Spec V)"
  by (rule deep_copier_part [OF raws.slices.deep_copier_axioms, where part = x_Resources
        and put = "\<lambda>rs. x_Resources_update (\<lambda>_. rs)" and rest = "\<lambda>_. ()"])
    (simp_all add: NamespaceClassSpec_DeepCopyInto_def view_Spec_def ok_Spec_def)

lemma status_copier: "deep_copier (NamespaceClassStatus_DeepCopyInto L) (view_Status V) (ok_Status V)"
  by (rule deep_copier_part [OF deep_copier_both [OF copyEntries_copier conds.slices.deep_copier_axioms [where zero = "zero_Condition L"]],
        where part = "\<lambda>st. (x_Namespaces st, x_Conditions st)" and rest = x_ObservedGeneration
        and put = "\<lambda>(nss, cs) st. st\<lparr>x_Namespaces := nss, x_Conditions := cs\<rparr>"])
    (auto simp: NamespaceClassStatus_DeepCopyInto_def view_Status_def ok_Status_def copyBoth_def split: prod.split)

lemma class_copier: "deep_copier (NamespaceClass_DeepCopyInto L) (view_Class V) (ok_Class V)"
  by (rule deep_copier_part [OF deep_copier_both [OF meta.deep_copier_axioms deep_copier_both [OF spec_copier status_copier]],
        where part = "\<lambda>nc. (x_ObjectMeta nc, x_Spec nc, x_Status nc)" and rest = x_TypeMeta
        and put = "\<lambda>(om, sp, st) nc. nc\<lparr>x_ObjectMeta := om, x_Spec := sp, x_Status := st\<rparr>"])
    (auto simp: NamespaceClass_DeepCopyInto_def view_Class_def ok_Class_def copyBoth_def split: prod.split)

end

sublocale apimachinery \<subseteq> classes: slice_copier "NamespaceClass_DeepCopyInto L" "view_Class V" "ok_Class V" classes_of Classes
  by (intro slice_copier.intro class_copier slice_copier_axioms.intro) simp

context apimachinery
begin

lemma list_copier: "deep_copier (NamespaceClassList_DeepCopyInto L) (view_List V) (ok_List V)"
  by (rule deep_copier_part [OF deep_copier_both [OF listmeta.deep_copier_axioms classes.slices.deep_copier_axioms [where zero = "zero_Class L"]],
        where part = "\<lambda>ls. (y_ListMeta ls, y_Items ls)" and rest = y_TypeMeta
        and put = "\<lambda>(lm, items) ls. ls\<lparr>y_ListMeta := lm, y_Items := items\<rparr>"])
    (auto simp: NamespaceClassList_DeepCopyInto_def view_List_def ok_List_def copyBoth_def split: prod.split)

end

sublocale apimachinery \<subseteq> lists: slice_copier "NamespaceClassList_DeepCopyInto L" "view_List V" "ok_List V" lists_of Lists
  by (intro slice_copier.intro list_copier slice_copier_axioms.intro) simp

lemma copyNew_None: "copyNew copy get mk zero p m = (q, m') \<Longrightarrow> q = None \<longleftrightarrow> p = None"
  by (auto simp: copyNew_def Let_def split: option.splits prod.splits)

context apimachinery
begin

lemma class_DeepCopy:
  assumes "ok_pointer classes_of (ok_Class V) m p" and "NamespaceClass_DeepCopy L p m = (q, m')"
    and "same_from (length m) m' m''"
  shows "(q = None \<longleftrightarrow> p = None) \<and> (\<exists>ts. m' = m @ ts) \<and>
    view_pointer classes_of (view_Class V) m'' q = view_pointer classes_of (view_Class V) m p"
  using classes.pointer_copy [OF assms(1) assms(2) [unfolded NamespaceClass_DeepCopy_def]] assms(3)
    copyNew_None [OF assms(2) [unfolded NamespaceClass_DeepCopy_def]] by blast

lemma list_DeepCopy:
  assumes "ok_pointer lists_of (ok_List V) m p" and "NamespaceClassList_DeepCopy L p m = (q, m')"
    and "same_from (length m) m' m''"
  shows "(q = None \<longleftrightarrow> p = None) \<and> (\<exists>ts. m' = m @ ts) \<and>
    view_pointer lists_of (view_List V) m'' q = view_pointer lists_of (view_List V) m p"
  using lists.pointer_copy [OF assms(1) assms(2) [unfolded NamespaceClassList_DeepCopy_def]] assms(3)
    copyNew_None [OF assms(2) [unfolded NamespaceClassList_DeepCopy_def]] by blast

end

section \<open>A library\<close>

text \<open>
  One library that keeps the contract, for the witnesses: a resource is nil or refers to its bytes, the other types
  have no references.
\<close>

type_synonym simple_memory = "(addr option, Condition, string, string, string) memory"

definition simple_raw_copy :: "addr option \<Rightarrow> simple_memory \<Rightarrow> addr option \<times> simple_memory" where
  "simple_raw_copy r m = (case r of None \<Rightarrow> (None, m) | Some a \<Rightarrow> (Some (length m), m @ [m ! a]))"

definition simple_raw_view :: "simple_memory \<Rightarrow> addr option \<Rightarrow> string option" where
  "simple_raw_view m r = (case r of None \<Rightarrow> None | Some a \<Rightarrow> Some (case m ! a of Foreign b \<Rightarrow> b | _ \<Rightarrow> []))"

definition simple_raw_ok :: "simple_memory \<Rightarrow> addr option \<Rightarrow> bool" where
  "simple_raw_ok m r \<longleftrightarrow> (case r of None \<Rightarrow> True | Some a \<Rightarrow> a < length m)"

definition zero_Condition_value :: Condition where
  "zero_Condition_value = \<lparr>co_Type = [], co_Status = [], co_Reason = [], co_Message = [], co_LastTransitionTime = 0\<rparr>"

definition simple_library :: "(addr option, Condition, string, string, string) library" where
  "simple_library = \<lparr>RawExtension_DeepCopyInto = simple_raw_copy, Condition_DeepCopyInto = Pair, ObjectMeta_DeepCopyInto = Pair,
     ListMeta_DeepCopyInto = Pair, zero_RawExtension = None, zero_Condition = zero_Condition_value, zero_ObjectMeta = [],
     zero_ListMeta = []\<rparr>"

definition simple_meaning ::
  "(addr option, Condition, string, string, (addr option, Condition, string, string, string) cell, string option, Condition, string, string) meaning" where
  "simple_meaning = \<lparr>v_Raw = simple_raw_view, v_Cond = (\<lambda>_ c. c), v_Meta = (\<lambda>_ x. x), v_ListMeta = (\<lambda>_ x. x),
     ok_Raw = simple_raw_ok, ok_Cond = (\<lambda>_ _. True), ok_Meta = (\<lambda>_ _. True), ok_ListMeta = (\<lambda>_ _. True)\<rparr>"

lemma simple_raw_copier: "deep_copier simple_raw_copy simple_raw_view simple_raw_ok"
proof
  fix m r r' m' m''
  assume "simple_raw_ok m r" "simple_raw_copy r m = (r', m')" and same: "same_from (length m) m' m''"
  with same_fromD [OF same, of "length m"] same_from_length [OF same]
  show "simple_raw_ok m'' r' \<and> simple_raw_view m'' r' = simple_raw_view m r"
    by (cases r) (auto simp: simple_raw_copy_def simple_raw_ok_def simple_raw_view_def nth_append)
qed (auto simp: simple_raw_copy_def simple_raw_ok_def simple_raw_view_def nth_append split: option.splits)

interpretation simple: apimachinery simple_library simple_meaning
  by (intro apimachinery.intro) (simp_all add: simple_library_def simple_meaning_def simple_raw_copier deep_copier_flat)

section \<open>The base of a status patch\<close>

text \<open>
  The first part of \<open>applyStatusUpdate\<close> on the memory: the class at \<open>p\<close> is copied for the patch and then edited
  in place.  \<open>generation\<close> reads the metadata, \<open>setReady\<close> is \<open>meta.SetStatusCondition\<close> of the conditions of the class at \<open>p\<close>.
\<close>

definition class_at :: "addr \<times> nat \<Rightarrow> ('r, 'c, 'o, 'l, 'x) memory \<Rightarrow> 'o NamespaceClass_struct" where
  "class_at p m = classes_of (m ! fst p) ! snd p"

definition write_class :: "addr \<times> nat \<Rightarrow> 'o NamespaceClass_struct \<Rightarrow> ('r, 'c, 'o, 'l, 'x) memory \<Rightarrow> ('r, 'c, 'o, 'l, 'x) memory" where
  "write_class p c m = m[fst p := Classes ((classes_of (m ! fst p))[snd p := c])]"

definition editStatus :: "(NamespaceClassStatus_struct \<Rightarrow> NamespaceClassStatus_struct) \<Rightarrow> 'o NamespaceClass_struct \<Rightarrow> 'o NamespaceClass_struct" where
  "editStatus f c = c\<lparr>x_Status := f (x_Status c)\<rparr>"

definition edit_class :: "('o \<Rightarrow> int64) \<Rightarrow> (addr \<times> nat \<Rightarrow> ('r, 'c, 'o, 'l, 'x) memory \<Rightarrow> ('r, 'c, 'o, 'l, 'x) memory) \<Rightarrow>
   slice \<Rightarrow> addr \<times> nat \<Rightarrow> ('r, 'c, 'o, 'l, 'x) memory \<Rightarrow> ('r, 'c, 'o, 'l, 'x) memory" where
  "edit_class generation setReady statuses p m1 =
     (let m2 = write_class p (editStatus (x_ObservedGeneration_update (\<lambda>_. generation (x_ObjectMeta (class_at p m1)))) (class_at p m1)) m1;
          m3 = setReady p m2
      in write_class p (editStatus (x_Namespaces_update (\<lambda>_. statuses)) (class_at p m3)) m3)"

definition applyStatusUpdate_memory ::
  "('r, 'c, 'o, 'l, 'x) library \<Rightarrow> ('o \<Rightarrow> int64) \<Rightarrow> (addr \<times> nat \<Rightarrow> ('r, 'c, 'o, 'l, 'x) memory \<Rightarrow> ('r, 'c, 'o, 'l, 'x) memory) \<Rightarrow>
   slice \<Rightarrow> addr \<times> nat \<Rightarrow> ('r, 'c, 'o, 'l, 'x) memory \<Rightarrow> pointer \<times> ('r, 'c, 'o, 'l, 'x) memory" where
  "applyStatusUpdate_memory L generation setReady statuses p m =
     (case NamespaceClass_DeepCopy L (Some p) m of (base, m1) \<Rightarrow> (base, edit_class generation setReady statuses p m1))"

text \<open>What \<open>SetStatusCondition\<close> may touch: the slice in the class, the array it has, and new memory.\<close>

definition sets_condition :: "(addr \<times> nat \<Rightarrow> ('r, 'c, 'o, 'l, 'x) memory \<Rightarrow> ('r, 'c, 'o, 'l, 'x) memory) \<Rightarrow> bool" where
  "sets_condition setReady \<longleftrightarrow> (\<forall>p m. fst p < length m \<longrightarrow> snd p < length (classes_of (m ! fst p)) \<longrightarrow>
     length m \<le> length (setReady p m) \<and>
     (\<exists>cs. classes_of (setReady p m ! fst p) =
        (classes_of (m ! fst p))[snd p := editStatus (x_Conditions_update (\<lambda>_. cs)) (class_at p m)]) \<and>
     (\<forall>b<length m. b \<noteq> fst p \<longrightarrow> (\<forall>a off n. x_Conditions (x_Status (class_at p m)) = Slice a off n \<longrightarrow> b \<noteq> a) \<longrightarrow>
        setReady p m ! b = m ! b))"

lemma same_from_write_before: "d < l \<Longrightarrow> same_from l m (m'[d := c]) \<longleftrightarrow> same_from l m m'"
  by (auto simp: same_from_def nth_list_update)

lemma same_from_trans: "same_from l m m1 \<Longrightarrow> same_from l m1 m2 \<Longrightarrow> same_from l m m2"
  by (auto simp: same_from_def)

lemma class_at_write: "fst p < length m \<Longrightarrow> snd p < length (classes_of (m ! fst p)) \<Longrightarrow> class_at p (write_class p c m) = c"
  by (simp add: class_at_def write_class_def)

lemma sets_condition_same:
  assumes "sets_condition setReady" and "fst p < l" and "fst p < length m" and "snd p < length (classes_of (m ! fst p))"
    and "\<And>a off n. x_Conditions (x_Status (class_at p m)) = Slice a off n \<Longrightarrow> a < l"
  shows "same_from l m (setReady p m)"
proof -
  from assms(1,3,4) have "length m \<le> length (setReady p m)" and other: "\<And>b. b < length m \<Longrightarrow> b \<noteq> fst p \<Longrightarrow>
      (\<And>a off n. x_Conditions (x_Status (class_at p m)) = Slice a off n \<Longrightarrow> b \<noteq> a) \<Longrightarrow> setReady p m ! b = m ! b"
    unfolding sets_condition_def by blast+
  moreover have "setReady p m ! b = m ! b" if "l \<le> b" "b < length m" for b
    using that assms(2,5) by (intro other) (auto simp: not_less [symmetric])
  ultimately show ?thesis by (simp add: same_from_def)
qed

text \<open>What the three edits write to, and what they leave at \<open>p\<close>.\<close>

lemma edit_class_effect:
  assumes set: "sets_condition setReady" and p: "fst p < l" "fst p < length m1" "snd p < length (classes_of (m1 ! fst p))"
    and conds: "\<And>a off n. x_Conditions (x_Status (class_at p m1)) = Slice a off n \<Longrightarrow> a < l"
  shows "same_from l m1 (edit_class generation setReady statuses p m1) \<and>
    (\<exists>cs. class_at p (edit_class generation setReady statuses p m1) =
      editStatus (\<lambda>st. st\<lparr>x_ObservedGeneration := generation (x_ObjectMeta (class_at p m1)),
        x_Namespaces := statuses, x_Conditions := cs\<rparr>) (class_at p m1))"
proof -
  let ?c1 = "editStatus (x_ObservedGeneration_update (\<lambda>_. generation (x_ObjectMeta (class_at p m1)))) (class_at p m1)"
  let ?m2 = "write_class p ?c1 m1" and ?c3 = "editStatus (x_Namespaces_update (\<lambda>_. statuses))"
  let ?m3 = "setReady p ?m2"
  have m4: "edit_class generation setReady statuses p m1 = write_class p (?c3 (class_at p ?m3)) ?m3"
    by (simp add: edit_class_def Let_def)
  have c2: "class_at p ?m2 = ?c1" by (rule class_at_write [OF p(2,3)])
  have p2: "fst p < length ?m2" "snd p < length (classes_of (?m2 ! fst p))" using p by (simp_all add: write_class_def)
  have m2: "same_from l m1 ?m2" using p by (simp add: write_class_def same_from_write_before)
  have "same_from l ?m2 ?m3"
  proof (rule sets_condition_same [OF set p(1) p2])
    fix a off n
    assume "x_Conditions (x_Status (class_at p ?m2)) = Slice a off n"
    then have "x_Conditions (x_Status (class_at p m1)) = Slice a off n" unfolding c2 by (simp add: editStatus_def)
    then show "a < l" by (rule conds)
  qed
  with m2 have m3: "same_from l m1 ?m3" by (rule same_from_trans)
  have frame: "same_from l m1 (edit_class generation setReady statuses p m1)"
    using m3 p by (simp add: m4 write_class_def same_from_write_before)
  from set p2 obtain cs where "classes_of (?m3 ! fst p) =
      (classes_of (?m2 ! fst p))[snd p := editStatus (x_Conditions_update (\<lambda>_. cs)) (class_at p ?m2)]"
    unfolding sets_condition_def by blast
  moreover have "classes_of (?m2 ! fst p) = (classes_of (m1 ! fst p))[snd p := ?c1]"
    using p by (simp add: write_class_def)
  ultimately have c3: "class_at p ?m3 = editStatus (x_Conditions_update (\<lambda>_. cs)) ?c1"
    and p3: "snd p < length (classes_of (?m3 ! fst p))"
    using p by (simp_all add: class_at_def [of p ?m3] c2)
  have "fst p < length ?m3" using same_from_length [OF m3] p by simp
  then have "class_at p (edit_class generation setReady statuses p m1) = ?c3 (class_at p ?m3)"
    unfolding m4 using p3 by (rule class_at_write)
  then have "class_at p (edit_class generation setReady statuses p m1) =
      editStatus (\<lambda>st. st\<lparr>x_ObservedGeneration := generation (x_ObjectMeta (class_at p m1)),
        x_Namespaces := statuses, x_Conditions := cs\<rparr>) (class_at p m1)"
    unfolding c3 by (simp add: editStatus_def)
  with frame show ?thesis by blast
qed

section \<open>Properties\<close>

text \<open>
  C26: a deep copy of a class has the value of the original and shares nothing with it: the copy of nil is nil,
  otherwise it is a new class; the original's memory is not written to, and whatever is written later to memory that was there
  before the copy, through the original or anything it refers to, the copy keeps the value the original had.
\<close>

theorem NamespaceClass_DeepCopy_independent:
  assumes "apimachinery L V" and "ok_pointer classes_of (ok_Class V) m p"
    and "NamespaceClass_DeepCopy L p m = (q, m')" and "same_from (length m) m' m''"
  shows "(q = None \<longleftrightarrow> p = None) \<and> (\<exists>ts. m' = m @ ts) \<and>
    view_pointer classes_of (view_Class V) m'' q = view_pointer classes_of (view_Class V) m p"
  using assms by (rule apimachinery.class_DeepCopy)

definition sample_struct :: "string NamespaceClass_struct" where
  "sample_struct = \<lparr>x_TypeMeta = (''v1alpha1'', ''NamespaceClass''), x_ObjectMeta = ''public-network'',
     x_Spec = \<lparr>x_Resources = Slice 1 0 2\<rparr>,
     x_Status = \<lparr>x_ObservedGeneration = 1, x_Namespaces = Slice 3 0 1, x_Conditions = NilSlice\<rparr>\<rparr>"

text \<open>A class with two resources, one of them nil, and one namespace.\<close>

definition sample_memory :: simple_memory where
  "sample_memory = [Classes [sample_struct], Raws [Some 2, None], Foreign ''a'',
     Entries [\<lparr>st_Name = ''web'', st_CurrentClass = ''c'', st_LastAppliedClass = [], st_ResourceStatus = ''Applied''\<rparr>]]"

lemmas sample_memory_defs = sample_memory_def sample_struct_def simple_meaning_def simple_raw_ok_def simple_raw_view_def

lemma sample_ok: "ok_pointer classes_of (ok_Class simple_meaning) sample_memory (Some (0, 0))"
  by (simp add: ok_pointer_def ok_Class_def ok_Spec_def ok_Status_def ok_slice_def sample_memory_defs less_Suc_eq numeral_2_eq_2)

text \<open>The bytes and the entries of the original are overwritten after the copy.\<close>

lemma NamespaceClass_DeepCopy_independent_witness:
  "let (q, m') = NamespaceClass_DeepCopy simple_library (Some (0, 0)) sample_memory;
       m'' = m'[2 := Foreign ''b'', 3 := Entries [zero_NamespaceStatus]] in
   view_pointer classes_of (view_Class simple_meaning) m'' q =
     view_pointer classes_of (view_Class simple_meaning) sample_memory (Some (0, 0)) \<and>
   view_pointer classes_of (view_Class simple_meaning) m'' (Some (0, 0)) \<noteq>
     view_pointer classes_of (view_Class simple_meaning) sample_memory (Some (0, 0))"
proof -
  obtain q m' where run: "NamespaceClass_DeepCopy simple_library (Some (0, 0)) sample_memory = (q, m')"
    by (cases "NamespaceClass_DeepCopy simple_library (Some (0, 0)) sample_memory")
  let ?m'' = "m'[2 := Foreign ''b'', 3 := Entries [zero_NamespaceStatus]]"
  have same: "same_from (length sample_memory) m' ?m''"
    by (auto simp: same_from_def sample_memory_def)
  from NamespaceClass_DeepCopy_independent [OF simple.apimachinery_axioms sample_ok run same]
  obtain ts where m': "m' = sample_memory @ ts"
    and view: "view_pointer classes_of (view_Class simple_meaning) ?m'' q =
      view_pointer classes_of (view_Class simple_meaning) sample_memory (Some (0, 0))" by blast
  have "view_pointer classes_of (view_Class simple_meaning) ?m'' (Some (0, 0)) \<noteq>
      view_pointer classes_of (view_Class simple_meaning) sample_memory (Some (0, 0))"
    by (simp add: m' view_pointer_def view_Class_def view_Spec_def view_slice_def sample_memory_defs numeral_2_eq_2 numeral_3_eq_3)
  with view run show ?thesis by simp
qed

text \<open>
  The same for lists of classes, as a \<open>runtime.Object\<close>: nil gives nil, never an interface with a nil pointer in it, and
  otherwise the object is a list with the value of the original, which no write to older memory changes.
\<close>

theorem NamespaceClassList_DeepCopyObject_independent:
  assumes "apimachinery L V" and "ok_pointer lists_of (ok_List V) m p"
    and "NamespaceClassList_DeepCopyObject L p m = (ob, m')" and "same_from (length m) m' m''"
  shows "case ob of
      NilObject \<Rightarrow> p = None \<and> m' = m
    | ClassObject q \<Rightarrow> False
    | ClassListObject q \<Rightarrow> (\<exists>ts. m' = m @ ts) \<and>
        view_pointer lists_of (view_List V) m'' (Some q) = view_pointer lists_of (view_List V) m p"
proof -
  obtain q where run: "NamespaceClassList_DeepCopy L p m = (q, m')"
    and ob: "ob = (case q of Some q \<Rightarrow> ClassListObject q | None \<Rightarrow> NilObject)"
    using assms(3) by (auto simp: NamespaceClassList_DeepCopyObject_def split: prod.splits)
  from apimachinery.list_DeepCopy [OF assms(1,2) run assms(4)] ob run show ?thesis
    by (cases q) (auto simp: NamespaceClassList_DeepCopy_def copyNew_def)
qed

definition sample_list_memory :: simple_memory where
  "sample_list_memory = sample_memory @ [Lists [\<lparr>y_TypeMeta = (''v1alpha1'', ''NamespaceClassList''), y_ListMeta = [],
     y_Items = Slice 0 0 1\<rparr>]]"

lemma NamespaceClassList_DeepCopyObject_independent_witness:
  "case NamespaceClassList_DeepCopyObject simple_library (Some (4, 0)) sample_list_memory of
     (ClassListObject q, m') \<Rightarrow>
       view_pointer lists_of (view_List simple_meaning) (m'[0 := Classes []]) (Some q) =
         view_pointer lists_of (view_List simple_meaning) sample_list_memory (Some (4, 0))
   | _ \<Rightarrow> False"
proof -
  obtain ob m' where run: "NamespaceClassList_DeepCopyObject simple_library (Some (4, 0)) sample_list_memory = (ob, m')"
    by (cases "NamespaceClassList_DeepCopyObject simple_library (Some (4, 0)) sample_list_memory")
  have ok: "ok_pointer lists_of (ok_List simple_meaning) sample_list_memory (Some (4, 0))"
    by (simp add: ok_pointer_def ok_List_def ok_Class_def ok_Spec_def ok_Status_def ok_slice_def sample_list_memory_def
        sample_memory_defs less_Suc_eq numeral_2_eq_2 numeral_3_eq_3 eval_nat_numeral)
  have "same_from (length sample_list_memory) m' (m'[0 := Classes []])"
    by (auto simp: same_from_def sample_list_memory_def)
  from NamespaceClassList_DeepCopyObject_independent [OF simple.apimachinery_axioms ok run this] run show ?thesis
    by (cases ob) simp_all
qed

text \<open>
  C25: the base of a status patch is a snapshot.  \<open>applyStatusUpdate\<close> edits the class it was given in place after it made the
  patch's base, generation, conditions (which the library may edit within their array) and namespaces; the base
  keeps the value the class had on entry, and the class has exactly these three edits.
\<close>

theorem patch_base_is_snapshot:
  assumes "apimachinery L V" and ok: "ok_pointer classes_of (ok_Class V) m (Some p)" and "sets_condition setReady"
    and run: "applyStatusUpdate_memory L generation setReady statuses p m = (base, m4)"
  shows "view_pointer classes_of (view_Class V) m4 base = view_pointer classes_of (view_Class V) m (Some p) \<and>
    (\<exists>cs. class_at p m4 = editStatus (\<lambda>st. st\<lparr>x_ObservedGeneration := generation (x_ObjectMeta (class_at p m)),
       x_Namespaces := statuses, x_Conditions := cs\<rparr>) (class_at p m))"
proof -
  obtain m1 where copy: "NamespaceClass_DeepCopy L (Some p) m = (base, m1)" and m4: "m4 = edit_class generation setReady statuses p m1"
    using run by (auto simp: applyStatusUpdate_memory_def split: prod.splits)
  from ok have p: "fst p < length m" "snd p < length (classes_of (m ! fst p))" and okc: "ok_Class V m (class_at p m)"
    by (auto simp: ok_pointer_def class_at_def split: prod.splits)
  obtain ts where m1: "m1 = m @ ts"
    using apimachinery.class_DeepCopy [OF assms(1) ok copy same_from_refl] by blast
  with p have p1: "fst p < length m1" "snd p < length (classes_of (m1 ! fst p))" and c1: "class_at p m1 = class_at p m"
    by (simp_all add: nth_append class_at_def)
  have "same_from (length m) m1 m4 \<and>
      (\<exists>cs. class_at p m4 = editStatus (\<lambda>st. st\<lparr>x_ObservedGeneration := generation (x_ObjectMeta (class_at p m1)),
         x_Namespaces := statuses, x_Conditions := cs\<rparr>) (class_at p m1))"
    unfolding m4
    by (rule edit_class_effect [OF assms(3) p(1) p1]) (use okc in \<open>simp add: c1 ok_Class_def ok_Status_def ok_slice_def\<close>)
  with apimachinery.class_DeepCopy [OF assms(1) ok copy] c1 show ?thesis by auto
qed

text \<open>A \<open>SetStatusCondition\<close> that always appends, to a new array.\<close>

definition append_condition :: "Condition \<Rightarrow> addr \<times> nat \<Rightarrow> simple_memory \<Rightarrow> simple_memory" where
  "append_condition c p m =
     (let old = (case x_Conditions (x_Status (class_at p m)) of NilSlice \<Rightarrow> [] | Slice a off n \<Rightarrow> take n (drop off (conds_of (m ! a)))) in
      (write_class p (editStatus (x_Conditions_update (\<lambda>_. Slice (length m) 0 (length old + 1))) (class_at p m)) m) @ [Conds (old @ [c])])"

lemma sets_append_condition: "sets_condition (append_condition c)"
  unfolding sets_condition_def append_condition_def Let_def write_class_def by (auto simp: nth_append)

text \<open>The update of the class in the sample memory, with a new list of namespaces.\<close>

lemma patch_base_is_snapshot_witness:
  "let (base, m4) = applyStatusUpdate_memory simple_library (\<lambda>_. 7) (append_condition zero_Condition_value) NilSlice (0, 0) sample_memory in
   view_pointer classes_of (view_Class simple_meaning) m4 base =
     view_pointer classes_of (view_Class simple_meaning) sample_memory (Some (0, 0)) \<and>
   x_ObservedGeneration (x_Status (class_at (0, 0) m4)) = 7 \<and> x_Namespaces (x_Status (class_at (0, 0) m4)) = NilSlice"
proof -
  obtain base m4 where run: "applyStatusUpdate_memory simple_library (\<lambda>_. 7) (append_condition zero_Condition_value) NilSlice (0, 0)
      sample_memory = (base, m4)"
    by (cases "applyStatusUpdate_memory simple_library (\<lambda>_. 7) (append_condition zero_Condition_value) NilSlice (0, 0) sample_memory")
  from patch_base_is_snapshot [OF simple.apimachinery_axioms sample_ok sets_append_condition run] run
  show ?thesis by (auto simp: editStatus_def)
qed

end
