(* ===== verification/Spec2Isabelle.thy ===== *)
theory Spec2Isabelle
  imports Rollout Concurrent_Writes Class_Deletion Versioned_Updates Annotation_Locking Watch_Report Program_Start Api_Scheme Deep_Copy
begin

text \<open>
  A verification development for the namespace class controller \<open>aknsc\<close>.

  The program.  A \<open>NamespaceClass\<close> is a cluster-wide object with a list of resources.  A namespace
  picks a class by its label \<open>namespaceclass.akuity.io/name\<close>; the controller then creates the class's
  resources in the namespace (with an owner label), remembers the class in two annotations of the
  namespace, replaces the resources when the label changes, and keeps a list of the namespaces in
  the class's status.  \<open>cmd/main.go\<close> starts a manager; \<open>SetupWithManager\<close> registers the main controller
  and one watch controller per resource type that discovery offers; filters and mapping functions turn
  watch events into requests; \<open>Reconcile\<close> serves a request: the name is first looked up as a class
  (then every namespace with its label is reconciled, the finalizer is handled when the class is
  being deleted, and the status is written) and otherwise as a namespace.

  The model.  Every Go function that talks to the cluster is a function of the same name from the
  outside parameter \<open>K :: 'w kube\<close> (the API client, discovery, and the library functions that parse
  and convert) to a program \<open>'w \<Rightarrow> outcome \<times> events \<times> 'w\<close>: the outcome is a value, a Go error or a
  panic, the events are the calls with their answers, in order.  Effects are not undone by an error.
  \<open>'w\<close> is everything outside the run, so what other requests and other programs do between two of its calls is
  part of the next answer.
  Loops of the source are primitive recursions over the list they range over or \<open>forG\<close> and
  \<open>concatMapG\<close>; all of them end, so there is no fuel.  Nothing is assumed of \<open>K\<close> but by name:
  \<open>kube_client\<close> (a \<open>Get\<close> answers with the name asked for, a \<open>List\<close> with objects that match),
  \<open>kube_store\<close> (writes take effect) and \<open>kube_cluster\<close> (answers agree with the state, which only the
  writes change).  \<open>Kube_Memory\<close> and \<open>Kube_Cluster\<close> interpret them on an in-memory cluster, on which the
  witnesses run.

  The theories, in the order of the code:

  \<^item> \<open>Go_Prelude\<close>: Go's strings, maps with nil, errors, statements; the judgements \<open>safe P h m\<close> (no
    panic, and \<open>P\<close> of every event and the history before it), \<open>yields\<close>, \<open>valid\<close>, \<open>keeps\<close>, \<open>phased\<close>
    with their rules, on which all proofs rest.
  \<^item> \<open>Kube_Api\<close>: \<open>api/v1alpha1/namespaceclass_types.go\<close>, the constants of the controller, the outside
    parameter, the events.
  \<^item> \<open>Discovery\<close>: \<open>getServerPreferredResources\<close>, \<open>shouldWatchResource\<close> and
    \<open>getPreferredVersionForResource\<close>; the locale \<open>discovery_walk\<close> for the nested loops over discovery.
  \<^item> \<open>Labelled_Resources\<close>: the two listings by owner label (\<open>listResourcesWithLabel\<close>,
    \<open>getCurrentNamespaceClassResources\<close>), both interpretations of \<open>discovery_walk\<close>: what they ask
    for, that they miss nothing and find nothing foreign.
  \<^item> \<open>Class_Resources\<close>: \<open>namespaceclass_resources.go\<close>: converting, applying, deleting, and the cleanup
    of a previous class; what each branch sends, and what a deletion rests on.
  \<^item> \<open>Class_Status\<close>: \<open>namespaceclass_status.go\<close>: the keyed list of entries as a map (refinement),
    stability of the entries, the status patch.
  \<^item> \<open>Class_Annotations\<close>: the two annotation writers, with the locale \<open>annotation_writer\<close>: a run is one
    critical section.
  \<^item> \<open>Annotation_Locking\<close>: the same critical sections run by any number of threads as a step relation:
    mutual exclusion, no lost update, progress, and that the sequential code refines the steps.
  \<^item> \<open>Class_Finalizer\<close>: \<open>namespaceclass_finalizer.go\<close>: errors are collected exactly, and when the
    finalizer goes.
  \<^item> \<open>Class_Controller\<close>: \<open>Reconcile\<close> and \<open>reconcileNamespaceWithClass\<close>, and the contract of a request:
    for each event what has to be in the history before it.
  \<^item> \<open>Reconcile_Branches\<close>: the four courses of a reconciliation, the order of its writes, failing
    cleanups, all namespaces of a class.
  \<^item> \<open>Reconcile_Safety\<close>: the contract holds of every run; confinement of writes and deletions, the
    finalizer, idle requests, and two concrete runs.
  \<^item> \<open>Lock_Discipline\<close>: the mutexes in one request: what a section between \<open>Lock\<close> and \<open>Unlock\<close> does, what
    happens outside sections, and that every lock is released.
  \<^item> \<open>Interaction\<close>, \<open>Controller_Interaction\<close>: every operation of the controller is \<open>interactive\<close>: the outside
    reaches it through the answers of its calls only.  So a run is determined by the sequence of answers
    (\<open>script_kube\<close>, an instance of \<open>kube_client\<close>), and a run can be cut and continued at any call.
  \<^item> \<open>Concurrent_Requests\<close>: any number of requests call by call in any interleaving, with the map of namespace
    mutexes (\<open>namespaceMutex\<close>) as shared state and anyone else changing the cluster (\<open>cstep\<close>); a scheduler
    \<open>plays\<close> that runs it, for the witnesses.
  \<^item> \<open>Concurrent_Reconcile\<close>: each request keeps its contract among others, sections exclude each other, a mutex
    that is waited for is three events away from its release, and a request that runs alone is the run of
    \<open>Class_Controller\<close>.
  \<^item> \<open>Versioned_Updates\<close>: concurrent requests on a server that compares resource versions (locale
    \<open>versioned_server\<close>, interpreted on a log of writes): no update of a namespace undoes one it has not seen,
    though the finalizer takes no lock and reads may be stale.
  \<^item> \<open>Convergence\<close>: a reconciliation that succeeds leaves every resource of the class in place.
  \<^item> \<open>Watch_Setup\<close>: the filters, the mapping functions and the watch controllers
    (\<open>namespaceclass_resource_watcher.go\<close> and \<open>SetupWithManager\<close>).
  \<^item> \<open>Watch_Report\<close>: the summary of the watch setup (\<open>logWatchSummary\<close>), and what becomes of types that share
    a controller name when the manager refuses the second (locale \<open>naming_manager\<close>).
  \<^item> \<open>Startup\<close>: \<open>cmd/main.go\<close> from the parsed flags on.
  \<^item> \<open>Program_Start\<close>: the flags of \<open>cmd/main.go\<close>, Go's \<open>flag.Parse\<close> with its errors, and the program from its
    arguments on: what the command line can say, and what is off unless it says so.
  \<^item> \<open>Api_Scheme\<close>: \<open>groupversion_info.go\<close> and the two \<open>init\<close> functions: what the scheme of the manager
    knows (locale \<open>scheme_registry\<close>).
  \<^item> \<open>Kube_Cluster\<close>: the contract of a cluster whose state is seen through a view, the effect of each event on
    the view, and the judgement \<open>tracked\<close>: a program moves the view the way its trace says.
  \<^item> \<open>Controller_Tracking\<close>: every operation of the controller is \<open>tracked\<close>.
  \<^item> \<open>Class_Switch\<close>: a reconciliation settles the annotations, so that the next one only reads and applies, and
    a switch of class leaves no object of the old class that the new one does not have.
  \<^item> \<open>Request_System\<close>: the controller as a step relation: watch events fill the queues of the controllers,
    workers serve requests in any order, requests that failed stay queued, goroutines of
    \<open>triggerReconcile\<close> sleep and wake, the rest of the world may change the cluster.
  \<^item> \<open>Request_Progress\<close>: the goroutines die out, each paid for by a namespace that settles (judgement
    \<open>pays\<close>), and a namespace that was served keeps its class.
  \<^item> \<open>Drift_Repair\<close>: from the deletion or change of an object of a class to the request it causes and the state
    after that request.
  \<^item> \<open>Rollout\<close>: from the change of a class to its resources in every namespace that uses it.  The locale
    \<open>kube_objects\<close> (a call leaves the other objects alone) gives, over the trace of a run, that the
    reconciliations of the namespaces do not disturb each other.
  \<^item> \<open>Write_Feedback\<close>: a reconciliation writes every resource each time, and what the watches make of it.
  \<^item> \<open>Concurrent_Writes\<close>: a namespace request that succeeds among others has written every resource of the
    class, whatever ran at the same time.
  \<^item> \<open>Class_Deletion\<close>: the request for a class that is being deleted, on a server that removes it with its last
    finalizer.
  \<^item> \<open>Deep_Copy\<close>: \<open>zz_generated.deepcopy.go\<close> on an explicit memory of arrays.  The locale \<open>deep_copier\<close> is the
    contract of a copy (the same value, in new memory only), handed on from the library's types
    (\<open>apimachinery\<close>) to slices, structs and pointers; it gives that the base of a status patch is not
    changed by the edits of the class, which \<open>Class_Status\<close>, where objects are values, takes for granted.

  What is not modelled.  Contexts and capacities of slices have no definition, and log lines but for the
  summary of the watches neither.  The work queue is the library's as documented, the API server is inside
  \<open>K\<close>, the flags that libraries register are a parameter, the flag package's messages are left out.  Objects are
  records of the fields the controller looks at, with the rest opaque.
  Safety (\<open>Reconcile_Safety\<close>, \<open>Lock_Discipline\<close>, \<open>Concurrent_Reconcile\<close>, \<open>Versioned_Updates\<close>) is for requests
  that run at the same time and for reads of any age, and so is what a request that succeeds has written
  (\<open>Concurrent_Writes\<close>).  The state it leaves behind (\<open>Convergence\<close>, \<open>Rollout\<close>, \<open>Class_Switch\<close>,
  \<open>Request_Progress\<close>, \<open>Drift_Repair\<close>) is for requests that are one step of \<open>Request_System\<close> each, and where it rests on
  \<open>kube_cluster\<close>, reads are current and deletions take effect at once: what lagging caches and finalizers
  of the deleted objects do to it is outside these properties.
  Findings of the modelling that are theorems here: the finalizer is never added, it is removed although
  deletions failed, its cleanup takes no lock, the status says ready after a failure, a deleted class ends in
  an error, a resource taken out of a class stays, the cleanup ignores the API group, and controller names are not unique.
\<close>

section \<open>Applying and watching together\<close>



end
